(* ===== verification/Prelude.thy ===== *)
theory Prelude
  imports Main "HOL-Library.Word" "HOL-Library.AList"
begin

text \<open>
  The vocabulary the component theories share.

  \<^item> Go outcomes: a call returns (\<open>Ret\<close>) or panics (\<open>Panic\<close>); an \<open>error\<close>
    result is an option, \<open>None\<close> for \<open>nil\<close>; the error values of the packages under
    \<open>bordercontrol/lib\<close> are the constructors of \<open>go_err\<close>.
  \<^item> Go maps: association lists with distinct keys. The order of the list is one
    iteration order of the map; Go leaves that order open, so a result that a caller
    may rely on must not depend on it.
  \<^item> Time: instants in nanoseconds since the zero \<open>time.Time\<close>, durations in
    nanoseconds.
  \<^item> The lemma collections and the generic lemmas the component proofs use.
\<close>

named_theorems go_defs \<open>definitions of the Go outcome and map operations\<close>
named_theorems inv_intros \<open>preservation lemmas of the components' invariants\<close>

section \<open>Machine integers, time, identifiers\<close>

type_synonym u8 = "8 word"
type_synonym u64 = "64 word"

text \<open>\<open>uuid.UUID\<close> is a 16-byte array, compared by value.\<close>
type_synonym uuid = "128 word"

text \<open>\<open>time.Time\<close> and \<open>time.Duration\<close>, in nanoseconds; \<open>0\<close> is the zero time.\<close>
type_synonym time = int
type_synonym duration = int

definition second :: duration where
  "second = 1000000000"

definition minute :: duration where
  "minute = 60 * second"

lemma second_pos [simp]: "0 < second"
  by (simp add: second_def)

section \<open>Outcomes of Go calls\<close>

datatype 'a go = Panic string | Ret 'a

fun go_bind :: "'a go \<Rightarrow> ('a \<Rightarrow> 'b go) \<Rightarrow> 'b go" where
  "go_bind (Panic m) f = Panic m"
| "go_bind (Ret x) f = f x"

definition returns :: "'a go \<Rightarrow> bool" where
  "returns r = (case r of Panic _ \<Rightarrow> False | Ret _ \<Rightarrow> True)"

lemma returns_simps [simp]:
  "\<not> returns (Panic m)" "returns (Ret x)"
  by (simp_all add: returns_def)

lemma returns_iff: "returns r \<longleftrightarrow> (\<exists>x. r = Ret x)"
  by (cases r) auto

text \<open>
  The error values of the packages. An error made by code outside the repository (the
  Docker client, the NATS client, the Prometheus client, the operating system, the UUID
  parser) is \<open>ErrExt\<close> with its message; \<open>ErrDeadline\<close> is
  \<open>os.ErrDeadlineExceeded\<close>, \<open>ErrEOF\<close> is \<open>io.EOF\<close>, \<open>ErrNetClosed\<close> is
  \<open>net.ErrClosed\<close>.
\<close>

datatype go_err =
    \<comment> \<open>feedproxy\<close>
    ErrFeedproxyNotInitialised | ErrFeedproxyAlreadyInitialised | ErrDNSReturnsNoResults
  | ErrTLSHandshakeIncomplete | ErrClientSentInvalidAPIKey | ErrConnectionLimitExceeded
  | ErrUnsupportedProtocol | ErrFeederNotFound | ErrFeederNoLongerValid
  | ErrConnectingTooFrequently nat nat
    \<comment> \<open>feedprotocol\<close>
  | ErrUnknownProtocol string
    \<comment> \<open>stats\<close>
  | ErrAPIKeyNotFound | ErrStatsNotInitialised | ErrStatsAlreadyInitialised
  | ErrProtoNotFound | ErrConnNumNotFound
  | ErrPromCounterDidNotUnregister | ErrPromCouldNotFindCounter
    \<comment> \<open>containers\<close>
  | ErrContainersNotInitialised | ErrContainersAlreadyInitialised | ErrContextCancelled
  | ErrTimeoutContainerStartReq | ErrTimeoutContainerStartResp
  | ErrMultipleContainersFound | ErrContainerNotFound
    \<comment> \<open>nats_io\<close>
  | ErrNatsNotInitialised
    \<comment> \<open>atc\<close>
  | ErrNoAuthToken | ErrUnsupportedResponse int | ErrRequestFailed
    \<comment> \<open>the standard library and code outside the repository\<close>
  | ErrSyntax | ErrDeadline | ErrEOF | ErrNetClosed | ErrExt string

text \<open>A Go \<open>error\<close> result: \<open>None\<close> is \<open>nil\<close>.\<close>
type_synonym error = "go_err option"

section \<open>Go maps\<close>

type_synonym ('k, 'v) gomap = "('k \<times> 'v) list"

definition gm_empty :: "('k, 'v) gomap" where
  "gm_empty = []"

definition gm_get :: "('k, 'v) gomap \<Rightarrow> 'k \<Rightarrow> 'v option" where
  "gm_get m k = map_of m k"

definition gm_put :: "'k \<Rightarrow> 'v \<Rightarrow> ('k, 'v) gomap \<Rightarrow> ('k, 'v) gomap" where
  "gm_put k v m = AList.update k v m"

definition gm_del :: "'k \<Rightarrow> ('k, 'v) gomap \<Rightarrow> ('k, 'v) gomap" where
  "gm_del k m = AList.delete k m"

definition gm_len :: "('k, 'v) gomap \<Rightarrow> nat" where
  "gm_len m = length m"

definition gm_keys :: "('k, 'v) gomap \<Rightarrow> 'k list" where
  "gm_keys m = map fst m"

definition gm_wf :: "('k, 'v) gomap \<Rightarrow> bool" where
  "gm_wf m = distinct (map fst m)"

lemmas gm_defs [go_defs] =
  gm_empty_def gm_get_def gm_put_def gm_del_def gm_len_def gm_keys_def gm_wf_def

text \<open>
  The interface the stateful packages use of a map: what a lookup returns after a write
  or a delete, and what \<open>len\<close> counts. A client that knows only this interface does not
  depend on the iteration order.
\<close>

locale map_store =
  fixes empty :: 'm
    and get :: "'m \<Rightarrow> 'k \<Rightarrow> 'v option"
    and put :: "'k \<Rightarrow> 'v \<Rightarrow> 'm \<Rightarrow> 'm"
    and del :: "'k \<Rightarrow> 'm \<Rightarrow> 'm"
    and len :: "'m \<Rightarrow> nat"
    and wf :: "'m \<Rightarrow> bool"
  assumes get_empty: "get empty k = None"
    and get_put: "get (put k v m) k' = (if k' = k then Some v else get m k')"
    and get_del: "get (del k m) k' = (if k' = k then None else get m k')"
    and wf_empty: "wf empty"
    and wf_put: "wf m \<Longrightarrow> wf (put k v m)"
    and wf_del: "wf m \<Longrightarrow> wf (del k m)"
    and len_card: "wf m \<Longrightarrow> len m = card {k. get m k \<noteq> None}"
    and finite_keys: "finite {k. get m k \<noteq> None}"
begin

lemma len_put: "wf m \<Longrightarrow> len (put k v m) = (if get m k = None then Suc (len m) else len m)"
proof -
  assume wf: "wf m"
  have "{k'. get (put k v m) k' \<noteq> None} = insert k {k'. get m k' \<noteq> None}"
    by (auto simp: get_put)
  with wf finite_keys[of m] show ?thesis
    by (simp add: len_card wf_put insert_absorb)
qed

lemma len_del: "wf m \<Longrightarrow> len (del k m) = (if get m k = None then len m else len m - 1)"
proof -
  assume wf: "wf m"
  have "{k'. get (del k m) k' \<noteq> None} = {k'. get m k' \<noteq> None} - {k}"
    by (auto simp: get_del)
  with wf finite_keys[of m] show ?thesis
    by (simp add: len_card wf_del)
qed

lemma len_0: "wf m \<Longrightarrow> (len m = 0) = (\<forall>k. get m k = None)"
  using finite_keys[of m] by (auto simp: len_card)

lemma len_pos_if_get: "wf m \<Longrightarrow> get m k = Some v \<Longrightarrow> 0 < len m"
  using len_0[of m] by auto

lemma put_then_del_len: "wf m \<Longrightarrow> get m k = None \<Longrightarrow> len (del k (put k v m)) = len m"
  by (simp add: len_del len_put wf_put get_put)

end

interpretation gm: map_store gm_empty gm_get gm_put gm_del gm_len gm_wf
proof unfold_locales
  fix m :: "('k, 'v) gomap"
  have "{k. gm_get m k \<noteq> None} = set (map fst m)"
    by (induction m) (auto simp: gm_defs split: if_splits)
  then show "gm_wf m \<Longrightarrow> gm_len m = card {k. gm_get m k \<noteq> None}"
    using distinct_card[of "map fst m"] by (simp add: gm_defs)
  show "finite {k. gm_get m k \<noteq> None}"
    using finite_dom_map_of[of m] by (simp add: gm_defs dom_def)
qed (auto simp: gm_defs update_conv' delete_conv' distinct_update distinct_delete)

lemma gm_put_put [simp]: "gm_put k v (gm_put k w m) = gm_put k v m"
  by (induction m) (auto simp: gm_defs)

lemma gm_len_put_pos [simp]: "0 < gm_len (gm_put k v m)"
  by (induction m) (auto simp: gm_defs)

lemma gm_get_iff_mem: "gm_wf m \<Longrightarrow> gm_get m k = Some v \<longleftrightarrow> (k, v) \<in> set m"
  by (simp add: gm_defs)

declare gm.get_empty [simp] gm.get_put [simp] gm.get_del [simp] gm.wf_empty [simp]
  gm.wf_put [simp] gm.wf_del [simp]

end
