(* ===== verification/GoText.thy ===== *)
theory GoText
  imports Prelude
begin

text \<open>
  The text functions of Go's standard library that the packages call, on byte strings
  (a Go string is a sequence of bytes, a HOL \<open>char\<close> is a byte):
  \<open>strings.ToUpper\<close> and \<open>ToLower\<close>, \<open>strings.Split\<close> with a one-byte separator, the lines
  of \<open>bufio.Scanner\<close>, \<open>strconv.Atoi\<close>, the verb \<open>%d\<close> of \<open>fmt\<close>, and \<open>encoding/json\<close> on a string
  value. The lemmas are the round trips the components rest on.
\<close>

section \<open>Case mapping\<close>

definition upper_byte :: "char \<Rightarrow> char" where
  "upper_byte c = (if 97 \<le> (of_char c :: nat) \<and> (of_char c :: nat) \<le> 122
     then char_of ((of_char c :: nat) - 32) else c)"

definition lower_byte :: "char \<Rightarrow> char" where
  "lower_byte c = (if 65 \<le> (of_char c :: nat) \<and> (of_char c :: nat) \<le> 90
     then char_of ((of_char c :: nat) + 32) else c)"

text \<open>
  \<open>strings.ToUpper\<close> maps runes, not bytes. Two runes outside ASCII have an ASCII upper
  case: U+0131 (bytes C4 B1) maps to \<open>I\<close> and U+017F (bytes C5 BF) to \<open>S\<close>. The other
  non-ASCII runes stay outside ASCII; they are left as they are, which is exact for an
  ASCII argument and for a comparison of the result with an ASCII name.
\<close>

fun to_upper :: "string \<Rightarrow> string" where
  "to_upper [] = []"
| "to_upper [c] = [upper_byte c]"
| "to_upper (c # d # cs) =
     (if c = CHR 0xC4 \<and> d = CHR 0xB1 then CHR ''I'' # to_upper cs
      else if c = CHR 0xC5 \<and> d = CHR 0xBF then CHR ''S'' # to_upper cs
      else upper_byte c # to_upper (d # cs))"

text \<open>
  \<open>strings.ToLower\<close>: the runes with an ASCII lower case are U+0130 (C4 B0, to \<open>i\<close>)
  and U+212A (E2 84 AA, to \<open>k\<close>).
\<close>

fun to_lower :: "string \<Rightarrow> string" where
  "to_lower [] = []"
| "to_lower (c # cs) =
     (if c = CHR 0xC4 \<and> take 1 cs = [CHR 0xB0] then CHR ''i'' # to_lower (drop 1 cs)
      else if c = CHR 0xE2 \<and> take 2 cs = [CHR 0x84, CHR 0xAA]
        then CHR ''k'' # to_lower (drop 2 cs)
      else lower_byte c # to_lower cs)"

definition ascii :: "string \<Rightarrow> bool" where
  "ascii s = list_all (\<lambda>c. (of_char c :: nat) < 128) s"

lemma ascii_simps [simp]:
  "ascii []" "ascii (c # cs) \<longleftrightarrow> (of_char c :: nat) < 128 \<and> ascii cs"
  by (simp_all add: ascii_def)

lemma to_upper_ascii: "ascii s \<Longrightarrow> to_upper s = map upper_byte s"
  by (induction s rule: to_upper.induct) auto

lemma to_lower_ascii: "ascii s \<Longrightarrow> to_lower s = map lower_byte s"
  by (induction s rule: to_lower.induct) auto

section \<open>strings.Split\<close>

fun go_split :: "char \<Rightarrow> string \<Rightarrow> string list" where
  "go_split sep [] = [[]]"
| "go_split sep (c # cs) =
     (if c = sep then [] # go_split sep cs
      else (case go_split sep cs of [] \<Rightarrow> [[c]] | w # ws \<Rightarrow> (c # w) # ws))"

fun go_join :: "char \<Rightarrow> string list \<Rightarrow> string" where
  "go_join sep [] = []"
| "go_join sep [w] = w"
| "go_join sep (w # v # ws) = w @ sep # go_join sep (v # ws)"

lemma go_split_nonempty [simp]: "go_split sep s \<noteq> []"
  by (cases s) (auto split: list.splits)

lemma go_join_split: "go_join sep (go_split sep s) = s"
proof (induction s)
  case (Cons c cs)
  obtain w ws where "go_split sep cs = w # ws"
    by (cases "go_split sep cs") auto
  with Cons show ?case by (cases ws) auto
qed simp

lemma go_split_no_sep: "w \<in> set (go_split sep s) \<Longrightarrow> sep \<notin> set w"
proof (induction s arbitrary: w)
  case (Cons c cs)
  obtain v vs where vs: "go_split sep cs = v # vs"
    by (cases "go_split sep cs") auto
  have "sep \<notin> set v" by (rule Cons.IH) (simp add: vs)
  then show ?case using Cons vs by (auto split: if_splits)
qed simp

lemma go_split_single: "sep \<notin> set s \<Longrightarrow> go_split sep s = [s]"
  by (induction s) auto

lemma go_split_append:
  "sep \<notin> set a \<Longrightarrow> go_split sep (a @ sep # b) = a # go_split sep b"
  by (induction a) auto

section \<open>bufio.Scanner\<close>

text \<open>\<open>dropCR\<close>: one carriage return at the end of a line is not part of it.\<close>

definition drop_cr :: "string \<Rightarrow> string" where
  "drop_cr l = (if l \<noteq> [] \<and> last l = CHR 0x0D then butlast l else l)"

text \<open>The lines of a text; what follows the last newline is a line if it is not empty.\<close>

definition text_lines :: "string \<Rightarrow> string list" where
  "text_lines s = (let ls = go_split CHR 0x0A s in if last ls = [] then butlast ls else ls)"

text \<open>
  The tokens of a scanner with \<open>ScanLines\<close> and its buffer of 65536 bytes: a line that does not fit
  stops it with an error, which only \<open>Err\<close> tells. When reading fails it gives what it has read.
\<close>

definition scan_lines :: "string \<Rightarrow> string list" where
  "scan_lines s = map drop_cr (takeWhile (\<lambda>l. length l < 65536) (text_lines s))"

definition unlines :: "string list \<Rightarrow> string" where
  "unlines ls = concat (map (\<lambda>l. l @ [CHR 0x0A]) ls)"

lemma text_lines_line: "CHR 0x0A \<notin> set l \<Longrightarrow> text_lines (l @ CHR 0x0A # s) = l # text_lines s"
  by (simp add: text_lines_def go_split_append Let_def)

lemma text_lines_unlines:
  "\<forall>l\<in>set ls. CHR 0x0A \<notin> set l \<Longrightarrow> text_lines (unlines ls @ s) = ls @ text_lines s"
  by (induction ls) (simp_all add: unlines_def text_lines_line)

lemma text_lines_last: "CHR 0x0A \<notin> set l \<Longrightarrow> text_lines l = (if l = [] then [] else [l])"
  by (simp add: text_lines_def go_split_single)

text \<open>Nothing from an overlong line on is seen.\<close>

lemma scan_lines_overlong:
  assumes "\<forall>l\<in>set ls. CHR 0x0A \<notin> set l" "CHR 0x0A \<notin> set l" "65536 \<le> length l" "rest = [] \<or> hd rest = CHR 0x0A"
  shows "scan_lines (unlines ls @ l @ rest) = scan_lines (unlines ls)"
proof -
  have "\<exists>more. text_lines (l @ rest) = l # more"
    using assms(2-4) by (cases rest) (auto simp: text_lines_last text_lines_line)
  then obtain more where "text_lines (l @ rest) = l # more" by blast
  then have "text_lines (unlines ls @ l @ rest) = ls @ l # more"
    using text_lines_unlines[OF assms(1), of "l @ rest"] by simp
  moreover have "text_lines (unlines ls) = ls"
    using text_lines_unlines[OF assms(1), of "[]"] by (simp add: text_lines_last)
  moreover have "takeWhile (\<lambda>l. length l < 65536) (ls @ l # more) = takeWhile (\<lambda>l. length l < 65536) ls"
    using assms(3) by (induction ls) simp_all
  ultimately show ?thesis by (simp add: scan_lines_def)
qed

section \<open>Decimal numbers\<close>

definition digit :: "nat \<Rightarrow> char" where
  "digit d = char_of (48 + d)"

definition is_digit :: "char \<Rightarrow> bool" where
  "is_digit c \<longleftrightarrow> 48 \<le> (of_char c :: nat) \<and> (of_char c :: nat) \<le> 57"

definition digit_val :: "char \<Rightarrow> nat" where
  "digit_val c = (of_char c :: nat) - 48"

fun itoa_nat :: "nat \<Rightarrow> string" where
  "itoa_nat n = (if n < 10 then [digit n] else itoa_nat (n div 10) @ [digit (n mod 10)])"

declare itoa_nat.simps [simp del]

text \<open>The verb \<open>%d\<close> on an integer.\<close>

definition go_itoa :: "int \<Rightarrow> string" where
  "go_itoa i = (if i < 0 then CHR ''-'' # itoa_nat (nat (- i)) else itoa_nat (nat i))"

definition digits_val :: "string \<Rightarrow> nat" where
  "digits_val s = foldl (\<lambda>n c. 10 * n + digit_val c) 0 s"

text \<open>
  \<open>strconv.Atoi\<close> on a 64-bit platform: an optional sign, then at least one decimal
  digit, within the range of \<open>int\<close>.
\<close>

definition go_atoi :: "string \<Rightarrow> go_err + int" where
  "go_atoi s =
     (let neg = (take 1 s = ''-'');
          t = (if take 1 s \<in> {''-'', ''+''} then drop 1 s else s);
          v = int (digits_val t)
      in if t = [] \<or> \<not> list_all is_digit t then Inl ErrSyntax
         else if neg \<and> v \<le> 2 ^ 63 then Inr (- v)
         else if \<not> neg \<and> v < 2 ^ 63 then Inr v
         else Inl ErrSyntax)"

lemma of_char_digit [simp]: "d < 10 \<Longrightarrow> (of_char (digit d) :: nat) = 48 + d"
  by (simp add: digit_def)

lemma is_digit_digit [simp]: "d < 10 \<Longrightarrow> is_digit (digit d)"
  by (simp add: is_digit_def)

lemma itoa_nat_digits: "list_all is_digit (itoa_nat n) \<and> itoa_nat n \<noteq> []"
proof (induction n rule: itoa_nat.induct)
  case (1 n)
  then show ?case by (subst (1 2) itoa_nat.simps) simp
qed

lemma digits_val_itoa_nat [simp]: "digits_val (itoa_nat n) = n"
proof (induction n rule: itoa_nat.induct)
  case (1 n)
  show ?case
  proof (cases "n < 10")
    case True
    then show ?thesis
      by (subst itoa_nat.simps) (simp add: digits_val_def digit_val_def)
  next
    case False
    with 1 show ?thesis
      by (subst itoa_nat.simps) (simp add: digits_val_def digit_val_def)
  qed
qed

lemma itoa_nat_hd: "itoa_nat n = c # cs \<Longrightarrow> is_digit c"
  using itoa_nat_digits[of n] by simp

lemma sign_not_digit: "\<not> is_digit (CHR ''-'')" "\<not> is_digit (CHR ''+'')"
  by (simp_all add: is_digit_def)

lemma itoa_nat_no_sign: "take 1 (itoa_nat n) \<notin> {''-'', ''+''}"
proof -
  obtain c cs where c: "itoa_nat n = c # cs"
    using itoa_nat_digits[of n] by (cases "itoa_nat n") auto
  then show ?thesis using itoa_nat_hd[OF c] sign_not_digit by auto
qed

lemma go_atoi_itoa: "- (2 ^ 63) \<le> i \<Longrightarrow> i < 2 ^ 63 \<Longrightarrow> go_atoi (go_itoa i) = Inr i"
  using itoa_nat_digits[of "nat i"] itoa_nat_digits[of "nat (- i)"] itoa_nat_no_sign[of "nat i"]
  by (auto simp: go_atoi_def go_itoa_def Let_def)

section \<open>JSON strings\<close>

text \<open>\<open>json.Marshal\<close> of a string with no byte that needs an escape.\<close>

definition json_quote :: "string \<Rightarrow> string" where
  "json_quote s = CHR 0x22 # s @ [CHR 0x22]"

definition json_plain :: "char \<Rightarrow> bool" where
  "json_plain c \<longleftrightarrow> 32 \<le> (of_char c :: nat) \<and> c \<noteq> CHR 0x22 \<and> c \<noteq> CHR 0x5C"

definition hex_digit :: "char \<Rightarrow> nat option" where
  "hex_digit c = (let n = (of_char c :: nat) in
     if 48 \<le> n \<and> n \<le> 57 then Some (n - 48)
     else if 97 \<le> n \<and> n \<le> 102 then Some (n - 87)
     else if 65 \<le> n \<and> n \<le> 70 then Some (n - 55)
     else None)"

definition hex4 :: "char \<Rightarrow> char \<Rightarrow> char \<Rightarrow> char \<Rightarrow> nat option" where
  "hex4 a b c d =
     (case (hex_digit a, hex_digit b, hex_digit c, hex_digit d) of
        (Some w, Some x, Some y, Some z) \<Rightarrow> Some (((w * 16 + x) * 16 + y) * 16 + z)
      | _ \<Rightarrow> None)"

definition utf8 :: "nat \<Rightarrow> string" where
  "utf8 r =
     (if r < 128 then [char_of r]
      else if r < 2048 then [char_of (192 + r div 64), char_of (128 + r mod 64)]
      else if r < 65536 then
        [char_of (224 + r div 4096), char_of (128 + r div 64 mod 64), char_of (128 + r mod 64)]
      else [char_of (240 + r div 262144), char_of (128 + r div 4096 mod 64),
            char_of (128 + r div 64 mod 64), char_of (128 + r mod 64)])"

definition json_escape :: "char \<Rightarrow> char option" where
  "json_escape c =
     (if c \<in> {CHR 0x22, CHR 0x5C, CHR ''/''} then Some c
      else if c = CHR ''b'' then Some (CHR 0x08) else if c = CHR ''f'' then Some (CHR 0x0C)
      else if c = CHR ''n'' then Some (CHR 0x0A) else if c = CHR ''r'' then Some (CHR 0x0D)
      else if c = CHR ''t'' then Some (CHR 0x09) else None)"

text \<open>
  The body of a JSON string literal after its opening quote: the decoded text and what
  follows the closing quote. A lone surrogate decodes to U+FFFD.
\<close>

fun json_body :: "string \<Rightarrow> (string \<times> string) option" where
  "json_body [] = None"
| "json_body (c # cs) =
     (if c = CHR 0x22 then Some ([], cs)
      else if c = CHR 0x5C then
        (case cs of
           u # h1 # h2 # h3 # h4 # es \<Rightarrow>
             (if u = CHR ''u'' then
                (case hex4 h1 h2 h3 h4 of
                   None \<Rightarrow> None
                 | Some r \<Rightarrow>
                     (if 55296 \<le> r \<and> r < 57344 then
                        (case es of
                           b # v # g1 # g2 # g3 # g4 # fs \<Rightarrow>
                             (case (if b = CHR 0x5C \<and> v = CHR ''u'' then hex4 g1 g2 g3 g4 else None) of
                                Some q \<Rightarrow>
                                  (if r < 56320 \<and> 56320 \<le> q \<and> q < 57344
                                   then map_option (apfst ((@) (utf8 (65536 + (r - 55296) * 1024 + (q - 56320))))) (json_body fs)
                                   else map_option (apfst ((@) (utf8 65533))) (json_body es))
                              | None \<Rightarrow> map_option (apfst ((@) (utf8 65533))) (json_body es))
                         | _ \<Rightarrow> map_option (apfst ((@) (utf8 65533))) (json_body es))
                      else map_option (apfst ((@) (utf8 r))) (json_body es)))
              else (case json_escape u of
                      None \<Rightarrow> None
                    | Some d \<Rightarrow> map_option (apfst ((#) d)) (json_body (h1 # h2 # h3 # h4 # es))))
         | u # es \<Rightarrow>
             (case json_escape u of
                None \<Rightarrow> None
              | Some d \<Rightarrow> map_option (apfst ((#) d)) (json_body es))
         | [] \<Rightarrow> None)
      else if (of_char c :: nat) < 32 then None
      else map_option (apfst ((#) c)) (json_body cs))"

definition json_space :: "char \<Rightarrow> bool" where
  "json_space c \<longleftrightarrow> c \<in> {CHR '' '', CHR 0x09, CHR 0x0A, CHR 0x0D}"

text \<open>
  \<open>json.Unmarshal\<close> into a string variable that holds the empty string: a string literal
  sets it, \<open>null\<close> leaves it, everything else is an error. The input is taken to be valid
  UTF-8.
\<close>

definition json_unmarshal_string :: "string \<Rightarrow> go_err + string" where
  "json_unmarshal_string data =
     (case dropWhile json_space data of
        [] \<Rightarrow> Inl ErrSyntax
      | c # cs \<Rightarrow>
          if c = CHR 0x22 then
            (case json_body cs of
               Some (s, rest) \<Rightarrow> if list_all json_space rest then Inr s else Inl ErrSyntax
             | None \<Rightarrow> Inl ErrSyntax)
          else if take 4 (c # cs) = ''null'' \<and> list_all json_space (drop 4 (c # cs)) then Inr []
          else Inl ErrSyntax)"

lemma json_body_plain:
  "list_all json_plain s \<Longrightarrow> json_body (s @ CHR 0x22 # rest) = Some (s, rest)"
  by (induction s) (auto simp: json_plain_def)

lemma json_roundtrip:
  "list_all json_plain s \<Longrightarrow> json_unmarshal_string (json_quote s) = Inr s"
  by (simp add: json_unmarshal_string_def json_quote_def json_space_def json_body_plain)

end
