(* ===== verification/Atc.thy ===== *)
theory Atc
  imports GoText
begin

text \<open>
  The ATC client of \<open>lib/atc/atc.go\<close>: sign-in (\<open>authenticate\<close>) and the download of the
  feeder list with one retry after a 401 (\<open>GetFeeders\<close>).

  The server is a parameter: \<open>http w r\<close> is the next state of the world and the outcome of
  request \<open>r\<close> in the world \<open>w\<close>. Decoding the body of the feeders endpoint into the list of
  feeders is the parameter \<open>unmarshal\<close>; it gives \<open>None\<close> for the JSON value \<open>null\<close>, which
  sets the pointer to nil. A \<open>*Feeders\<close> is an optional list, \<open>Some []\<close> for \<open>&Feeders{}\<close>.
\<close>

text \<open>A \<open>float64\<close>, by its bits: the packages copy coordinates and never compute with them.\<close>
type_synonym float64 = "64 word"

record atc_feeder =
  f_Altitude :: float64
  f_ApiKey :: uuid
  f_FeederCode :: string
  f_FeedDirection :: string
  f_FeedProtocol :: string
  f_ID :: int
  f_Label :: string
  f_Latitude :: float64
  f_Longitude :: float64
  f_MlatEnabled :: bool
  f_Mux :: string
  f_User :: string

type_synonym feeders_ptr = "atc_feeder list option"

record atc_client =
  atcURL :: string
  credsJson :: string
  authorization :: string

text \<open>
  The two requests: \<open>POST\<close> to \<open>api/user/sign_in\<close> with its body, and \<open>GET\<close> of
  \<open>/api/v1/feeders.json\<close> with its Authorization header, each under the client's base URL.
\<close>

datatype http_request =
    SignIn string string
  | FeedersGet string string

datatype http_result =
    HttpErr string
  | HttpResp int string string \<comment> \<open>status, Authorization header, body\<close>

text \<open>
  \<open>url.Parse\<close> and the JSON form of the credentials are parameters; the client is returned
  next to the error, as the code does.
\<close>

definition NewClientWithContext ::
    "(string \<Rightarrow> go_err + string) \<Rightarrow> (string \<Rightarrow> string \<Rightarrow> string) \<Rightarrow>
     string \<Rightarrow> string \<Rightarrow> string \<Rightarrow> atc_client \<times> error" where
  "NewClientWithContext url_parse creds url user pass =
     (case url_parse url of
        Inl e \<Rightarrow> (\<lparr>atcURL = [], credsJson = creds user pass, authorization = []\<rparr>, Some e)
      | Inr u \<Rightarrow> (\<lparr>atcURL = u, credsJson = creds user pass, authorization = []\<rparr>, None))"

definition authenticate ::
    "('w \<Rightarrow> http_request \<Rightarrow> 'w \<times> http_result) \<Rightarrow> bool \<Rightarrow> 'w \<Rightarrow> atc_client \<Rightarrow>
     error \<times> atc_client \<times> 'w" where
  "authenticate http force w c =
     (if authorization c = [] \<or> force then
        (case http w (SignIn (atcURL c) (credsJson c)) of
           (w', HttpErr m) \<Rightarrow> (Some (ErrExt m), c, w')
         | (w', HttpResp status header body) \<Rightarrow>
             if status = 200 then
               (if header = [] then (Some ErrNoAuthToken, c\<lparr>authorization := header\<rparr>, w')
                else (None, c\<lparr>authorization := header\<rparr>, w'))
             else (Some (ErrUnsupportedResponse status), c, w'))
      else (None, c, w))"

text \<open>
  The loop of \<open>GetFeeders\<close> with its counter \<open>i\<close> and its flag \<open>forceAuth\<close>. The error of
  \<open>authenticate\<close> is dropped, as in the code.
\<close>

function GetFeeders_loop ::
    "('w \<Rightarrow> http_request \<Rightarrow> 'w \<times> http_result) \<Rightarrow> (string \<Rightarrow> go_err + feeders_ptr) \<Rightarrow>
     nat \<Rightarrow> bool \<Rightarrow> 'w \<Rightarrow> atc_client \<Rightarrow> (feeders_ptr \<times> error) \<times> atc_client \<times> 'w" where
  "GetFeeders_loop http unmarshal i forceAuth w c =
     (if 1 < i then ((Some [], Some ErrRequestFailed), c, w)
      else
        (case authenticate http forceAuth w c of
           (_, c', w') \<Rightarrow>
             (case http w' (FeedersGet (atcURL c') (authorization c')) of
                (w'', HttpErr m) \<Rightarrow> ((Some [], Some (ErrExt m)), c', w'')
              | (w'', HttpResp status header body) \<Rightarrow>
                  if status = 200 then
                    (case unmarshal body of
                       Inl e \<Rightarrow> ((Some [], Some e), c', w'')
                     | Inr f \<Rightarrow> ((f, None), c', w''))
                  else if status = 401 then GetFeeders_loop http unmarshal (Suc i) True w'' c'
                  else ((Some [], Some (ErrUnsupportedResponse status)), c', w''))))"
  by pat_completeness auto
termination
  by (relation "measure (\<lambda>(http, unmarshal, i, forceAuth, w, c). 2 - i)") auto

declare GetFeeders_loop.simps [simp del]

definition GetFeeders ::
    "('w \<Rightarrow> http_request \<Rightarrow> 'w \<times> http_result) \<Rightarrow> (string \<Rightarrow> go_err + feeders_ptr) \<Rightarrow>
     'w \<Rightarrow> atc_client \<Rightarrow> (feeders_ptr \<times> error) \<times> atc_client \<times> 'w" where
  "GetFeeders http unmarshal w c = GetFeeders_loop http unmarshal 0 False w c"

section \<open>Lemmas\<close>

lemma GetFeeders_loop_err:
  "fst (GetFeeders_loop http unmarshal i forceAuth w c) = (f, Some e) \<Longrightarrow> f = Some []"
proof (induction http unmarshal i forceAuth w c rule: GetFeeders_loop.induct)
  case (1 http unmarshal i forceAuth w c)
  then show ?case
    by (subst (asm) (2) GetFeeders_loop.simps)
       (auto split: if_splits prod.splits http_result.splits sum.splits)
qed

text \<open>
  A server that also records the requests it gets, to state how many there are.
\<close>

definition recording ::
    "('w \<Rightarrow> http_request \<Rightarrow> 'w \<times> http_result) \<Rightarrow>
     'w \<times> http_request list \<Rightarrow> http_request \<Rightarrow> ('w \<times> http_request list) \<times> http_result" where
  "recording http = (\<lambda>(w, l) r. case http w r of (w', x) \<Rightarrow> ((w', l @ [r]), x))"

fun is_sign_in :: "http_request \<Rightarrow> bool" where
  "is_sign_in (SignIn _ _) = True"
| "is_sign_in (FeedersGet _ _) = False"

definition sign_ins :: "http_request list \<Rightarrow> nat" where
  "sign_ins l = length (filter is_sign_in l)"

definition feeder_gets :: "http_request list \<Rightarrow> nat" where
  "feeder_gets l = length (filter (\<lambda>r. \<not> is_sign_in r) l)"

lemma request_counts [simp]:
  "sign_ins [] = 0" "feeder_gets [] = 0"
  "sign_ins (l @ [SignIn u b]) = Suc (sign_ins l)" "sign_ins (l @ [FeedersGet u b]) = sign_ins l"
  "feeder_gets (l @ [SignIn u b]) = feeder_gets l"
  "feeder_gets (l @ [FeedersGet u b]) = Suc (feeder_gets l)"
  by (simp_all add: sign_ins_def feeder_gets_def)

lemma authenticate_requests:
  "authenticate (recording http) force (w, l) c = (e, c', (w', l')) \<Longrightarrow>
   feeder_gets l' = feeder_gets l \<and> sign_ins l \<le> sign_ins l' \<and> sign_ins l' \<le> Suc (sign_ins l) \<and>
   (force \<longrightarrow> sign_ins l' = Suc (sign_ins l))"
  by (auto simp: authenticate_def recording_def
      split: if_splits prod.splits http_result.splits)

lemma GetFeeders_loop_requests:
  "GetFeeders_loop (recording http) unmarshal i force (w, l) c = (r, c', (w', l')) \<Longrightarrow>
   feeder_gets l' \<le> feeder_gets l + (2 - i) \<and> sign_ins l' \<le> sign_ins l + (2 - i)"
proof (induction "recording http" unmarshal i force "(w, l)" c arbitrary: w l
    rule: GetFeeders_loop.induct)
  case (1 unmarshal i force c w l)
  show ?case
  proof (cases "1 < i")
    case True
    with "1.prems" show ?thesis by (simp add: GetFeeders_loop.simps)
  next
    case False
    obtain e c1 w1 l1 where a: "authenticate (recording http) force (w, l) c = (e, c1, (w1, l1))"
      by (metis prod.exhaust)
    note a' = authenticate_requests[OF a]
    obtain w2 x where h: "http w1 (FeedersGet (atcURL c1) (authorization c1)) = (w2, x)"
      by (metis prod.exhaust)
    let ?l2 = "l1 @ [FeedersGet (atcURL c1) (authorization c1)]"
    have r: "recording http (w1, l1) (FeedersGet (atcURL c1) (authorization c1))
        = ((w2, ?l2), x)"
      by (simp add: recording_def h)
    show ?thesis
    proof (cases "\<exists>hd body. x = HttpResp 401 hd body")
      case True
      then obtain hd body where x: "x = HttpResp 401 hd body" by blast
      have "GetFeeders_loop (recording http) unmarshal (Suc i) True (w2, ?l2) c1 = (r, c', (w', l'))"
        using "1.prems" False a r x by (simp add: GetFeeders_loop.simps[of _ _ i])
      then have "feeder_gets l' \<le> feeder_gets ?l2 + (2 - Suc i) \<and> sign_ins l' \<le> sign_ins ?l2 + (2 - Suc i)"
        using "1.hyps"[OF False a[symmetric] refl r[symmetric] x _ refl] by simp
      then show ?thesis using a' False by auto
    next
      case no401: False
      then have "l' = ?l2"
        using "1.prems" False a r
        by (auto simp: GetFeeders_loop.simps[of _ _ i] split: http_result.splits if_splits sum.splits)
      then show ?thesis using a' False by auto
    qed
  qed
qed

text \<open>
  One attempt, as a specification: authenticate, ask, and decide; \<open>None\<close> is the answer 401.
\<close>

definition attempt_spec ::
    "('w \<Rightarrow> http_request \<Rightarrow> 'w \<times> http_result) \<Rightarrow> (string \<Rightarrow> go_err + feeders_ptr) \<Rightarrow>
     bool \<Rightarrow> 'w \<Rightarrow> atc_client \<Rightarrow> (feeders_ptr \<times> error) option \<times> atc_client \<times> 'w" where
  "attempt_spec http unmarshal force w c =
     (let (_, c', w') = authenticate http force w c;
          (w'', x) = http w' (FeedersGet (atcURL c') (authorization c'))
      in (case x of
            HttpErr m \<Rightarrow> Some (Some [], Some (ErrExt m))
          | HttpResp status header body \<Rightarrow>
              if status = 401 then None
              else if status = 200
                then Some (case unmarshal body of Inl e \<Rightarrow> (Some [], Some e) | Inr f \<Rightarrow> (f, None))
              else Some (Some [], Some (ErrUnsupportedResponse status)), c', w''))"

lemma GetFeeders_loop_attempt:
  "i \<le> 1 \<Longrightarrow> GetFeeders_loop http unmarshal i force w c =
     (case attempt_spec http unmarshal force w c of
        (Some r, c', w') \<Rightarrow> (r, c', w')
      | (None, c', w') \<Rightarrow> GetFeeders_loop http unmarshal (Suc i) True w' c')"
  by (auto simp: GetFeeders_loop.simps[of http unmarshal i] attempt_spec_def
      split: prod.splits http_result.splits sum.splits)

lemma GetFeeders_loop_exhausted [simp]:
  "GetFeeders_loop http unmarshal (Suc (Suc 0)) force w c = ((Some [], Some ErrRequestFailed), c, w)"
  by (simp add: GetFeeders_loop.simps)

text \<open>The requests of an attempt: the sign-in if there is no token or if it is forced, and the feeders.\<close>

definition attempt_requests :: "bool \<Rightarrow> atc_client \<Rightarrow> atc_client \<Rightarrow> http_request list" where
  "attempt_requests force c c' =
     (if authorization c = [] \<or> force then [SignIn (atcURL c) (credsJson c)] else []) @
     [FeedersGet (atcURL c) (authorization c')]"

lemma recording_apply: "recording http (w, l) r = (case http w r of (w', x) \<Rightarrow> ((w', l @ [r]), x))"
  by (simp add: recording_def)

lemma authenticate_recorded:
  "authenticate (recording http) force (w, l) c =
     (case authenticate http force w c of (e, c', w') \<Rightarrow>
        (e, c', (w', l @ (if authorization c = [] \<or> force then [SignIn (atcURL c) (credsJson c)] else []))))"
  by (simp add: authenticate_def recording_def split: prod.splits http_result.splits)

lemma authenticate_keeps:
  "authenticate http force w c = (e, c', w') \<Longrightarrow> atcURL c' = atcURL c \<and> credsJson c' = credsJson c"
  by (auto simp: authenticate_def split: if_splits prod.splits http_result.splits)

lemma attempt_recorded:
  "attempt_spec (recording http) unmarshal force (w, l) c =
     (case attempt_spec http unmarshal force w c of (r, c', w') \<Rightarrow> (r, c', (w', l @ attempt_requests force c c')))"
proof -
  obtain e c1 w1 where a: "authenticate http force w c = (e, c1, w1)" by (metis prod.exhaust)
  obtain w2 x where h: "http w1 (FeedersGet (atcURL c1) (authorization c1)) = (w2, x)" by (metis prod.exhaust)
  show ?thesis
    using authenticate_keeps[OF a] h
    by (simp add: attempt_spec_def authenticate_recorded a recording_apply attempt_requests_def)
qed

lemma attempt_keeps:
  "attempt_spec http unmarshal force w c = (r, c', w') \<Longrightarrow> atcURL c' = atcURL c \<and> credsJson c' = credsJson c"
  by (auto simp: attempt_spec_def Let_def split: prod.splits dest: authenticate_keeps)

section \<open>Properties\<close>

text \<open>
  C30. The retry protocol of \<open>GetFeeders\<close>, with every request it makes: one attempt with the token at
  hand, after a sign-in if there is none; if and only if that is answered 401, a second
  sign-in and one more attempt, with the token it gave; if that is answered 401 as well,
  \<open>ErrRequestFailed\<close>. Every other answer of an attempt is the result, also after a sign-in that failed.
\<close>

theorem GetFeeders_two_attempts:
  "GetFeeders (recording http) unmarshal (w, []) c =
     (case attempt_spec http unmarshal False w c of (r1, c1, w1) \<Rightarrow>
        let first = (if authorization c = [] then [SignIn (atcURL c) (credsJson c)] else []) @
                    [FeedersGet (atcURL c) (authorization c1)]
        in (case r1 of
              Some r \<Rightarrow> (r, c1, (w1, first))
            | None \<Rightarrow>
                (case attempt_spec http unmarshal True w1 c1 of (r2, c2, w2) \<Rightarrow>
                   ((case r2 of Some r \<Rightarrow> r | None \<Rightarrow> (Some [], Some ErrRequestFailed)), c2,
                    (w2, first @ [SignIn (atcURL c) (credsJson c), FeedersGet (atcURL c) (authorization c2)])))))"
proof -
  obtain r1 c1 w1 where a1: "attempt_spec http unmarshal False w c = (r1, c1, w1)" by (metis prod.exhaust)
  obtain r2 c2 w2 where a2: "attempt_spec http unmarshal True w1 c1 = (r2, c2, w2)" by (metis prod.exhaust)
  show ?thesis
    using attempt_keeps[OF a1]
    by (cases r1; cases r2)
       (simp_all add: GetFeeders_def GetFeeders_loop_attempt attempt_recorded a1 a2 attempt_requests_def)
qed

text \<open>
  Whatever the server answers, a call makes at most two requests for the feeders and at
  most two sign-ins, and a call that ends in an error returns the empty feeder list, never
  nil and never a part of the list.
\<close>

theorem GetFeeders_bounded_requests:
  assumes "GetFeeders (recording http) unmarshal (w, []) c = ((f, e), c', (w', l'))"
  shows "feeder_gets l' \<le> 2 \<and> sign_ins l' \<le> 2 \<and> (e \<noteq> None \<longrightarrow> f = Some [])"
proof -
  have loop: "GetFeeders_loop (recording http) unmarshal 0 False (w, []) c = ((f, e), c', (w', l'))"
    using assms by (simp add: GetFeeders_def)
  have "e \<noteq> None \<Longrightarrow> f = Some []"
    using GetFeeders_loop_err[of "recording http" unmarshal 0 False "(w, [])" c f] loop by auto
  with GetFeeders_loop_requests[OF loop] show ?thesis by simp
qed

theorem GetFeeders_bounded_requests_witness:
  "\<exists>l. GetFeeders (recording (\<lambda>w r. (w, HttpResp 401 ''tok'' []))) (\<lambda>_. Inl ErrSyntax) ((), [])
         \<lparr>atcURL = [], credsJson = [], authorization = []\<rparr> =
       ((Some [], Some ErrRequestFailed), \<lparr>atcURL = [], credsJson = [], authorization = []\<rparr>, ((), l)) \<and>
       feeder_gets l \<le> 2 \<and> sign_ins l \<le> 2"
proof -
  let ?l = "[SignIn [] [], FeedersGet [] [], SignIn [] [], FeedersGet [] []]"
  let ?c = "\<lparr>atcURL = [], credsJson = [], authorization = []\<rparr>"
  have run: "GetFeeders (recording (\<lambda>w r. (w, HttpResp 401 ''tok'' []))) (\<lambda>_. Inl ErrSyntax) ((), []) ?c =
      ((Some [], Some ErrRequestFailed), ?c, ((), ?l))"
    by (simp add: GetFeeders_def GetFeeders_loop.simps authenticate_def recording_def)
  show ?thesis
    using run GetFeeders_bounded_requests[OF run] by blast
qed

end
