(* ===== verification/FeederDB.thy ===== *)
theory FeederDB
  imports Atc
begin

text \<open>
  The cache of valid feeders of \<open>lib/feedproxy/feedproxy_metadata.go\<close>: the lookups
  \<open>isValidApiKey\<close> and \<open>getFeederInfo\<close>, the gauge, and the refresh loop \<open>updateFeederDB\<close>,
  one round of which is \<open>updateFeederDB_round\<close>. The feeder list is the state, and a round
  replaces it by what the ATC client returned, on an error as well.
\<close>

text \<open>\<open>feederClient\<close> of \<open>feedproxy_connections.go\<close>, which \<open>getFeederInfo\<close> fills in.\<close>

record feederClient =
  clientApiKey :: uuid
  refLat :: float64
  refLon :: float64
  mux :: string
  label :: string
  feederCode :: string

definition empty_feederClient :: feederClient where
  "empty_feederClient =
     \<lparr>clientApiKey = 0, refLat = 0, refLon = 0, mux = [], label = [], feederCode = []\<rparr>"

fun isValidApiKey :: "atc_feeder list \<Rightarrow> uuid \<Rightarrow> bool" where
  "isValidApiKey [] k = False"
| "isValidApiKey (v # vs) k = (if f_ApiKey v = k then True else isValidApiKey vs k)"

fun getFeederInfo :: "atc_feeder list \<Rightarrow> feederClient \<Rightarrow> error \<times> feederClient" where
  "getFeederInfo [] f = (Some ErrFeederNotFound, f)"
| "getFeederInfo (vf # vfs) f =
     (if f_ApiKey vf = clientApiKey f then
        (None, f\<lparr>refLat := f_Latitude vf, refLon := f_Longitude vf, mux := f_Mux vf,
                 label := f_Label vf, feederCode := f_FeederCode vf\<rparr>)
      else getFeederInfo vfs f)"

definition feedersGaugeFunc :: "atc_feeder list \<Rightarrow> nat" where
  "feedersGaugeFunc fs = length fs"

text \<open>
  One round of the loop of \<open>updateFeederDB\<close>, given what \<open>getDataFromATC\<close> returned: an error is
  logged only, \<open>f.Feeders\<close> of a nil pointer panics, otherwise the list is replaced.
\<close>

definition updateFeederDB_round ::
    "feeders_ptr \<times> error \<Rightarrow> atc_feeder list \<Rightarrow> atc_feeder list go" where
  "updateFeederDB_round r valid =
     (case r of (f, err) \<Rightarrow>
        (case f of None \<Rightarrow> Panic ''nil pointer dereference'' | Some fs \<Rightarrow> Ret fs))"

text \<open>The loop over the rounds until the context is cancelled.\<close>

fun updateFeederDB :: "(feeders_ptr \<times> error) list \<Rightarrow> atc_feeder list \<Rightarrow> atc_feeder list go" where
  "updateFeederDB [] valid = Ret valid"
| "updateFeederDB (r # rs) valid = go_bind (updateFeederDB_round r valid) (updateFeederDB rs)"

text \<open>
  A round together with the ATC client that answers it: \<open>getDataFromATC\<close>, then the replacement. The
  client keeps its token from one round to the next.
\<close>

definition getDataFromATC ::
    "('w \<Rightarrow> http_request \<Rightarrow> 'w \<times> http_result) \<Rightarrow> (string \<Rightarrow> go_err + feeders_ptr) \<Rightarrow>
     'w \<Rightarrow> atc_client \<Rightarrow> (feeders_ptr \<times> error) \<times> atc_client \<times> 'w" where
  "getDataFromATC http unmarshal w atcClient = GetFeeders http unmarshal w atcClient"

definition refresh_round ::
    "('w \<Rightarrow> http_request \<Rightarrow> 'w \<times> http_result) \<Rightarrow> (string \<Rightarrow> go_err + feeders_ptr) \<Rightarrow>
     'w \<times> atc_client \<times> atc_feeder list \<Rightarrow> ('w \<times> atc_client \<times> atc_feeder list) go" where
  "refresh_round http unmarshal s =
     (case s of (w, atcClient, valid) \<Rightarrow>
        (case getDataFromATC http unmarshal w atcClient of
           (r, atcClient', w') \<Rightarrow> go_bind (updateFeederDB_round r valid) (\<lambda>valid'. Ret (w', atcClient', valid'))))"

section \<open>The directory interface\<close>

text \<open>
  What the proxy relies on when it authenticates a client: the membership test and the
  lookup agree, and the lookup returns the entry of the key it was given.
\<close>

locale feeder_directory =
  fixes valid :: "'d \<Rightarrow> uuid \<Rightarrow> bool"
    and info :: "'d \<Rightarrow> feederClient \<Rightarrow> error \<times> feederClient"
  assumes info_iff_valid: "fst (info d f) = None \<longleftrightarrow> valid d (clientApiKey f)"
    and info_keeps_key: "clientApiKey (snd (info d f)) = clientApiKey f"
    and info_err: "fst (info d f) \<noteq> None \<Longrightarrow> info d f = (Some ErrFeederNotFound, f)"
begin

text \<open>A membership test followed by a lookup in the same directory never fails.\<close>

lemma valid_then_info: "valid d (clientApiKey f) \<Longrightarrow> \<exists>f'. info d f = (None, f') \<and> clientApiKey f' = clientApiKey f"
  using info_iff_valid[of d f] info_keeps_key[of d f] by (cases "info d f") auto

lemma invalid_then_no_info: "\<not> valid d (clientApiKey f) \<Longrightarrow> info d f = (Some ErrFeederNotFound, f)"
  using info_iff_valid[of d f] info_err[of d f] by auto

end

lemma isValidApiKey_iff: "isValidApiKey fs k \<longleftrightarrow> k \<in> f_ApiKey ` set fs"
  by (induction fs) auto

lemma getFeederInfo_find:
  "getFeederInfo fs f =
     (case find (\<lambda>v. f_ApiKey v = clientApiKey f) fs of
        None \<Rightarrow> (Some ErrFeederNotFound, f)
      | Some v \<Rightarrow> (None, f\<lparr>refLat := f_Latitude v, refLon := f_Longitude v, mux := f_Mux v,
                          label := f_Label v, feederCode := f_FeederCode v\<rparr>))"
  by (induction fs) auto

lemma getFeederInfo_None_iff: "fst (getFeederInfo fs f) = None \<longleftrightarrow> isValidApiKey fs (clientApiKey f)"
  by (induction fs) auto

interpretation feeders: feeder_directory isValidApiKey getFeederInfo
proof unfold_locales
  fix d f
  show "fst (getFeederInfo d f) = None \<longleftrightarrow> isValidApiKey d (clientApiKey f)"
    by (rule getFeederInfo_None_iff)
  show "clientApiKey (snd (getFeederInfo d f)) = clientApiKey f"
    by (induction d) auto
  show "fst (getFeederInfo d f) \<noteq> None \<Longrightarrow> getFeederInfo d f = (Some ErrFeederNotFound, f)"
    by (induction d) (auto split: if_splits)
qed

section \<open>Properties\<close>

text \<open>
  The two lookups of the feeder cache agree: \<open>getFeederInfo\<close> succeeds exactly on the
  valid API keys, it leaves the key alone, it copies position, mux, label and code from the
  first entry with that key, and where it fails it changes nothing.
\<close>

theorem getFeederInfo_correct:
  "(case getFeederInfo fs f of (e, f') \<Rightarrow>
      clientApiKey f' = clientApiKey f \<and>
      (if isValidApiKey fs (clientApiKey f)
       then e = None \<and>
            (\<exists>pre v post. fs = pre @ v # post \<and> f_ApiKey v = clientApiKey f \<and>
               \<not> isValidApiKey pre (clientApiKey f) \<and>
               f' = \<lparr>clientApiKey = f_ApiKey v, refLat = f_Latitude v, refLon = f_Longitude v,
                     mux = f_Mux v, label = f_Label v, feederCode = f_FeederCode v\<rparr>)
       else e = Some ErrFeederNotFound \<and> f' = f))"
proof (cases "isValidApiKey fs (clientApiKey f)")
  case True
  then have "\<exists>v\<in>set fs. f_ApiKey v = clientApiKey f" by (auto simp: isValidApiKey_iff)
  from split_list_first_prop[OF this] obtain pre v post where v: "fs = pre @ v # post"
      "f_ApiKey v = clientApiKey f" "\<forall>u\<in>set pre. f_ApiKey u \<noteq> clientApiKey f"
    by blast
  have "find (\<lambda>v. f_ApiKey v = clientApiKey f) fs = Some v"
    unfolding v(1) using v(2,3) by (induction pre) auto
  then have g: "getFeederInfo fs f = (None, f\<lparr>refLat := f_Latitude v, refLon := f_Longitude v,
      mux := f_Mux v, label := f_Label v, feederCode := f_FeederCode v\<rparr>)" (is "_ = (None, ?f')")
    by (simp add: getFeederInfo_find)
  have "\<not> isValidApiKey pre (clientApiKey f)"
    using v(3) by (auto simp: isValidApiKey_iff)
  moreover have "?f' = \<lparr>clientApiKey = f_ApiKey v, refLat = f_Latitude v, refLon = f_Longitude v,
      mux = f_Mux v, label = f_Label v, feederCode = f_FeederCode v\<rparr>"
    using v(2) by (cases f) simp
  ultimately have "\<exists>pre v post. fs = pre @ v # post \<and> f_ApiKey v = clientApiKey f \<and>
      \<not> isValidApiKey pre (clientApiKey f) \<and>
      ?f' = \<lparr>clientApiKey = f_ApiKey v, refLat = f_Latitude v, refLon = f_Longitude v,
            mux = f_Mux v, label = f_Label v, feederCode = f_FeederCode v\<rparr>"
    using v(1,2) by blast
  moreover have "clientApiKey ?f' = clientApiKey f" by simp
  ultimately show ?thesis
    using True by (simp only: g prod.case if_True simp_thms)
next
  case False
  then show ?thesis by (simp add: feeders.invalid_then_no_info)
qed

text \<open>
  A failed refresh empties the cache: when the ATC client returns an error, the next
  round replaces the valid feeders by the empty list, whatever it held.
\<close>

theorem failed_refresh_empties_cache:
  assumes "GetFeeders http unmarshal w c = ((f, Some e), c', w')"
  shows "updateFeederDB_round (f, Some e) valid = Ret [] \<and>
         (\<forall>k. \<not> isValidApiKey [] k) \<and> feedersGaugeFunc [] = 0"
proof -
  have "f = Some []"
    using GetFeeders_loop_err[of http unmarshal 0 False w c f e] assms by (simp add: GetFeeders_def)
  then show ?thesis by (simp add: updateFeederDB_round_def feedersGaugeFunc_def)
qed

text \<open>What ATC answers to the request for the feeders that counts: the second one if the first is answered 401.\<close>

definition ask_feeders ::
    "('w \<Rightarrow> http_request \<Rightarrow> 'w \<times> http_result) \<Rightarrow> bool \<Rightarrow> 'w \<Rightarrow> atc_client \<Rightarrow> http_result \<times> atc_client \<times> 'w" where
  "ask_feeders http force w c =
     (case authenticate http force w c of
        (_, c', w') \<Rightarrow> (case http w' (FeedersGet (atcURL c') (authorization c')) of (w'', x) \<Rightarrow> (x, c', w'')))"

definition last_answer :: "('w \<Rightarrow> http_request \<Rightarrow> 'w \<times> http_result) \<Rightarrow> 'w \<Rightarrow> atc_client \<Rightarrow> http_result" where
  "last_answer http w c =
     (case ask_feeders http False w c of
        (HttpResp status header body, c', w') \<Rightarrow>
          if status = 401 then fst (ask_feeders http True w' c') else HttpResp status header body
      | (x, c', w') \<Rightarrow> x)"

definition answer_result :: "(string \<Rightarrow> go_err + feeders_ptr) \<Rightarrow> http_result \<Rightarrow> feeders_ptr" where
  "answer_result unmarshal x =
     (case x of
        HttpErr m \<Rightarrow> Some []
      | HttpResp status header body \<Rightarrow>
          if status = 200 then (case unmarshal body of Inl e \<Rightarrow> Some [] | Inr f \<Rightarrow> f) else Some [])"

lemma GetFeeders_answer: "fst (fst (GetFeeders http unmarshal w c)) = answer_result unmarshal (last_answer http w c)"
  by (simp add: GetFeeders_def GetFeeders_loop_attempt attempt_spec_def last_answer_def ask_feeders_def answer_result_def
      split: prod.splits http_result.splits sum.splits)

definition got_feeders :: "(string \<Rightarrow> go_err + feeders_ptr) \<Rightarrow> http_result \<Rightarrow> feeders_ptr \<Rightarrow> bool" where
  "got_feeders unmarshal x f \<longleftrightarrow> (\<exists>header body. x = HttpResp 200 header body \<and> unmarshal body = Inr f)"

lemma answer_result_cases:
  "answer_result unmarshal x = None \<longleftrightarrow> got_feeders unmarshal x None"
  "answer_result unmarshal x = Some fs \<Longrightarrow> got_feeders unmarshal x (Some fs) \<or> fs = [] \<and> (\<forall>f. \<not> got_feeders unmarshal x (Some f))"
  by (cases x; auto simp: answer_result_def got_feeders_def split: sum.splits if_splits)+

lemma got_feeders_unique: "got_feeders unmarshal x f \<Longrightarrow> got_feeders unmarshal x f' \<Longrightarrow> f = f'"
  by (auto simp: got_feeders_def)

text \<open>
  C28. A refresh forgets what the cache held: afterwards an API key is valid exactly if the
  last answer of ATC (the second one if the first was 401) has status 200 and a list of
  feeders with that key. After every other answer (an error of the network, another status, a body that does not
  parse, two refusals) no key is valid. The body \<open>null\<close> ends the program with a panic, and nothing else does.
\<close>
theorem feeder_refresh_outcome:
  "case refresh_round http unmarshal (w, c, valid) of
     Panic m \<Rightarrow> got_feeders unmarshal (last_answer http w c) None
   | Ret (w', c', valid') \<Rightarrow>
       \<not> got_feeders unmarshal (last_answer http w c) None \<and>
       (\<forall>k. isValidApiKey valid' k \<longleftrightarrow>
          (\<exists>fs. got_feeders unmarshal (last_answer http w c) (Some fs) \<and> k \<in> f_ApiKey ` set fs))"
proof -
  let ?x = "last_answer http w c"
  obtain f e c' w' where g: "GetFeeders http unmarshal w c = ((f, e), c', w')" by (metis prod.exhaust)
  then have f: "answer_result unmarshal ?x = f" using GetFeeders_answer[of http unmarshal w c] by simp
  show ?thesis
  proof (cases f)
    case None
    with f have "got_feeders unmarshal ?x None" by (simp add: answer_result_cases(1))
    with None show ?thesis by (simp add: refresh_round_def getDataFromATC_def updateFeederDB_round_def g)
  next
    case (Some fs)
    then have r: "refresh_round http unmarshal (w, c, valid) = Ret (w', c', fs)"
      by (simp add: refresh_round_def getDataFromATC_def updateFeederDB_round_def g)
    have "\<not> got_feeders unmarshal ?x None" using f Some answer_result_cases(1)[of unmarshal ?x] by simp
    moreover have "k \<in> f_ApiKey ` set fs \<longleftrightarrow> (\<exists>fs. got_feeders unmarshal ?x (Some fs) \<and> k \<in> f_ApiKey ` set fs)" for k
      using answer_result_cases(2)[OF f[unfolded Some]] got_feeders_unique[of unmarshal ?x "Some fs"] by auto
    ultimately show ?thesis by (simp add: r isValidApiKey_iff)
  qed
qed

text \<open>One feeder in the cache, and a server that is down.\<close>

theorem feeder_refresh_outcome_witness:
  "refresh_round (\<lambda>w r. (w, HttpErr ''connection refused'')) (\<lambda>_. Inl ErrSyntax)
     ((), \<lparr>atcURL = [], credsJson = [], authorization = []\<rparr>,
      [\<lparr>f_Altitude = 0, f_ApiKey = 5, f_FeederCode = [], f_FeedDirection = [], f_FeedProtocol = [],
        f_ID = 1, f_Label = [], f_Latitude = 0, f_Longitude = 0, f_MlatEnabled = True, f_Mux = [],
        f_User = []\<rparr>]) =
   Ret ((), \<lparr>atcURL = [], credsJson = [], authorization = []\<rparr>, [])"
  (is "refresh_round ?http ?um ((), ?c, ?v) = _")
proof -
  have "last_answer ?http () ?c = HttpErr ''connection refused''"
    by (simp add: last_answer_def ask_feeders_def authenticate_def)
  then have no: "\<not> got_feeders ?um (last_answer ?http () ?c) f" for f by (simp add: got_feeders_def)
  obtain v where v: "refresh_round ?http ?um ((), ?c, ?v) = Ret ((), ?c, v)"
    by (simp add: refresh_round_def getDataFromATC_def GetFeeders_def GetFeeders_loop.simps authenticate_def
        updateFeederDB_round_def)
  have "\<not> isValidApiKey v k" for k
    using feeder_refresh_outcome[where http = ?http and unmarshal = ?um and w = "()" and c = ?c and valid = ?v] v no by simp
  then have "v = []" by (cases v) (auto simp: isValidApiKey_iff)
  with v show ?thesis by simp
qed

end
