(* ===== verification/Feedprotocol.thy ===== *)
theory Feedprotocol
  imports GoText
begin

text \<open>
  \<open>lib/feedprotocol/feedprotocol.go\<close>: the feed protocols, a \<open>uint8\<close> of which \<open>1\<close> is
  BEAST and \<open>2\<close> is MLAT, their names, and their JSON form. \<open>Name\<close> panics on every other
  value; the lemmas say exactly when it does, so that the packages that call it can show
  that they never pass such a value.
\<close>

type_synonym protocol = u8

definition BEAST :: protocol where
  "BEAST = 1"

definition MLAT :: protocol where
  "MLAT = 2"

definition ProtocolNameBEAST :: string where
  "ProtocolNameBEAST = ''BEAST''"

definition ProtocolNameMLAT :: string where
  "ProtocolNameMLAT = ''MLAT''"

lemma protos_distinct [simp]:
  "BEAST \<noteq> MLAT" "MLAT \<noteq> BEAST" "BEAST \<noteq> 0" "MLAT \<noteq> 0" "0 \<noteq> BEAST" "0 \<noteq> MLAT"
  by (simp_all add: BEAST_def MLAT_def)

definition GetName :: "protocol \<Rightarrow> go_err + string" where
  "GetName p =
     (if p = BEAST then Inr ProtocolNameBEAST
      else if p = MLAT then Inr ProtocolNameMLAT
      else Inl (ErrUnknownProtocol (go_itoa (uint p))))"

definition IsValid :: "protocol \<Rightarrow> bool" where
  "IsValid p = (if p = BEAST then True else if p = MLAT then True else False)"

definition Name :: "protocol \<Rightarrow> string go" where
  "Name p = (case GetName p of Inl e \<Rightarrow> Panic ''unknown protocol'' | Inr n \<Rightarrow> Ret n)"

text \<open>The value is returned next to the error, as \<open>UnmarshalJSON\<close> stores it either way.\<close>

definition GetProtoFromName :: "string \<Rightarrow> protocol \<times> error" where
  "GetProtoFromName name =
     (if to_upper name = ProtocolNameBEAST then (BEAST, None)
      else if to_upper name = ProtocolNameMLAT then (MLAT, None)
      else (0, Some (ErrUnknownProtocol name)))"

definition MarshalJSON :: "protocol \<Rightarrow> string go" where
  "MarshalJSON p = go_bind (Name p) (\<lambda>n. Ret (json_quote n))"

definition MarshalText :: "protocol \<Rightarrow> string go" where
  "MarshalText p = Name p"

definition UnmarshalJSON :: "protocol \<Rightarrow> string \<Rightarrow> protocol \<times> error" where
  "UnmarshalJSON p data =
     (case json_unmarshal_string data of
        Inl e \<Rightarrow> (p, Some e)
      | Inr str \<Rightarrow> GetProtoFromName str)"

section \<open>Lemmas\<close>

lemma IsValid_iff [simp]: "IsValid p \<longleftrightarrow> p = BEAST \<or> p = MLAT"
  by (simp add: IsValid_def)

lemma GetName_simps [simp]:
  "GetName BEAST = Inr ''BEAST''" "GetName MLAT = Inr ''MLAT''"
  by (simp_all add: GetName_def ProtocolNameBEAST_def ProtocolNameMLAT_def)

lemma GetName_Inr_iff: "(\<exists>n. GetName p = Inr n) \<longleftrightarrow> IsValid p"
  by (simp add: GetName_def)

lemma GetName_invalid: "\<not> IsValid p \<Longrightarrow> GetName p = Inl (ErrUnknownProtocol (go_itoa (uint p)))"
  by (simp add: GetName_def)

lemma Name_simps [simp]: "Name BEAST = Ret ''BEAST''" "Name MLAT = Ret ''MLAT''"
  by (simp_all add: Name_def)

lemma returns_Name [simp]: "returns (Name p) \<longleftrightarrow> IsValid p"
  by (auto simp: Name_def GetName_def)

lemma GetProtoFromName_valid:
  "snd (GetProtoFromName name) = None \<longleftrightarrow> IsValid (fst (GetProtoFromName name))"
  by (simp add: GetProtoFromName_def)

lemma names_plain: "list_all json_plain ''BEAST''" "list_all json_plain ''MLAT''"
  by (simp_all add: json_plain_def)

lemma to_upper_names: "to_upper ''BEAST'' = ''BEAST''" "to_upper ''MLAT'' = ''MLAT''"
  by (simp_all add: upper_byte_def)

lemma GetProtoFromName_names [simp]:
  "GetProtoFromName ''BEAST'' = (BEAST, None)" "GetProtoFromName ''MLAT'' = (MLAT, None)"
  by (simp_all add: GetProtoFromName_def ProtocolNameBEAST_def ProtocolNameMLAT_def
      to_upper_names del: to_upper.simps)

section \<open>Properties\<close>

text \<open>
  C40. A protocol survives its JSON form, and everything else is refused. Marshalling gives
  the quoted name of each of the two protocols and panics on every other value. What
  unmarshalling accepts is exactly a JSON string (\<open>null\<close> counts as the empty one) that is
  BEAST or MLAT in some case; it is then that protocol, whatever the receiver held before, so
  what marshalling gave is read back. Other data is an error: the receiver keeps its value if
  the data is not a JSON string and becomes the invalid protocol 0 if the string is no name.
\<close>

theorem json_protocol_roundtrip:
  "(p = BEAST \<longrightarrow> MarshalJSON p = Ret (json_quote ''BEAST'')) \<and>
   (p = MLAT \<longrightarrow> MarshalJSON p = Ret (json_quote ''MLAT'')) \<and>
   (p \<noteq> BEAST \<and> p \<noteq> MLAT \<longrightarrow> (\<exists>m. MarshalJSON p = Panic m)) \<and>
   (\<forall>d. MarshalJSON p = Ret d \<longrightarrow> UnmarshalJSON q d = (p, None)) \<and>
   (UnmarshalJSON q data = (r, None) \<longleftrightarrow>
      (\<exists>str. json_unmarshal_string data = Inr str \<and>
         (to_upper str = ''BEAST'' \<and> r = BEAST \<or> to_upper str = ''MLAT'' \<and> r = MLAT))) \<and>
   (UnmarshalJSON q data = (r, Some e) \<longleftrightarrow>
      json_unmarshal_string data = Inl e \<and> r = q \<or>
      (\<exists>str. json_unmarshal_string data = Inr str \<and> to_upper str \<noteq> ''BEAST'' \<and> to_upper str \<noteq> ''MLAT'' \<and>
         r = 0 \<and> e = ErrUnknownProtocol str))"
proof -
  have "\<forall>d. MarshalJSON p = Ret d \<longrightarrow> UnmarshalJSON q d = (p, None)"
    using names_plain
    by (auto simp: MarshalJSON_def UnmarshalJSON_def Name_def GetName_def ProtocolNameBEAST_def
        ProtocolNameMLAT_def json_roundtrip split: if_splits)
  moreover have "p \<noteq> BEAST \<and> p \<noteq> MLAT \<longrightarrow> (\<exists>m. MarshalJSON p = Panic m)"
    by (auto simp: MarshalJSON_def Name_def GetName_def)
  moreover have "UnmarshalJSON q data = (r, None) \<longleftrightarrow>
      (\<exists>str. json_unmarshal_string data = Inr str \<and>
         (to_upper str = ''BEAST'' \<and> r = BEAST \<or> to_upper str = ''MLAT'' \<and> r = MLAT))"
    by (auto simp: UnmarshalJSON_def GetProtoFromName_def ProtocolNameBEAST_def ProtocolNameMLAT_def
        split: sum.split)
  moreover have "UnmarshalJSON q data = (r, Some e) \<longleftrightarrow>
      json_unmarshal_string data = Inl e \<and> r = q \<or>
      (\<exists>str. json_unmarshal_string data = Inr str \<and> to_upper str \<noteq> ''BEAST'' \<and> to_upper str \<noteq> ''MLAT'' \<and>
         r = 0 \<and> e = ErrUnknownProtocol str)"
    by (auto simp: UnmarshalJSON_def GetProtoFromName_def ProtocolNameBEAST_def ProtocolNameMLAT_def
        split: sum.split)
  ultimately show ?thesis by (auto simp: MarshalJSON_def)
qed

theorem json_protocol_roundtrip_witness:
  "UnmarshalJSON 7 (json_quote ''MLAT'') = (MLAT, None) \<and>
   UnmarshalJSON 7 (json_quote ''mlat'') = (MLAT, None) \<and>
   UnmarshalJSON 7 (json_quote ''ADSB'') = (0, Some (ErrUnknownProtocol ''ADSB'')) \<and>
   (\<exists>m. MarshalJSON 0 = Panic m)"
proof -
  have u: "json_unmarshal_string (json_quote ''mlat'') = Inr ''mlat''" "to_upper ''mlat'' = ''MLAT''"
    "json_unmarshal_string (json_quote ''ADSB'') = Inr ''ADSB''" "to_upper ''ADSB'' = ''ADSB''"
    by code_simp+
  show ?thesis
    using json_protocol_roundtrip[of MLAT 7 "json_quote ''mlat''" MLAT "ErrSyntax"]
      json_protocol_roundtrip[of 0 7 "json_quote ''ADSB''" 0 "ErrUnknownProtocol ''ADSB''"] u
    by auto
qed

text \<open>
  Names and values agree: exactly the valid protocols have a name (on all others
  \<open>GetName\<close> is an error and \<open>Name\<close>, \<open>MarshalJSON\<close> and \<open>MarshalText\<close> panic), a name that
  \<open>GetName\<close> gives is read back by \<open>GetProtoFromName\<close>, and whatever text is accepted
  denotes a valid protocol whose name is that text in upper case.
\<close>

theorem protocol_names_agree:
  "(IsValid p \<longleftrightarrow> (\<exists>n. GetName p = Inr n)) \<and>
   (IsValid p \<longleftrightarrow> returns (Name p)) \<and>
   (returns (MarshalJSON p) \<longleftrightarrow> IsValid p) \<and> (returns (MarshalText p) \<longleftrightarrow> IsValid p) \<and>
   (GetName p = Inr n \<longrightarrow> GetProtoFromName n = (p, None)) \<and>
   (GetProtoFromName s = (p, None) \<longrightarrow> IsValid p \<and> GetName p = Inr (to_upper s))"
proof -
  have "returns (MarshalJSON p) \<longleftrightarrow> IsValid p"
    by (auto simp: MarshalJSON_def Name_def GetName_def)
  moreover have "GetName p = Inr n \<longrightarrow> GetProtoFromName n = (p, None)"
    by (auto simp: GetName_def ProtocolNameBEAST_def ProtocolNameMLAT_def split: if_splits)
  moreover have "GetProtoFromName s = (p, None) \<longrightarrow> IsValid p \<and> GetName p = Inr (to_upper s)"
    by (auto simp: GetProtoFromName_def GetName_def)
  ultimately show ?thesis
    by (simp add: GetName_Inr_iff MarshalText_def del: IsValid_iff)
qed

theorem protocol_names_agree_witness:
  "GetName BEAST = Inr ''BEAST'' \<and> GetProtoFromName ''BEAST'' = (BEAST, None)"
  using protocol_names_agree[of BEAST "''BEAST''" "''BEAST''"] by simp

end
