(* ===== verification/GoNet.thy ===== *)
theory GoNet
  imports GoText
begin

text \<open>
  The parts of Go's \<open>net\<close> package the source addresses computations go through:
  \<open>net.IP\<close> as a byte slice (\<open>[]\<close> is \<open>nil\<close>), \<open>IP.Equal\<close>, \<open>IP.To4\<close>, and
  \<open>net.ParseIP\<close> on text without a colon, which is all the callers pass (they cut the
  text at the first colon).
\<close>

type_synonym ip = "u8 list"

abbreviation (input) nil_ip :: ip where
  "nil_ip \<equiv> []"

definition v4_in_v6_prefix :: "u8 list" where
  "v4_in_v6_prefix = [0, 0, 0, 0, 0, 0, 0, 0, 0, 0, 255, 255]"

definition IPv4 :: "u8 \<Rightarrow> u8 \<Rightarrow> u8 \<Rightarrow> u8 \<Rightarrow> ip" where
  "IPv4 a b c d = v4_in_v6_prefix @ [a, b, c, d]"

definition to4 :: "ip \<Rightarrow> ip option" where
  "to4 i = (if length i = 4 then Some i
            else if length i = 16 \<and> take 12 i = v4_in_v6_prefix then Some (drop 12 i)
            else None)"

definition ip_equal :: "ip \<Rightarrow> ip \<Rightarrow> bool" where
  "ip_equal i x =
     (if length i = length x then i = x
      else if length i = 4 \<and> length x = 16 then take 12 x = v4_in_v6_prefix \<and> i = drop 12 x
      else if length i = 16 \<and> length x = 4 then take 12 i = v4_in_v6_prefix \<and> drop 12 i = x
      else False)"

text \<open>One octet: digits, no leading zero, at most 255.\<close>

definition parse_octet :: "string \<Rightarrow> u8 option" where
  "parse_octet s =
     (if s = [] \<or> \<not> list_all is_digit s \<or> (1 < length s \<and> take 1 s = ''0'') \<or> 255 < digits_val s
      then None else Some (word_of_nat (digits_val s)))"

definition parse_ip_no_colon :: "string \<Rightarrow> ip" where
  "parse_ip_no_colon s =
     (case map parse_octet (go_split (CHR ''.'') s) of
        [Some a, Some b, Some c, Some d] \<Rightarrow> IPv4 a b c d
      | _ \<Rightarrow> nil_ip)"

text \<open>\<open>net.ParseIP(strings.Split(addr, ":")[0])\<close>; a split has at least one part.\<close>

definition host_ip :: "string \<Rightarrow> ip" where
  "host_ip addr = parse_ip_no_colon (hd (go_split (CHR '':'') addr))"

lemma ip_equal_refl [simp]: "ip_equal i i"
  by (simp add: ip_equal_def)

lemma ip_equal_sym: "ip_equal i x \<longleftrightarrow> ip_equal x i"
  by (auto simp: ip_equal_def)

lemma length_v4_prefix [simp]: "length v4_in_v6_prefix = 12"
  by (simp add: v4_in_v6_prefix_def)

text \<open>\<open>IP.Equal\<close> is the equality of the addresses once the IPv4-in-IPv6 form is undone.\<close>

definition canon_ip :: "ip \<Rightarrow> ip" where
  "canon_ip i = (if length i = 16 \<and> take 12 i = v4_in_v6_prefix then drop 12 i else i)"

lemma ip_equal_canon: "ip_equal i x \<longleftrightarrow> canon_ip i = canon_ip x"
proof -
  have "take 12 i = take 12 x \<Longrightarrow> drop 12 i = drop 12 x \<Longrightarrow> i = x"
    by (metis append_take_drop_id)
  then show ?thesis
    by (auto simp: ip_equal_def canon_ip_def split: if_splits)
qed

lemma ip_equal_trans: "ip_equal i x \<Longrightarrow> ip_equal x y \<Longrightarrow> ip_equal i y"
  by (simp add: ip_equal_canon)

lemma ip_equal_to4:
  "to4 i = Some a \<Longrightarrow> to4 x = Some b \<Longrightarrow> ip_equal i x \<longleftrightarrow> a = b"
  by (auto simp: to4_def ip_equal_canon canon_ip_def split: if_splits)

lemma ip_equal_nil [simp]: "ip_equal i [] \<longleftrightarrow> i = []" "ip_equal [] i \<longleftrightarrow> i = []"
  by (auto simp: ip_equal_def)

lemma itoa_nat_leading_zero: "take 1 (itoa_nat n) = ''0'' \<Longrightarrow> n = 0"
proof (induction n rule: itoa_nat.induct)
  case (1 n)
  show ?case
  proof (cases "n < 10")
    case True
    with "1.prems" have "digit n = CHR ''0''" by (simp add: itoa_nat.simps)
    then have "(of_char (digit n) :: nat) = 48" by simp
    with True show ?thesis by simp
  next
    case False
    with "1.prems" have "take 1 (itoa_nat (n div 10)) = ''0''"
      using itoa_nat_digits[of "n div 10"]
      by (cases "itoa_nat (n div 10)") (simp_all add: itoa_nat.simps[of n])
    with "1.IH" False have "n div 10 = 0" by blast
    with False show ?thesis by simp
  qed
qed

lemma parse_octet_itoa: "n < 256 \<Longrightarrow> parse_octet (itoa_nat n) = Some (word_of_nat n)"
  using itoa_nat_digits[of n] itoa_nat_leading_zero[of n]
  by (auto simp: parse_octet_def itoa_nat.simps[of 0])

lemma colon_host_cut: "CHR '':'' \<notin> set a \<Longrightarrow> host_ip (a @ '':'' @ b) = parse_ip_no_colon a"
  by (simp add: host_ip_def go_split_append)

text \<open>The text of a remote IPv6 address starts with a bracket: no address is parsed from it.\<close>

lemma bracket_host_nil: "host_ip (CHR ''['' # s) = nil_ip"
proof -
  obtain w ws where w: "go_split (CHR '':'') s = w # ws"
    by (cases "go_split (CHR '':'') s") auto
  obtain v vs where v: "go_split (CHR ''.'') w = v # vs"
    by (cases "go_split (CHR ''.'') w") auto
  have "parse_octet (CHR ''['' # v) = None"
    by (simp add: parse_octet_def is_digit_def)
  then show ?thesis
    by (simp add: host_ip_def w parse_ip_no_colon_def v)
qed

end
