(* ===== verification/Stats.thy ===== *)
theory Stats
  imports Feedprotocol GoNet
begin

text \<open>
  The statistics store of \<open>lib/stats/stats.go\<close>: per feeder, per protocol and per
  connection data, the global byte counters, and the operations that change them.

  A Go map inside a struct is a reference. Every connection map and every detail map is
  made by \<open>initFeederStats\<close> for one feeder and is never stored anywhere else, so the copies
  the operations take (\<open>y := stats.Feeders[uuid]\<close>) share it with the stored struct only; a
  write through a copy is a write to the stored map, and the model writes it there. A map
  field may be nil (\<open>None\<close>): reading it finds nothing, writing to it panics.

  The Prometheus vectors belong to another package; the calls made to them are recorded in
  order. In the labels the feeder is kept as its UUID and the connection as its number.
\<close>

record ConnectionDetail =
  cd_Src :: string
  cd_Dst :: string
  cd_TimeConnected :: time
  cd_BytesIn :: u64
  cd_BytesOut :: u64

record ProtocolDetail =
  pd_Status :: bool
  pd_ConnectionCount :: int
  pd_MostRecentConnection :: time
  pd_ConnectionDetails :: "(u64, ConnectionDetail) gomap option"

record FeederStats =
  fs_Label :: string
  fs_Code :: string
  fs_Connections :: "(protocol, ProtocolDetail) gomap option"
  fs_TimeUpdated :: time

record Statistics =
  Feeders :: "(uuid, FeederStats) gomap"
  BytesInBEAST :: u64
  BytesOutBEAST :: u64
  BytesInMLAT :: u64
  BytesOutMLAT :: u64

record prom_labels =
  pl_protocol :: string
  pl_uuid :: uuid
  pl_connnum :: u64
  pl_feeder_code :: string

datatype prom_call =
    AddIn prom_labels u64 | AddOut prom_labels u64
  | DeleteIn prom_labels | DeleteOut prom_labels

text \<open>The package's variables: the flag, the store, and the calls made to the vectors.\<close>

record stats_state =
  st_initialised :: bool
  stats :: Statistics
  prom_log :: "prom_call list"

record FeederDetails =
  fd_Label :: string
  fd_FeederCode :: string
  fd_ApiKey :: uuid

text \<open>\<open>Connection\<close>; the two addresses are their text and are not nil.\<close>

record Connection =
  cn_ApiKey :: uuid
  cn_SrcAddr :: string
  cn_DstAddr :: string
  cn_Proto :: protocol
  cn_FeederCode :: string
  cn_ConnNum :: u64

section \<open>Reading and writing the nested maps\<close>

definition zero_ProtocolDetail :: ProtocolDetail where
  "zero_ProtocolDetail =
     \<lparr>pd_Status = False, pd_ConnectionCount = 0, pd_MostRecentConnection = 0,
      pd_ConnectionDetails = None\<rparr>"

definition zero_FeederStats :: FeederStats where
  "zero_FeederStats = \<lparr>fs_Label = [], fs_Code = [], fs_Connections = None, fs_TimeUpdated = 0\<rparr>"

text \<open>A lookup in a map that may be nil.\<close>

definition nil_get :: "('k, 'v) gomap option \<Rightarrow> 'k \<Rightarrow> 'v option" where
  "nil_get m k = (case m of None \<Rightarrow> None | Some mm \<Rightarrow> gm_get mm k)"

definition get_or :: "'v \<Rightarrow> 'v option \<Rightarrow> 'v" where
  "get_or z r = (case r of None \<Rightarrow> z | Some v \<Rightarrow> v)"

text \<open>\<open>stats.Feeders[k]\<close> and \<open>stats.Feeders[k].Connections[p]\<close>, zero values where absent.\<close>

definition get_feeder :: "Statistics \<Rightarrow> uuid \<Rightarrow> FeederStats" where
  "get_feeder s k = get_or zero_FeederStats (gm_get (Feeders s) k)"

definition get_pd :: "FeederStats \<Rightarrow> protocol \<Rightarrow> ProtocolDetail" where
  "get_pd f p = get_or zero_ProtocolDetail (nil_get (fs_Connections f) p)"

definition put_feeder :: "uuid \<Rightarrow> FeederStats \<Rightarrow> Statistics \<Rightarrow> Statistics" where
  "put_feeder k f s = s\<lparr>Feeders := gm_put k f (Feeders s)\<rparr>"

text \<open>\<open>stats.Feeders[k].Connections[p] = pd\<close>.\<close>

definition set_pd :: "uuid \<Rightarrow> protocol \<Rightarrow> ProtocolDetail \<Rightarrow> Statistics \<Rightarrow> Statistics go" where
  "set_pd k p pd s =
     (case fs_Connections (get_feeder s k) of
        None \<Rightarrow> Panic ''assignment to entry in nil map''
      | Some m \<Rightarrow>
          Ret (put_feeder k ((get_feeder s k)\<lparr>fs_Connections := Some (gm_put p pd m)\<rparr>) s))"

text \<open>
  \<open>stats.Feeders[k].Connections[p].ConnectionDetails[n] = c\<close>. The detail map is not nil only
  when the feeder and the protocol are present, and then it is the stored map.
\<close>

definition set_detail ::
    "uuid \<Rightarrow> protocol \<Rightarrow> u64 \<Rightarrow> ConnectionDetail \<Rightarrow> Statistics \<Rightarrow> Statistics go" where
  "set_detail k p n c s =
     (let pd = get_pd (get_feeder s k) p in
      case pd_ConnectionDetails pd of
        None \<Rightarrow> Panic ''assignment to entry in nil map''
      | Some dm \<Rightarrow> set_pd k p (pd\<lparr>pd_ConnectionDetails := Some (gm_put n c dm)\<rparr>) s)"

text \<open>\<open>len\<close> of a detail map that may be nil, and \<open>delete\<close> from it.\<close>

definition nil_len :: "('k, 'v) gomap option \<Rightarrow> nat" where
  "nil_len m = (case m of None \<Rightarrow> 0 | Some mm \<Rightarrow> gm_len mm)"

section \<open>The operations\<close>

definition GetNumConnections :: "uuid \<Rightarrow> protocol \<Rightarrow> stats_state \<Rightarrow> int \<times> error" where
  "GetNumConnections apikey proto st =
     (if \<not> st_initialised st then (0, Some ErrStatsNotInitialised)
      else (pd_ConnectionCount (get_pd (get_feeder (stats st) apikey) proto), None))"

definition add_global :: "protocol \<Rightarrow> u64 \<Rightarrow> u64 \<Rightarrow> Statistics \<Rightarrow> Statistics" where
  "add_global proto bytesIn bytesOut s =
     (if proto = BEAST then
        s\<lparr>BytesInBEAST := BytesInBEAST s + bytesIn, BytesOutBEAST := BytesOutBEAST s + bytesOut\<rparr>
      else if proto = MLAT then
        s\<lparr>BytesInMLAT := BytesInMLAT s + bytesIn, BytesOutMLAT := BytesOutMLAT s + bytesOut\<rparr>
      else s)"

definition IncrementByteCounters ::
    "uuid \<Rightarrow> u64 \<Rightarrow> protocol \<Rightarrow> u64 \<Rightarrow> u64 \<Rightarrow> time \<Rightarrow> stats_state \<Rightarrow> (error \<times> stats_state) go" where
  "IncrementByteCounters uuid connNum proto bytesIn bytesOut now st =
     (case gm_get (Feeders (stats st)) uuid of
        None \<Rightarrow> Ret (Some ErrAPIKeyNotFound, st)
      | Some y \<Rightarrow>
        (case nil_get (fs_Connections y) proto of
           None \<Rightarrow> Ret (Some ErrProtoNotFound, st)
         | Some p \<Rightarrow>
           (case nil_get (pd_ConnectionDetails p) connNum of
              None \<Rightarrow> Ret (Some ErrConnNumNotFound, st)
            | Some c \<Rightarrow>
              go_bind
                (set_detail uuid proto connNum
                   (c\<lparr>cd_BytesIn := cd_BytesIn c + bytesIn, cd_BytesOut := cd_BytesOut c + bytesOut\<rparr>)
                   (stats st))
                (\<lambda>s1. go_bind (Name proto)
                  (\<lambda>nm.
                    let pl = \<lparr>pl_protocol = to_lower nm, pl_uuid = uuid, pl_connnum = connNum,
                              pl_feeder_code = fs_Code y\<rparr>;
                        s2 = add_global proto bytesIn bytesOut s1;
                        y' = (get_feeder s2 uuid)\<lparr>fs_TimeUpdated := now\<rparr>
                    in Ret (None, st\<lparr>stats := put_feeder uuid y' s2,
                                     prom_log := prom_log st @ [AddIn pl bytesIn, AddOut pl bytesOut]\<rparr>))))))"

definition initFeederStats :: "uuid \<Rightarrow> Statistics \<Rightarrow> Statistics" where
  "initFeederStats uuid s =
     (case gm_get (Feeders s) uuid of
        Some _ \<Rightarrow> s
      | None \<Rightarrow>
          let pd = zero_ProtocolDetail\<lparr>pd_ConnectionDetails := Some gm_empty\<rparr>
          in put_feeder uuid
               (zero_FeederStats\<lparr>fs_Connections := Some (gm_put MLAT pd (gm_put BEAST pd gm_empty))\<rparr>) s)"

text \<open>What \<open>RegisterFeeder\<close> does after it has taken the lock again.\<close>

definition RegisterFeeder_locked :: "FeederDetails \<Rightarrow> time \<Rightarrow> Statistics \<Rightarrow> Statistics" where
  "RegisterFeeder_locked f now s =
     (let y = get_feeder s (fd_ApiKey f) in
      put_feeder (fd_ApiKey f)
        (y\<lparr>fs_Label := fd_Label f, fs_Code := fd_FeederCode f, fs_TimeUpdated := now\<rparr>) s)"

definition RegisterFeeder :: "FeederDetails \<Rightarrow> time \<Rightarrow> stats_state \<Rightarrow> error \<times> stats_state" where
  "RegisterFeeder f now st =
     (if \<not> st_initialised st then (Some ErrStatsNotInitialised, st)
      else (None, st\<lparr>stats := RegisterFeeder_locked f now (initFeederStats (fd_ApiKey f) (stats st))\<rparr>))"

text \<open>
  What \<open>RegisterConnection\<close> does after it has taken the lock again; \<open>connected\<close> is the time
  read before, \<open>now\<close> the time read at the end.
\<close>

definition RegisterConnection_locked ::
    "Connection \<Rightarrow> time \<Rightarrow> time \<Rightarrow> Statistics \<Rightarrow> Statistics go" where
  "RegisterConnection_locked conn connected now s =
     (let k = cn_ApiKey conn; p = cn_Proto conn;
          c = \<lparr>cd_Src = cn_SrcAddr conn, cd_Dst = cn_DstAddr conn, cd_TimeConnected = connected,
               cd_BytesIn = 0, cd_BytesOut = 0\<rparr>
      in go_bind (set_detail k p (cn_ConnNum conn) c s)
           (\<lambda>s1. go_bind
              (if nil_len (pd_ConnectionDetails (get_pd (get_feeder s1 k) p)) > 0 then
                 let pd = get_pd (get_feeder s1 k) p
                 in set_pd k p
                      (pd\<lparr>pd_Status := True, pd_MostRecentConnection := connected,
                          pd_ConnectionCount := int (nil_len (pd_ConnectionDetails pd))\<rparr>) s1
               else Ret s1)
              (\<lambda>s2. Ret (put_feeder k ((get_feeder s2 k)\<lparr>fs_TimeUpdated := now\<rparr>) s2))))"

definition RegisterConnection ::
    "Connection \<Rightarrow> time \<Rightarrow> time \<Rightarrow> stats_state \<Rightarrow> (error \<times> stats_state) go" where
  "RegisterConnection conn connected now st =
     (if \<not> st_initialised st then Ret (Some ErrStatsNotInitialised, st)
      else if \<not> IsValid (cn_Proto conn) then
        Ret (Some (ErrUnknownProtocol (go_itoa (uint (cn_Proto conn)))), st)
      else go_bind
        (RegisterConnection_locked conn connected now (initFeederStats (cn_ApiKey conn) (stats st)))
        (\<lambda>s. Ret (None, st\<lparr>stats := s\<rparr>)))"

text \<open>What \<open>UnregisterConnection\<close> does after it has taken the lock again.\<close>

definition UnregisterConnection_locked ::
    "Connection \<Rightarrow> time \<Rightarrow> Statistics \<Rightarrow> (error \<times> Statistics) go" where
  "UnregisterConnection_locked conn now s =
     (let k = cn_ApiKey conn; p = cn_Proto conn; pd = get_pd (get_feeder s k) p in
      case nil_get (pd_ConnectionDetails pd) (cn_ConnNum conn) of
        None \<Rightarrow> Ret (Some ErrConnNumNotFound, s)
      | Some _ \<Rightarrow>
          let dm = map_option (gm_del (cn_ConnNum conn)) (pd_ConnectionDetails pd);
              c = pd\<lparr>pd_ConnectionDetails := dm, pd_ConnectionCount := int (nil_len dm),
                     pd_Status := (if nil_len dm > 0 then True else False)\<rparr>
          in go_bind (set_pd k p c s)
               (\<lambda>s1. let s2 = put_feeder k ((get_feeder s1 k)\<lparr>fs_TimeUpdated := now\<rparr>) s1
                     in Ret (None,
                          if pd_ConnectionCount (get_pd (get_feeder s2 k) BEAST) = 0 then
                            (if pd_ConnectionCount (get_pd (get_feeder s2 k) MLAT) = 0
                             then s2\<lparr>Feeders := gm_del k (Feeders s2)\<rparr> else s2)
                          else s2)))"

definition UnregisterConnection :: "Connection \<Rightarrow> time \<Rightarrow> stats_state \<Rightarrow> (error \<times> stats_state) go" where
  "UnregisterConnection conn now st =
     (if \<not> st_initialised st then Ret (Some ErrStatsNotInitialised, st)
      else (case GetName (cn_Proto conn) of
              Inl e \<Rightarrow> Ret (Some e, st)
            | Inr protoName \<Rightarrow>
                let s1 = initFeederStats (cn_ApiKey conn) (stats st);
                    pl = \<lparr>pl_protocol = to_lower protoName, pl_uuid = cn_ApiKey conn,
                          pl_connnum = cn_ConnNum conn, pl_feeder_code = cn_FeederCode conn\<rparr>
                in go_bind (UnregisterConnection_locked conn now s1)
                     (\<lambda>(e, s2). Ret (e, st\<lparr>stats := s2,
                        prom_log := prom_log st @ [DeleteIn pl, DeleteOut pl]\<rparr>))))"

text \<open>
  One run of the evictor; \<open>clk u\<close> is the time read when the loop looks at feeder \<open>u\<close>.
\<close>

definition statsEvictorInner :: "(uuid \<Rightarrow> time) \<Rightarrow> Statistics \<Rightarrow> Statistics" where
  "statsEvictorInner clk s =
     (let toEvict = filter (\<lambda>u. nil_len (fs_Connections (get_feeder s u)) = 0 \<and>
                               clk u - fs_TimeUpdated (get_feeder s u) > second * 60)
                      (gm_keys (Feeders s))
      in foldl (\<lambda>s u. s\<lparr>Feeders := gm_del u (Feeders s)\<rparr>) s toEvict)"

definition stats_init :: Statistics where
  "stats_init = \<lparr>Feeders = gm_empty, BytesInBEAST = 0, BytesOutBEAST = 0, BytesInMLAT = 0,
                 BytesOutMLAT = 0\<rparr>"

end
