(* ===== verification/StatsInv.thy ===== *)
theory StatsInv
  imports Stats
begin

text \<open>
  The well-formedness invariant of the statistics store, the closed form of every operation
  on a well-formed store, and the abstraction of the store: the finite map from feeder,
  protocol and connection number to the connection's data.

  The invariant says what \<open>initFeederStats\<close> sets up and every operation keeps: a stored
  feeder has exactly the two protocols, both detail maps are made, the count is the size of
  the detail map, and the status is whether it is not empty.
\<close>

definition wf_pd :: "ProtocolDetail \<Rightarrow> bool" where
  "wf_pd pd \<longleftrightarrow>
     (case pd_ConnectionDetails pd of
        None \<Rightarrow> False
      | Some dm \<Rightarrow> gm_wf dm \<and> pd_ConnectionCount pd = int (gm_len dm) \<and>
                    pd_Status pd = (gm_len dm > 0))"

definition wf_feeder :: "FeederStats \<Rightarrow> bool" where
  "wf_feeder f \<longleftrightarrow>
     (case fs_Connections f of
        None \<Rightarrow> False
      | Some m \<Rightarrow> gm_wf m \<and> (\<forall>p. gm_get m p \<noteq> None \<longleftrightarrow> IsValid p) \<and>
                   (\<forall>p pd. gm_get m p = Some pd \<longrightarrow> wf_pd pd))"

definition wf_stats :: "Statistics \<Rightarrow> bool" where
  "wf_stats s \<longleftrightarrow> gm_wf (Feeders s) \<and> (\<forall>k f. gm_get (Feeders s) k = Some f \<longrightarrow> wf_feeder f)"

section \<open>The abstraction\<close>

definition lookup_conn :: "Statistics \<Rightarrow> uuid \<Rightarrow> protocol \<Rightarrow> u64 \<Rightarrow> ConnectionDetail option" where
  "lookup_conn s k p n = nil_get (pd_ConnectionDetails (get_pd (get_feeder s k) p)) n"

definition registered :: "Statistics \<Rightarrow> uuid \<Rightarrow> protocol \<Rightarrow> u64 set" where
  "registered s k p = {n. lookup_conn s k p n \<noteq> None}"

section \<open>Lemmas on the accessors\<close>

lemma nil_get_simps [simp]: "nil_get None k = None" "nil_get (Some m) k = gm_get m k"
  by (simp_all add: nil_get_def)

lemma nil_len_simps [simp]: "nil_len None = 0" "nil_len (Some m) = gm_len m"
  by (simp_all add: nil_len_def)

lemma get_or_simps [simp]: "get_or z None = z" "get_or z (Some v) = v"
  by (simp_all add: get_or_def)

lemma zero_simps [simp]:
  "fs_Connections zero_FeederStats = None" "pd_ConnectionDetails zero_ProtocolDetail = None"
  "pd_ConnectionCount zero_ProtocolDetail = 0" "pd_Status zero_ProtocolDetail = False"
  by (simp_all add: zero_FeederStats_def zero_ProtocolDetail_def)

lemma get_feeder_put [simp]:
  "get_feeder (put_feeder k f s) k' = (if k' = k then f else get_feeder s k')"
  by (simp add: get_feeder_def put_feeder_def)

lemma get_feeder_del [simp]:
  "get_feeder (s\<lparr>Feeders := gm_del k (Feeders s)\<rparr>) k' =
     (if k' = k then zero_FeederStats else get_feeder s k')"
  by (simp add: get_feeder_def)

lemma Feeders_put_feeder [simp]: "Feeders (put_feeder k f s) = gm_put k f (Feeders s)"
  by (simp add: put_feeder_def)

lemma put_feeder_twice [simp]: "put_feeder k f (put_feeder k g s) = put_feeder k f s"
  by (simp add: put_feeder_def)

lemma get_pd_zero [simp]: "get_pd zero_FeederStats p = zero_ProtocolDetail"
  by (simp add: get_pd_def)

lemma get_pd_other_fields [simp]:
  "get_pd (f\<lparr>fs_TimeUpdated := t\<rparr>) p = get_pd f p" "get_pd (f\<lparr>fs_Label := l\<rparr>) p = get_pd f p"
  "get_pd (f\<lparr>fs_Code := c\<rparr>) p = get_pd f p"
  by (simp_all add: get_pd_def)

lemma add_global_simps [simp]:
  "Feeders (add_global p a b s) = Feeders s" "get_feeder (add_global p a b s) k = get_feeder s k"
  by (simp_all add: add_global_def get_feeder_def)

lemma globals_put_feeder [simp]:
  "BytesInBEAST (put_feeder k f s) = BytesInBEAST s" "BytesOutBEAST (put_feeder k f s) = BytesOutBEAST s"
  "BytesInMLAT (put_feeder k f s) = BytesInMLAT s" "BytesOutMLAT (put_feeder k f s) = BytesOutMLAT s"
  by (simp_all add: put_feeder_def)

section \<open>The invariant\<close>

lemma wf_pdE:
  assumes "wf_pd pd"
  obtains dm where "pd_ConnectionDetails pd = Some dm" "gm_wf dm"
    "pd_ConnectionCount pd = int (gm_len dm)" "pd_Status pd = (gm_len dm > 0)"
  using assms by (auto simp: wf_pd_def split: option.splits)

lemma wf_feederE:
  assumes "wf_feeder f"
  obtains m where "fs_Connections f = Some m" "gm_wf m"
    "\<And>p. gm_get m p \<noteq> None \<longleftrightarrow> IsValid p" "\<And>p pd. gm_get m p = Some pd \<Longrightarrow> wf_pd pd"
  using assms by (auto simp: wf_feeder_def split: option.splits)

lemma wf_feeder_pdE:
  assumes "wf_feeder f" "IsValid p"
  obtains m dm where "fs_Connections f = Some m" "gm_get m p = Some (get_pd f p)"
    "wf_pd (get_pd f p)" "pd_ConnectionDetails (get_pd f p) = Some dm" "gm_wf dm"
    "pd_ConnectionCount (get_pd f p) = int (gm_len dm)" "pd_Status (get_pd f p) = (gm_len dm > 0)"
proof -
  obtain m where m: "fs_Connections f = Some m" "\<And>p. gm_get m p \<noteq> None \<longleftrightarrow> IsValid p"
      "\<And>p pd. gm_get m p = Some pd \<Longrightarrow> wf_pd pd"
    using wf_feederE[OF assms(1)] by metis
  then obtain pd where pd: "gm_get m p = Some pd" using assms(2) by blast
  then have "get_pd f p = pd" by (simp add: get_pd_def m(1))
  with pd m wf_pdE[of pd] that show thesis by metis
qed

lemma wf_feeder_put:
  assumes "wf_feeder f" "IsValid p" "wf_pd pd" "fs_Connections f = Some m"
  shows "wf_feeder (f\<lparr>fs_Connections := Some (gm_put p pd m)\<rparr>)"
  using assms by (auto simp: wf_feeder_def)

lemma wf_feeder_fields [simp]:
  "wf_feeder (f\<lparr>fs_TimeUpdated := t\<rparr>) = wf_feeder f" "wf_feeder (f\<lparr>fs_Label := l\<rparr>) = wf_feeder f"
  "wf_feeder (f\<lparr>fs_Code := c\<rparr>) = wf_feeder f"
  by (simp_all add: wf_feeder_def)

lemma wf_stats_get: "wf_stats s \<Longrightarrow> gm_get (Feeders s) k = Some f \<Longrightarrow> wf_feeder f"
  by (simp add: wf_stats_def)

lemma wf_stats_put: "wf_stats s \<Longrightarrow> wf_feeder f \<Longrightarrow> wf_stats (put_feeder k f s)"
  by (simp add: wf_stats_def)

lemma wf_stats_del: "wf_stats s \<Longrightarrow> wf_stats (s\<lparr>Feeders := gm_del k (Feeders s)\<rparr>)"
  by (simp add: wf_stats_def)

lemma wf_stats_add_global [simp]: "wf_stats (add_global p a b s) = wf_stats s"
  by (simp add: wf_stats_def)

lemma wf_stats_init: "wf_stats stats_init"
  by (simp add: wf_stats_def stats_init_def)

text \<open>A fresh feeder entry, as \<open>initFeederStats\<close> makes it.\<close>

definition fresh_feeder :: FeederStats where
  "fresh_feeder = zero_FeederStats\<lparr>fs_Connections :=
     Some (gm_put MLAT (zero_ProtocolDetail\<lparr>pd_ConnectionDetails := Some gm_empty\<rparr>)
          (gm_put BEAST (zero_ProtocolDetail\<lparr>pd_ConnectionDetails := Some gm_empty\<rparr>) gm_empty))\<rparr>"

lemma initFeederStats_eq:
  "initFeederStats k s =
     (case gm_get (Feeders s) k of Some _ \<Rightarrow> s | None \<Rightarrow> put_feeder k fresh_feeder s)"
  by (simp add: initFeederStats_def fresh_feeder_def Let_def split: option.split)

lemma gm_len_empty [simp]: "gm_len gm_empty = 0"
  by (simp add: gm_defs)

lemma wf_fresh_feeder: "wf_feeder fresh_feeder"
  by (auto simp: wf_feeder_def fresh_feeder_def wf_pd_def split: if_splits)

lemma wf_initFeederStats [inv_intros]: "wf_stats s \<Longrightarrow> wf_stats (initFeederStats k s)"
  by (auto simp: initFeederStats_eq wf_stats_put wf_fresh_feeder split: option.splits)

lemma initFeederStats_present: "\<exists>f. gm_get (Feeders (initFeederStats k s)) k = Some f"
  by (auto simp: initFeederStats_eq split: option.splits)

lemma lookup_fresh: "nil_get (pd_ConnectionDetails (get_pd fresh_feeder p)) n = None"
  by (simp add: fresh_feeder_def get_pd_def get_or_def)

lemma lookup_initFeederStats [simp]: "lookup_conn (initFeederStats k s) k' p n = lookup_conn s k' p n"
  by (auto simp: initFeederStats_eq lookup_conn_def lookup_fresh get_feeder_def[of s k]
      split: option.splits)

lemma lookup_put_feeder: "lookup_conn (put_feeder k f s) k' p n =
    (if k' = k then nil_get (pd_ConnectionDetails (get_pd f p)) n else lookup_conn s k' p n)"
  by (simp add: lookup_conn_def)

lemma get_pd_put:
  "fs_Connections f = Some m \<Longrightarrow>
   get_pd (f\<lparr>fs_Connections := Some (gm_put p pd m)\<rparr>) q = (if q = p then pd else get_pd f q)"
  by (simp add: get_pd_def)

text \<open>In a well-formed store only valid protocols have connections, and the sets are finite.\<close>

lemma lookup_conn_valid: "wf_stats s \<Longrightarrow> lookup_conn s k p n \<noteq> None \<Longrightarrow> IsValid p"
proof -
  assume wf: "wf_stats s" and l: "lookup_conn s k p n \<noteq> None"
  show "IsValid p"
  proof (cases "gm_get (Feeders s) k")
    case None
    with l show ?thesis by (simp add: lookup_conn_def get_feeder_def)
  next
    case (Some f)
    then obtain m where m: "fs_Connections f = Some m" "\<And>p. gm_get m p \<noteq> None \<longleftrightarrow> IsValid p"
      using wf_stats_get[OF wf] wf_feederE by metis
    with Some l show ?thesis
      by (auto simp: lookup_conn_def get_feeder_def get_pd_def get_or_def split: option.splits)
  qed
qed

lemma count_registered:
  assumes "wf_stats s"
  shows "pd_ConnectionCount (get_pd (get_feeder s k) p) = int (card (registered s k p))"
    and "pd_Status (get_pd (get_feeder s k) p) \<longleftrightarrow> registered s k p \<noteq> {}"
    and "finite (registered s k p)"
proof -
  have "pd_ConnectionCount (get_pd (get_feeder s k) p) = int (card (registered s k p)) \<and>
      (pd_Status (get_pd (get_feeder s k) p) \<longleftrightarrow> registered s k p \<noteq> {}) \<and> finite (registered s k p)"
  proof (cases "gm_get (Feeders s) k = None \<or> \<not> IsValid p")
    case True
    have "get_pd (get_feeder s k) p = zero_ProtocolDetail"
    proof (cases "gm_get (Feeders s) k")
      case None
      then show ?thesis by (simp add: get_feeder_def)
    next
      case (Some f)
      with True obtain m where "fs_Connections f = Some m" "gm_get m p = None"
        using wf_stats_get[OF assms Some] wf_feederE by (metis option.distinct(1))
      then show ?thesis by (simp add: get_feeder_def Some get_pd_def)
    qed
    then show ?thesis by (simp add: registered_def lookup_conn_def)
  next
    case False
    then obtain f where f: "gm_get (Feeders s) k = Some f" by auto
    have gf: "get_feeder s k = f" by (simp add: get_feeder_def f)
    have wf: "wf_feeder f" using wf_stats_get[OF assms f] .
    from False have v: "IsValid p" by blast
    obtain dm where dm: "pd_ConnectionDetails (get_pd f p) = Some dm" "gm_wf dm"
        "pd_ConnectionCount (get_pd f p) = int (gm_len dm)" "pd_Status (get_pd f p) = (gm_len dm > 0)"
      using wf_feeder_pdE[OF wf v] by metis
    have "registered s k p = {n. gm_get dm n \<noteq> None}"
      by (simp add: registered_def lookup_conn_def gf dm(1))
    with dm gm.len_card[OF dm(2)] gm.finite_keys[of dm] show ?thesis
      by (auto simp: gf card_gt_0_iff)
  qed
  then show "pd_ConnectionCount (get_pd (get_feeder s k) p) = int (card (registered s k p))"
    and "pd_Status (get_pd (get_feeder s k) p) \<longleftrightarrow> registered s k p \<noteq> {}"
    and "finite (registered s k p)" by blast+
qed

section \<open>The operations on a well-formed store\<close>

text \<open>What the operations put for protocol \<open>p\<close> of a feeder, the rest of it unchanged.\<close>

definition with_pd :: "FeederStats \<Rightarrow> protocol \<Rightarrow> ProtocolDetail \<Rightarrow> FeederStats" where
  "with_pd f p pd = f\<lparr>fs_Connections := map_option (gm_put p pd) (fs_Connections f)\<rparr>"

lemma with_pd_fields [simp]:
  "fs_Label (with_pd f p pd) = fs_Label f" "fs_Code (with_pd f p pd) = fs_Code f"
  by (simp_all add: with_pd_def)

lemma get_pd_with_pd: "wf_feeder f \<Longrightarrow> get_pd (with_pd f p pd) q = (if q = p then pd else get_pd f q)"
  by (auto simp: with_pd_def get_pd_put elim!: wf_feederE)

lemma wf_with_pd: "wf_feeder f \<Longrightarrow> IsValid p \<Longrightarrow> wf_pd pd \<Longrightarrow> wf_feeder (with_pd f p pd)"
  using wf_feeder_put[of f p pd] wf_feederE[of f] by (metis with_pd_def option.simps(9))

lemma with_pd_twice [simp]: "with_pd (with_pd f p a) p b = with_pd f p b"
  by (simp add: with_pd_def option.map_comp comp_def)

lemma with_pd_Connections: "wf_feeder f \<Longrightarrow> \<exists>m. fs_Connections (with_pd f p pd) = Some m"
  by (auto simp: with_pd_def elim!: wf_feederE)

lemma set_pd_eq:
  assumes "fs_Connections (get_feeder s k) = Some m"
  shows "set_pd k p pd s = Ret (put_feeder k (with_pd (get_feeder s k) p pd) s)"
  using assms by (simp add: set_pd_def with_pd_def)

lemma set_detail_eq:
  assumes "pd_ConnectionDetails (get_pd (get_feeder s k) p) = Some dm" "wf_feeder (get_feeder s k)"
  shows "set_detail k p n c s =
    Ret (put_feeder k (with_pd (get_feeder s k) p
      ((get_pd (get_feeder s k) p)\<lparr>pd_ConnectionDetails := Some (gm_put n c dm)\<rparr>)) s)"
proof -
  obtain m where "fs_Connections (get_feeder s k) = Some m"
    using wf_feederE[OF assms(2)] by metis
  then show ?thesis using assms(1) by (simp add: set_detail_def set_pd_eq)
qed

definition fresh_detail :: "Connection \<Rightarrow> time \<Rightarrow> ConnectionDetail" where
  "fresh_detail conn connected =
     \<lparr>cd_Src = cn_SrcAddr conn, cd_Dst = cn_DstAddr conn, cd_TimeConnected = connected,
      cd_BytesIn = 0, cd_BytesOut = 0\<rparr>"

text \<open>\<open>RegisterConnection\<close>: one write of the protocol's entry and the update time.\<close>

lemma RegisterConnection_locked_eq:
  assumes wf: "wf_feeder (get_feeder s (cn_ApiKey conn))" and v: "IsValid (cn_Proto conn)"
    and dm: "pd_ConnectionDetails (get_pd (get_feeder s (cn_ApiKey conn)) (cn_Proto conn)) = Some dm"
  shows "RegisterConnection_locked conn connected now s =
    Ret (put_feeder (cn_ApiKey conn)
      ((with_pd (get_feeder s (cn_ApiKey conn)) (cn_Proto conn)
         ((get_pd (get_feeder s (cn_ApiKey conn)) (cn_Proto conn))
            \<lparr>pd_ConnectionDetails := Some (gm_put (cn_ConnNum conn) (fresh_detail conn connected) dm),
             pd_Status := True, pd_MostRecentConnection := connected,
             pd_ConnectionCount := int (gm_len (gm_put (cn_ConnNum conn) (fresh_detail conn connected) dm))\<rparr>))
       \<lparr>fs_TimeUpdated := now\<rparr>) s)"
proof -
  let ?k = "cn_ApiKey conn" and ?p = "cn_Proto conn" and ?n = "cn_ConnNum conn"
  let ?f = "get_feeder s ?k" and ?c = "fresh_detail conn connected"
  let ?pd1 = "(get_pd ?f ?p)\<lparr>pd_ConnectionDetails := Some (gm_put ?n ?c dm)\<rparr>"
  let ?s1 = "put_feeder ?k (with_pd ?f ?p ?pd1) s"
  obtain m where m: "fs_Connections (with_pd ?f ?p ?pd1) = Some m"
    using with_pd_Connections[OF wf] by blast
  have pd1: "get_pd (with_pd ?f ?p ?pd1) ?p = ?pd1"
    using get_pd_with_pd[OF wf] by simp
  have set1: "set_detail ?k ?p ?n ?c s = Ret ?s1"
    by (rule set_detail_eq[OF dm wf])
  show ?thesis
    unfolding RegisterConnection_locked_def Let_def fresh_detail_def[symmetric]
    by (simp add: set1 pd1 set_pd_eq[of ?s1 ?k m] m)
qed

lemma wf_register_pd:
  "gm_wf dm \<Longrightarrow> wf_pd (pd\<lparr>pd_ConnectionDetails := Some (gm_put n c dm), pd_Status := True,
     pd_MostRecentConnection := t, pd_ConnectionCount := int (gm_len (gm_put n c dm))\<rparr>)"
  by (simp add: wf_pd_def)

text \<open>
  The effect on the abstraction: on a well-formed store that has the feeder, registering
  returns a well-formed store in which the connection maps to its fresh data and every
  other connection is as before.
\<close>

lemma RegisterConnection_locked_effect:
  assumes wf: "wf_stats s" and f: "gm_get (Feeders s) (cn_ApiKey conn) = Some f"
    and v: "IsValid (cn_Proto conn)"
  shows "\<exists>s'. RegisterConnection_locked conn connected now s = Ret s' \<and> wf_stats s' \<and>
    (\<forall>k p n. lookup_conn s' k p n =
       (if k = cn_ApiKey conn \<and> p = cn_Proto conn \<and> n = cn_ConnNum conn
        then Some (fresh_detail conn connected) else lookup_conn s k p n)) \<and>
    BytesInBEAST s' = BytesInBEAST s \<and> BytesOutBEAST s' = BytesOutBEAST s \<and>
    BytesInMLAT s' = BytesInMLAT s \<and> BytesOutMLAT s' = BytesOutMLAT s"
proof -
  have gf: "get_feeder s (cn_ApiKey conn) = f" by (simp add: get_feeder_def f)
  have wff: "wf_feeder f" by (rule wf_stats_get[OF wf f])
  obtain dm where dm: "pd_ConnectionDetails (get_pd f (cn_Proto conn)) = Some dm" "gm_wf dm"
    using wf_feeder_pdE[OF wff v] by metis
  let ?pd = "(get_pd f (cn_Proto conn))
      \<lparr>pd_ConnectionDetails := Some (gm_put (cn_ConnNum conn) (fresh_detail conn connected) dm),
       pd_Status := True, pd_MostRecentConnection := connected,
       pd_ConnectionCount := int (gm_len (gm_put (cn_ConnNum conn) (fresh_detail conn connected) dm))\<rparr>"
  let ?s' = "put_feeder (cn_ApiKey conn) ((with_pd f (cn_Proto conn) ?pd)\<lparr>fs_TimeUpdated := now\<rparr>) s"
  have "RegisterConnection_locked conn connected now s = Ret ?s'"
    using RegisterConnection_locked_eq[of s conn dm connected now] wff v dm(1) by (simp add: gf)
  moreover have "wf_stats ?s'"
    using wf wf_with_pd[OF wff v wf_register_pd[OF dm(2)]] by (simp add: wf_stats_put)
  moreover have "lookup_conn ?s' k p n =
      (if k = cn_ApiKey conn \<and> p = cn_Proto conn \<and> n = cn_ConnNum conn
       then Some (fresh_detail conn connected) else lookup_conn s k p n)" for k p n
    by (simp add: lookup_put_feeder get_pd_with_pd[OF wff] dm(1)) (simp add: lookup_conn_def gf dm(1))
  ultimately show ?thesis by (intro exI[of _ ?s']) simp
qed

text \<open>\<open>UnregisterConnection\<close>, the entry it writes.\<close>

definition unregistered_pd :: "ProtocolDetail \<Rightarrow> u64 \<Rightarrow> (u64, ConnectionDetail) gomap \<Rightarrow> ProtocolDetail" where
  "unregistered_pd pd n dm =
     pd\<lparr>pd_ConnectionDetails := Some (gm_del n dm), pd_ConnectionCount := int (gm_len (gm_del n dm)),
        pd_Status := (gm_len (gm_del n dm) > 0)\<rparr>"

lemma wf_unregistered_pd: "gm_wf dm \<Longrightarrow> wf_pd (unregistered_pd pd n dm)"
  by (simp add: wf_pd_def unregistered_pd_def)

lemma UnregisterConnection_locked_eq:
  assumes wf: "wf_feeder (get_feeder s k)" and k: "k = cn_ApiKey conn" "p = cn_Proto conn"
    and dm: "pd_ConnectionDetails (get_pd (get_feeder s k) p) = Some dm"
    and found: "gm_get dm (cn_ConnNum conn) = Some d"
    and s2: "s2 = put_feeder k ((with_pd (get_feeder s k) p
        (unregistered_pd (get_pd (get_feeder s k) p) (cn_ConnNum conn) dm))\<lparr>fs_TimeUpdated := now\<rparr>) s"
  shows "UnregisterConnection_locked conn now s =
    Ret (None, if pd_ConnectionCount (get_pd (get_feeder s2 k) BEAST) = 0 \<and>
                  pd_ConnectionCount (get_pd (get_feeder s2 k) MLAT) = 0
               then s2\<lparr>Feeders := gm_del k (Feeders s2)\<rparr> else s2)"
proof -
  obtain m where m: "fs_Connections (get_feeder s k) = Some m"
    using wf_feederE[OF wf] by metis
  show ?thesis
    using dm found k
    by (simp add: UnregisterConnection_locked_def Let_def set_pd_eq[OF m[unfolded k]] s2
        unregistered_pd_def)
qed

lemma UnregisterConnection_locked_missing:
  "lookup_conn s (cn_ApiKey conn) (cn_Proto conn) (cn_ConnNum conn) = None \<Longrightarrow>
   UnregisterConnection_locked conn now s = Ret (Some ErrConnNumNotFound, s)"
  by (simp add: UnregisterConnection_locked_def lookup_conn_def Let_def)

text \<open>
  The effect on the abstraction: unregistering a registered connection returns a well-formed
  store without it and with every other connection as before; the feeder's entry is removed
  exactly when this was its last connection.
\<close>

lemma UnregisterConnection_locked_effect:
  assumes wf: "wf_stats s"
    and l: "lookup_conn s (cn_ApiKey conn) (cn_Proto conn) (cn_ConnNum conn) = Some d"
  shows "\<exists>s'. UnregisterConnection_locked conn now s = Ret (None, s') \<and> wf_stats s' \<and>
    (\<forall>k p n. lookup_conn s' k p n =
       (if k = cn_ApiKey conn \<and> p = cn_Proto conn \<and> n = cn_ConnNum conn
        then None else lookup_conn s k p n)) \<and>
    (gm_get (Feeders s') (cn_ApiKey conn) = None \<longleftrightarrow>
       (\<forall>p. registered s' (cn_ApiKey conn) p = {})) \<and>
    BytesInBEAST s' = BytesInBEAST s \<and> BytesOutBEAST s' = BytesOutBEAST s \<and>
    BytesInMLAT s' = BytesInMLAT s \<and> BytesOutMLAT s' = BytesOutMLAT s"
proof -
  let ?k = "cn_ApiKey conn" and ?p = "cn_Proto conn" and ?n = "cn_ConnNum conn"
  have v: "IsValid ?p" using lookup_conn_valid[OF wf] l by blast
  obtain f where f: "gm_get (Feeders s) ?k = Some f"
    using l by (cases "gm_get (Feeders s) ?k") (simp_all add: lookup_conn_def get_feeder_def)
  have gf: "get_feeder s ?k = f" by (simp add: get_feeder_def f)
  have wff: "wf_feeder f" by (rule wf_stats_get[OF wf f])
  obtain dm where dm: "pd_ConnectionDetails (get_pd f ?p) = Some dm" "gm_wf dm"
    using wf_feeder_pdE[OF wff v] by metis
  have found: "gm_get dm ?n = Some d" using l by (simp add: lookup_conn_def gf dm(1))
  define s2 where "s2 = put_feeder ?k
    ((with_pd f ?p (unregistered_pd (get_pd f ?p) ?n dm))\<lparr>fs_TimeUpdated := now\<rparr>) s"
  define gone where "gone \<longleftrightarrow> pd_ConnectionCount (get_pd (get_feeder s2 ?k) BEAST) = 0 \<and>
                              pd_ConnectionCount (get_pd (get_feeder s2 ?k) MLAT) = 0"
  define s' where "s' = (if gone then s2\<lparr>Feeders := gm_del ?k (Feeders s2)\<rparr> else s2)"
  have run: "UnregisterConnection_locked conn now s = Ret (None, s')"
    using UnregisterConnection_locked_eq[of s ?k conn ?p dm d s2 now] wff dm(1) found
    by (simp add: gf s2_def s'_def gone_def)
  have wf2: "wf_stats s2"
    using wf wf_with_pd[OF wff v wf_unregistered_pd[OF dm(2)]] by (simp add: s2_def wf_stats_put)
  have l2: "lookup_conn s2 k p n = (if k = ?k \<and> p = ?p \<and> n = ?n then None else lookup_conn s k p n)"
    for k p n
    by (simp add: s2_def lookup_put_feeder get_pd_with_pd[OF wff] unregistered_pd_def)
       (simp add: lookup_conn_def gf dm(1))
  have gone: "gone \<longleftrightarrow> (\<forall>p. registered s2 ?k p = {})"
  proof -
    have "gone \<longleftrightarrow> registered s2 ?k BEAST = {} \<and> registered s2 ?k MLAT = {}"
      using count_registered[OF wf2] by (metis card_eq_0_iff gone_def of_nat_eq_0_iff)
    moreover have "registered s2 ?k p = {}" if "\<not> IsValid p" for p
      using lookup_conn_valid[OF wf2] that unfolding registered_def by blast
    ultimately show ?thesis by (metis IsValid_iff)
  qed
  have l': "lookup_conn s' k p n = lookup_conn s2 k p n" for k p n
  proof (cases "gone \<and> k = ?k")
    case True
    then have "lookup_conn s2 k p n = None"
      using gone unfolding registered_def by blast
    moreover have "lookup_conn s' ?k p n = None"
      using True by (simp add: s'_def) (simp add: lookup_conn_def get_feeder_def)
    ultimately show ?thesis using True by simp
  next
    case False
    then show ?thesis by (auto simp: lookup_conn_def s'_def get_feeder_def)
  qed
  have "gm_get (Feeders s') ?k = None \<longleftrightarrow> gone" by (simp add: s'_def s2_def)
  moreover have "registered s' ?k p = registered s2 ?k p" for p
    unfolding registered_def l' by simp
  ultimately have present: "gm_get (Feeders s') ?k = None \<longleftrightarrow> (\<forall>p. registered s' ?k p = {})"
    using gone by simp
  have "wf_stats s'" using wf2 wf_stats_del[OF wf2, of ?k] by (simp add: s'_def)
  moreover have "BytesInBEAST s' = BytesInBEAST s \<and> BytesOutBEAST s' = BytesOutBEAST s \<and>
      BytesInMLAT s' = BytesInMLAT s \<and> BytesOutMLAT s' = BytesOutMLAT s"
    by (simp add: s'_def s2_def)
  ultimately show ?thesis
    using run l2 l' present by (intro exI[of _ s']) simp
qed

text \<open>\<open>IncrementByteCounters\<close>.\<close>

definition incremented :: "u64 \<Rightarrow> u64 \<Rightarrow> ConnectionDetail \<Rightarrow> ConnectionDetail" where
  "incremented bIn bOut c =
     c\<lparr>cd_BytesIn := cd_BytesIn c + bIn, cd_BytesOut := cd_BytesOut c + bOut\<rparr>"

lemma IncrementByteCounters_missing:
  assumes "wf_stats (stats st)" "lookup_conn (stats st) k p n = None"
  shows "\<exists>e. IncrementByteCounters k n p bIn bOut now st = Ret (Some e, st) \<and>
    e = (if gm_get (Feeders (stats st)) k = None then ErrAPIKeyNotFound
         else if \<not> IsValid p then ErrProtoNotFound else ErrConnNumNotFound)"
proof (cases "gm_get (Feeders (stats st)) k")
  case None
  then show ?thesis by (simp add: IncrementByteCounters_def)
next
  case (Some f)
  then obtain m where m: "fs_Connections f = Some m" "\<And>p. gm_get m p \<noteq> None \<longleftrightarrow> IsValid p"
    using wf_stats_get[OF assms(1)] wf_feederE by metis
  show ?thesis
  proof (cases "gm_get m p")
    case None
    with m(2)[of p] Some show ?thesis by (simp add: IncrementByteCounters_def m(1))
  next
    case pd: (Some pd)
    then have "IsValid p" using m(2)[of p] by blast
    moreover have "nil_get (pd_ConnectionDetails pd) n = None"
      using assms(2) by (simp add: lookup_conn_def get_feeder_def Some get_pd_def m(1) pd)
    ultimately show ?thesis using Some pd by (simp add: IncrementByteCounters_def m(1))
  qed
qed

lemma IncrementByteCounters_effect:
  assumes wf: "wf_stats (stats st)" and l: "lookup_conn (stats st) k p n = Some c"
  shows "\<exists>st'. IncrementByteCounters k n p bIn bOut now st = Ret (None, st') \<and>
    wf_stats (stats st') \<and> st_initialised st' = st_initialised st \<and>
    (\<forall>k' p' n'. lookup_conn (stats st') k' p' n' =
       (if k' = k \<and> p' = p \<and> n' = n then Some (incremented bIn bOut c)
        else lookup_conn (stats st) k' p' n')) \<and>
    BytesInBEAST (stats st') = BytesInBEAST (add_global p bIn bOut (stats st)) \<and>
    BytesOutBEAST (stats st') = BytesOutBEAST (add_global p bIn bOut (stats st)) \<and>
    BytesInMLAT (stats st') = BytesInMLAT (add_global p bIn bOut (stats st)) \<and>
    BytesOutMLAT (stats st') = BytesOutMLAT (add_global p bIn bOut (stats st))"
proof -
  let ?s = "stats st"
  have v: "IsValid p" using lookup_conn_valid[OF wf] l by blast
  obtain f where f: "gm_get (Feeders ?s) k = Some f"
    using l by (cases "gm_get (Feeders ?s) k") (simp_all add: lookup_conn_def get_feeder_def)
  have gf: "get_feeder ?s k = f" by (simp add: get_feeder_def f)
  have wff: "wf_feeder f" by (rule wf_stats_get[OF wf f])
  obtain m dm where m: "fs_Connections f = Some m" "gm_get m p = Some (get_pd f p)"
      and dm: "pd_ConnectionDetails (get_pd f p) = Some dm" "gm_wf dm"
        "pd_ConnectionCount (get_pd f p) = int (gm_len dm)" "pd_Status (get_pd f p) = (gm_len dm > 0)"
    using wf_feeder_pdE[OF wff v] by metis
  have c: "gm_get dm n = Some c" using l by (simp add: lookup_conn_def gf dm(1))
  obtain nm where nm: "Name p = Ret nm" using v by auto
  let ?c' = "incremented bIn bOut c"
  let ?pd = "(get_pd f p)\<lparr>pd_ConnectionDetails := Some (gm_put n ?c' dm)\<rparr>"
  define s1 where "s1 = put_feeder k (with_pd f p ?pd) ?s"
  define s2 where "s2 = put_feeder k ((with_pd f p ?pd)\<lparr>fs_TimeUpdated := now\<rparr>) (add_global p bIn bOut s1)"
  define pl where "pl = \<lparr>pl_protocol = to_lower nm, pl_uuid = k, pl_connnum = n, pl_feeder_code = fs_Code f\<rparr>"
  have "set_detail k p n ?c' ?s = Ret s1"
    using set_detail_eq[of ?s k p dm n ?c'] wff dm(1) by (simp add: gf s1_def)
  then have run: "IncrementByteCounters k n p bIn bOut now st =
      Ret (None, st\<lparr>stats := s2, prom_log := prom_log st @ [AddIn pl bIn, AddOut pl bOut]\<rparr>)"
    by (simp add: IncrementByteCounters_def f m dm(1) c nm s2_def pl_def Let_def s1_def
        flip: incremented_def)
  have "gm_len (gm_put n ?c' dm) = gm_len dm" using gm.len_put[OF dm(2)] c by simp
  then have "wf_pd ?pd" using dm by (simp add: wf_pd_def)
  then have "wf_stats s2"
    using wf wf_with_pd[OF wff v] by (simp add: s2_def s1_def wf_stats_put)
  moreover have "lookup_conn s2 k' p' n' =
      (if k' = k \<and> p' = p \<and> n' = n then Some ?c' else lookup_conn ?s k' p' n')" for k' p' n'
    by (simp add: s2_def s1_def lookup_put_feeder get_pd_with_pd[OF wff])
       (simp add: lookup_conn_def gf dm(1))
  moreover have "BytesInBEAST s2 = BytesInBEAST (add_global p bIn bOut ?s)"
    "BytesOutBEAST s2 = BytesOutBEAST (add_global p bIn bOut ?s)"
    "BytesInMLAT s2 = BytesInMLAT (add_global p bIn bOut ?s)"
    "BytesOutMLAT s2 = BytesOutMLAT (add_global p bIn bOut ?s)"
    by (simp_all add: s2_def s1_def add_global_def)
  ultimately show ?thesis using run by simp
qed

text \<open>The evictor removes nothing from a well-formed store.\<close>

lemma wf_feeder_conns_nonempty: "wf_feeder f \<Longrightarrow> nil_len (fs_Connections f) \<noteq> 0"
proof -
  assume "wf_feeder f"
  then obtain m where m: "fs_Connections f = Some m" "gm_wf m" "\<And>p. gm_get m p \<noteq> None \<longleftrightarrow> IsValid p"
    using wf_feederE by metis
  then have "gm_get m BEAST \<noteq> None" by simp
  with m gm.len_0[OF m(2)] show ?thesis by auto
qed

lemma gm_keys_get: "k \<in> set (gm_keys m) \<Longrightarrow> \<exists>v. gm_get m k = Some v"
  by (auto simp: gm_defs dest: weak_map_of_SomeI)

lemma statsEvictorInner_wf: "wf_stats s \<Longrightarrow> statsEvictorInner clk s = s"
proof -
  assume wf: "wf_stats s"
  have "nil_len (fs_Connections (get_feeder s u)) \<noteq> 0" if "u \<in> set (gm_keys (Feeders s))" for u
    using gm_keys_get[OF that] wf_stats_get[OF wf] wf_feeder_conns_nonempty
    by (auto simp: get_feeder_def)
  then have none: "filter (\<lambda>u. nil_len (fs_Connections (get_feeder s u)) = 0 \<and>
      clk u - fs_TimeUpdated (get_feeder s u) > second * 60) (gm_keys (Feeders s)) = []"
    by (simp add: filter_empty_conv)
  show ?thesis unfolding statsEvictorInner_def none by simp
qed

end
