(* ===== verification/StatsSpec.thy ===== *)
theory StatsSpec
  imports StatsInv
begin

text \<open>
  What the statistics store promises: the abstract registry (a partial map from feeder,
  protocol and connection number to data), the refinement of every operation to it, the
  conservation of the byte counters over runs, and the registry interface the proxy uses,
  stated as a locale and interpreted on the operations.
\<close>

section \<open>Operations as one step function\<close>

datatype stats_op =
    OpRegisterFeeder FeederDetails time
  | OpRegister Connection time time
  | OpUnregister Connection time
  | OpIncrement uuid u64 protocol u64 u64 time
  | OpEvict "uuid \<Rightarrow> time"

fun stats_step :: "stats_op \<Rightarrow> stats_state \<Rightarrow> (error \<times> stats_state) go" where
  "stats_step (OpRegisterFeeder f now) st = Ret (RegisterFeeder f now st)"
| "stats_step (OpRegister conn connected now) st = RegisterConnection conn connected now st"
| "stats_step (OpUnregister conn now) st = UnregisterConnection conn now st"
| "stats_step (OpIncrement k n p bIn bOut now) st = IncrementByteCounters k n p bIn bOut now st"
| "stats_step (OpEvict clk) st = Ret (None, st\<lparr>stats := statsEvictorInner clk (stats st)\<rparr>)"

section \<open>The abstract registry\<close>

type_synonym registry = "uuid \<Rightarrow> protocol \<Rightarrow> u64 \<Rightarrow> ConnectionDetail option"

definition reg_set :: "uuid \<Rightarrow> protocol \<Rightarrow> u64 \<Rightarrow> ConnectionDetail option \<Rightarrow> registry \<Rightarrow> registry" where
  "reg_set k p n v r = (\<lambda>k' p' n'. if k' = k \<and> p' = p \<and> n' = n then v else r k' p' n')"

fun spec_step :: "stats_op \<Rightarrow> registry \<Rightarrow> bool \<times> registry" where
  "spec_step (OpRegisterFeeder f now) r = (True, r)"
| "spec_step (OpRegister conn connected now) r =
     (if IsValid (cn_Proto conn)
      then (True, reg_set (cn_ApiKey conn) (cn_Proto conn) (cn_ConnNum conn) (Some (fresh_detail conn connected)) r)
      else (False, r))"
| "spec_step (OpUnregister conn now) r =
     (if r (cn_ApiKey conn) (cn_Proto conn) (cn_ConnNum conn) = None then (False, r)
      else (True, reg_set (cn_ApiKey conn) (cn_Proto conn) (cn_ConnNum conn) None r))"
| "spec_step (OpIncrement k n p bIn bOut now) r =
     (case r k p n of None \<Rightarrow> (False, r)
      | Some c \<Rightarrow> (True, reg_set k p n (Some (incremented bIn bOut c)) r))"
| "spec_step (OpEvict clk) r = (True, r)"

text \<open>The bytes an operation adds to the four global counters.\<close>

fun op_bytes :: "stats_op \<Rightarrow> protocol \<Rightarrow> u64 \<times> u64" where
  "op_bytes (OpIncrement k n p bIn bOut now) q = (if q = p then (bIn, bOut) else (0, 0))"
| "op_bytes _ q = (0, 0)"

definition global_bytes :: "Statistics \<Rightarrow> protocol \<Rightarrow> u64 \<times> u64" where
  "global_bytes s p =
     (if p = BEAST then (BytesInBEAST s, BytesOutBEAST s)
      else if p = MLAT then (BytesInMLAT s, BytesOutMLAT s) else (0, 0))"

lemma global_bytes_add_global:
  "IsValid q \<Longrightarrow> global_bytes (add_global p a b s) q =
    (if q = p then (fst (global_bytes s q) + a, snd (global_bytes s q) + b) else global_bytes s q)"
  by (auto simp: global_bytes_def add_global_def)

lemma global_bytes_cong:
  "BytesInBEAST s = BytesInBEAST t \<Longrightarrow> BytesOutBEAST s = BytesOutBEAST t \<Longrightarrow>
   BytesInMLAT s = BytesInMLAT t \<Longrightarrow> BytesOutMLAT s = BytesOutMLAT t \<Longrightarrow>
   global_bytes s p = global_bytes t p"
  by (simp add: global_bytes_def)

text \<open>
  The one-step lemma: on an initialised, well-formed store every operation returns, keeps
  the store well-formed, does on the abstraction what the registry does, reports an error
  exactly where the registry refuses, and adds its bytes to the global counters if it did
  not refuse.
\<close>

definition step_ok :: "stats_op \<Rightarrow> stats_state \<Rightarrow> error \<Rightarrow> stats_state \<Rightarrow> bool" where
  "step_ok op st e st' \<longleftrightarrow>
     st_initialised st' \<and> wf_stats (stats st') \<and>
     (e = None, lookup_conn (stats st')) = spec_step op (lookup_conn (stats st)) \<and>
     (\<forall>p. IsValid p \<longrightarrow> global_bytes (stats st') p =
        (if e = None then (fst (global_bytes (stats st) p) + fst (op_bytes op p),
                           snd (global_bytes (stats st) p) + snd (op_bytes op p))
         else global_bytes (stats st) p))"

lemma initFeederStats_globals [simp]: "global_bytes (initFeederStats k s) p = global_bytes s p"
  by (auto simp: initFeederStats_eq global_bytes_def split: option.splits)

lemma lookup_initFeederStats_fun: "lookup_conn (initFeederStats k s) = lookup_conn s"
  by (simp add: fun_eq_iff)

lemma step_ok_RegisterFeeder:
  assumes "st_initialised st" "wf_stats (stats st)"
  shows "\<exists>e st'. stats_step (OpRegisterFeeder f now) st = Ret (e, st') \<and> step_ok (OpRegisterFeeder f now) st e st'"
proof -
  let ?s1 = "initFeederStats (fd_ApiKey f) (stats st)"
  let ?s2 = "RegisterFeeder_locked f now ?s1"
  have wf1: "wf_stats ?s1" by (rule wf_initFeederStats[OF assms(2)])
  obtain g where g: "gm_get (Feeders ?s1) (fd_ApiKey f) = Some g"
    using initFeederStats_present by blast
  have "wf_stats ?s2"
    using wf_stats_put[OF wf1] wf_stats_get[OF wf1 g]
    by (simp add: RegisterFeeder_locked_def get_feeder_def g)
  moreover have "lookup_conn ?s2 = lookup_conn (stats st)"
  proof -
    have "lookup_conn ?s2 k p n = lookup_conn ?s1 k p n" for k p n
      unfolding RegisterFeeder_locked_def Let_def lookup_put_feeder
      by (simp add: lookup_conn_def)
    then show ?thesis by (simp add: fun_eq_iff)
  qed
  moreover have "global_bytes ?s2 p = global_bytes (stats st) p" for p
    using global_bytes_cong[of ?s2 ?s1 p] by (simp add: RegisterFeeder_locked_def)
  ultimately show ?thesis
    using assms by (simp add: RegisterFeeder_def step_ok_def)
qed

lemma step_ok_Register:
  assumes "st_initialised st" "wf_stats (stats st)"
  shows "\<exists>e st'. stats_step (OpRegister conn connected now) st = Ret (e, st') \<and>
                 step_ok (OpRegister conn connected now) st e st'"
proof (cases "IsValid (cn_Proto conn)")
  case False
  then show ?thesis using assms by (simp add: RegisterConnection_def step_ok_def)
next
  case True
  let ?s1 = "initFeederStats (cn_ApiKey conn) (stats st)"
  have wf1: "wf_stats ?s1" by (rule wf_initFeederStats[OF assms(2)])
  obtain g where g: "gm_get (Feeders ?s1) (cn_ApiKey conn) = Some g"
    using initFeederStats_present by blast
  from RegisterConnection_locked_effect[OF wf1 g True, of connected now]
  obtain s' where s': "RegisterConnection_locked conn connected now ?s1 = Ret s'" "wf_stats s'"
    and l: "\<And>k p n. lookup_conn s' k p n =
       (if k = cn_ApiKey conn \<and> p = cn_Proto conn \<and> n = cn_ConnNum conn
        then Some (fresh_detail conn connected) else lookup_conn (stats st) k p n)"
    and b: "\<And>p. global_bytes s' p = global_bytes (stats st) p"
    using global_bytes_cong[of _ ?s1] by auto
  have "RegisterConnection conn connected now st = Ret (None, st\<lparr>stats := s'\<rparr>)"
    using assms True s'(1) by (simp add: RegisterConnection_def del: IsValid_iff)
  moreover have "lookup_conn s' = reg_set (cn_ApiKey conn) (cn_Proto conn) (cn_ConnNum conn)
      (Some (fresh_detail conn connected)) (lookup_conn (stats st))"
    by (simp add: fun_eq_iff reg_set_def l)
  ultimately show ?thesis
    using assms True s'(2) b by (simp add: step_ok_def del: IsValid_iff)
qed

lemma step_ok_Unregister:
  assumes "st_initialised st" "wf_stats (stats st)"
  shows "\<exists>e st'. stats_step (OpUnregister conn now) st = Ret (e, st') \<and>
                 step_ok (OpUnregister conn now) st e st'"
proof (cases "GetName (cn_Proto conn)")
  case (Inl err)
  then have "\<not> IsValid (cn_Proto conn)" using GetName_Inr_iff by force
  then have "lookup_conn (stats st) (cn_ApiKey conn) (cn_Proto conn) (cn_ConnNum conn) = None"
    using lookup_conn_valid[OF assms(2)] by blast
  with Inl show ?thesis using assms by (simp add: UnregisterConnection_def step_ok_def)
next
  case (Inr nm)
  let ?s1 = "initFeederStats (cn_ApiKey conn) (stats st)"
  have wf1: "wf_stats ?s1" by (rule wf_initFeederStats[OF assms(2)])
  show ?thesis
  proof (cases "lookup_conn ?s1 (cn_ApiKey conn) (cn_Proto conn) (cn_ConnNum conn)")
    case None
    from UnregisterConnection_locked_missing[OF None, of now] None Inr assms wf1 show ?thesis
      by (simp add: UnregisterConnection_def step_ok_def Let_def lookup_initFeederStats_fun)
  next
    case (Some d)
    from UnregisterConnection_locked_effect[OF wf1 Some, of now]
    obtain s' where s': "UnregisterConnection_locked conn now ?s1 = Ret (None, s')" "wf_stats s'"
      and l: "\<And>k p n. lookup_conn s' k p n =
         (if k = cn_ApiKey conn \<and> p = cn_Proto conn \<and> n = cn_ConnNum conn
          then None else lookup_conn (stats st) k p n)"
      and b': "BytesInBEAST s' = BytesInBEAST ?s1 \<and> BytesOutBEAST s' = BytesOutBEAST ?s1 \<and>
        BytesInMLAT s' = BytesInMLAT ?s1 \<and> BytesOutMLAT s' = BytesOutMLAT ?s1"
      unfolding lookup_initFeederStats by blast
    have b: "\<And>p. global_bytes s' p = global_bytes (stats st) p"
      using b' global_bytes_cong[of s' ?s1] by simp
    have "lookup_conn s' = reg_set (cn_ApiKey conn) (cn_Proto conn) (cn_ConnNum conn) None
        (lookup_conn (stats st))"
      by (simp add: fun_eq_iff reg_set_def l)
    with s' Some Inr assms b show ?thesis
      by (simp add: UnregisterConnection_def step_ok_def Let_def)
  qed
qed

lemma step_ok_Increment:
  assumes "st_initialised st" "wf_stats (stats st)"
  shows "\<exists>e st'. stats_step (OpIncrement k n p bIn bOut now) st = Ret (e, st') \<and>
                 step_ok (OpIncrement k n p bIn bOut now) st e st'"
proof (cases "lookup_conn (stats st) k p n")
  case None
  from IncrementByteCounters_missing[OF assms(2) None, of bIn bOut now] None assms show ?thesis
    by (auto simp: step_ok_def)
next
  case (Some c)
  from IncrementByteCounters_effect[OF assms(2) Some, of bIn bOut now]
  obtain st' where st': "IncrementByteCounters k n p bIn bOut now st = Ret (None, st')"
      "wf_stats (stats st')" "st_initialised st' = st_initialised st"
    and l: "\<And>k' p' n'. lookup_conn (stats st') k' p' n' =
         (if k' = k \<and> p' = p \<and> n' = n then Some (incremented bIn bOut c)
          else lookup_conn (stats st) k' p' n')"
    and b': "BytesInBEAST (stats st') = BytesInBEAST (add_global p bIn bOut (stats st)) \<and>
      BytesOutBEAST (stats st') = BytesOutBEAST (add_global p bIn bOut (stats st)) \<and>
      BytesInMLAT (stats st') = BytesInMLAT (add_global p bIn bOut (stats st)) \<and>
      BytesOutMLAT (stats st') = BytesOutMLAT (add_global p bIn bOut (stats st))"
    by blast
  have b: "\<And>q. global_bytes (stats st') q = global_bytes (add_global p bIn bOut (stats st)) q"
    using b' global_bytes_cong[of "stats st'" "add_global p bIn bOut (stats st)"] by simp
  have "lookup_conn (stats st') = reg_set k p n (Some (incremented bIn bOut c)) (lookup_conn (stats st))"
    by (simp add: fun_eq_iff reg_set_def l)
  with st' Some assms show ?thesis
    by (simp add: step_ok_def b global_bytes_add_global del: IsValid_iff)
qed

lemma stats_step_ok:
  assumes "st_initialised st" "wf_stats (stats st)"
  shows "\<exists>e st'. stats_step op st = Ret (e, st') \<and> step_ok op st e st'"
proof (cases op)
  case (OpEvict clk)
  then show ?thesis using assms by (simp add: step_ok_def statsEvictorInner_wf)
qed (use assms step_ok_RegisterFeeder step_ok_Register step_ok_Unregister step_ok_Increment in blast)+

section \<open>Runs\<close>

fun stats_run :: "stats_op list \<Rightarrow> stats_state \<Rightarrow> (error list \<times> stats_state) go" where
  "stats_run [] st = Ret ([], st)"
| "stats_run (op # ops) st =
     go_bind (stats_step op st) (\<lambda>(e, st'). go_bind (stats_run ops st') (\<lambda>(es, st''). Ret (e # es, st'')))"

fun spec_run :: "stats_op list \<Rightarrow> registry \<Rightarrow> bool list \<times> registry" where
  "spec_run [] r = ([], r)"
| "spec_run (op # ops) r =
     (let (b, r') = spec_step op r; (bs, r'') = spec_run ops r' in (b # bs, r''))"

text \<open>The bytes per protocol of the operations that did not report an error.\<close>

fun accepted_bytes :: "stats_op list \<Rightarrow> error list \<Rightarrow> protocol \<Rightarrow> u64 \<times> u64" where
  "accepted_bytes (op # ops) (e # es) p =
     (let (i, out) = accepted_bytes ops es p
      in if e = None then (fst (op_bytes op p) + i, snd (op_bytes op p) + out) else (i, out))"
| "accepted_bytes _ _ p = (0, 0)"

lemma stats_run_ok:
  assumes "st_initialised st" "wf_stats (stats st)"
  shows "\<exists>es st'. stats_run ops st = Ret (es, st') \<and> st_initialised st' \<and> wf_stats (stats st') \<and>
     (map (\<lambda>e. e = None) es, lookup_conn (stats st')) = spec_run ops (lookup_conn (stats st)) \<and>
     (\<forall>p. IsValid p \<longrightarrow> global_bytes (stats st') p =
        (fst (global_bytes (stats st) p) + fst (accepted_bytes ops es p),
         snd (global_bytes (stats st) p) + snd (accepted_bytes ops es p)))"
  using assms
proof (induction ops arbitrary: st)
  case Nil
  then show ?case by simp
next
  case (Cons op ops)
  obtain e st1 where s1: "stats_step op st = Ret (e, st1)" "step_ok op st e st1"
    using stats_step_ok[OF Cons.prems] by blast
  then have i1: "st_initialised st1" "wf_stats (stats st1)" by (simp_all add: step_ok_def)
  obtain es st2 where s2: "stats_run ops st1 = Ret (es, st2)" "st_initialised st2"
      "wf_stats (stats st2)"
      "(map (\<lambda>e. e = None) es, lookup_conn (stats st2)) = spec_run ops (lookup_conn (stats st1))"
    and b2: "\<And>p. IsValid p \<Longrightarrow> global_bytes (stats st2) p =
        (fst (global_bytes (stats st1) p) + fst (accepted_bytes ops es p),
         snd (global_bytes (stats st1) p) + snd (accepted_bytes ops es p))"
    using Cons.IH[OF i1] by blast
  have a: "spec_run (op # ops) (lookup_conn (stats st)) =
      (map (\<lambda>e. e = None) (e # es), lookup_conn (stats st2))"
  proof -
    have "spec_step op (lookup_conn (stats st)) = (e = None, lookup_conn (stats st1))"
      using s1(2) by (simp add: step_ok_def)
    then show ?thesis by (simp flip: s2(4))
  qed
  have b: "global_bytes (stats st2) p =
        (fst (global_bytes (stats st) p) + fst (accepted_bytes (op # ops) (e # es) p),
         snd (global_bytes (stats st) p) + snd (accepted_bytes (op # ops) (e # es) p))"
    if v: "IsValid p" for p
  proof -
    have "global_bytes (stats st1) p =
        (if e = None then (fst (global_bytes (stats st) p) + fst (op_bytes op p),
                           snd (global_bytes (stats st) p) + snd (op_bytes op p))
         else global_bytes (stats st) p)"
      using s1(2) v unfolding step_ok_def by blast
    then show ?thesis
      using b2[OF v] by (cases "accepted_bytes ops es p") (simp add: add.assoc)
  qed
  have r: "stats_run (op # ops) st = Ret (e # es, st2)"
    by (simp add: s1(1) s2(1))
  show ?case using r a b s2(2,3) by (metis (no_types, lifting))
qed

lemma stats_run_length: "stats_run ops st = Ret (es, st') \<Longrightarrow> length es = length ops"
proof (induction ops arbitrary: st es)
  case (Cons op ops)
  from Cons.prems obtain e st1 es1 where
    "stats_step op st = Ret (e, st1)" "stats_run ops st1 = Ret (es1, st')" "es = e # es1"
    by (cases "stats_step op st"; cases "stats_run ops (snd (case stats_step op st of Ret x \<Rightarrow> x))")
       (auto split: prod.splits)
  with Cons.IH show ?case by simp
qed simp

text \<open>The state after \<open>Init\<close>: the flag set, nothing stored.\<close>

definition started :: stats_state where
  "started = \<lparr>st_initialised = True, stats = stats_init, prom_log = []\<rparr>"

lemma started_ok [simp]: "st_initialised started" "wf_stats (stats started)"
  "lookup_conn (stats started) = (\<lambda>_ _ _. None)" "global_bytes (stats started) p = (0, 0)"
  by (simp_all add: started_def wf_stats_init fun_eq_iff lookup_conn_def get_feeder_def
      global_bytes_def) (simp_all add: stats_init_def)

text \<open>What a run from \<open>Init\<close> gives, in the form the properties use it.\<close>

lemma started_run:
  obtains es st' where "stats_run ops started = Ret (es, st')" "st_initialised st'"
    "wf_stats (stats st')" "map (\<lambda>e. e = None) es = fst (spec_run ops (\<lambda>_ _ _. None))"
    "lookup_conn (stats st') = snd (spec_run ops (\<lambda>_ _ _. None))"
    "\<And>p. IsValid p \<Longrightarrow> global_bytes (stats st') p = accepted_bytes ops es p"
proof -
  obtain es st' where r: "stats_run ops started = Ret (es, st')" "st_initialised st'"
      "wf_stats (stats st')"
      "(map (\<lambda>e. e = None) es, lookup_conn (stats st')) = spec_run ops (lookup_conn (stats started))"
    and b: "\<forall>p. IsValid p \<longrightarrow> global_bytes (stats st') p =
       (fst (global_bytes (stats started) p) + fst (accepted_bytes ops es p),
        snd (global_bytes (stats started) p) + snd (accepted_bytes ops es p))"
    using stats_run_ok[OF started_ok(1,2), of ops] by (elim exE conjE)
  have "map (\<lambda>e. e = None) es = fst (spec_run ops (\<lambda>_ _ _. None))"
    "lookup_conn (stats st') = snd (spec_run ops (\<lambda>_ _ _. None))"
    by (simp_all flip: r(4)[unfolded started_ok(3)])
  moreover have "global_bytes (stats st') p = accepted_bytes ops es p" if "IsValid p" for p
    using b[rule_format, OF that] by simp
  ultimately show thesis using that r(1,2,3) by blast
qed

text \<open>
  C3. Refinement: after \<open>Init\<close>, every sequence of store operations (feeder registration,
  connection registration and removal, byte counting, eviction) returns without panicking,
  leaves the store well-formed (each feeder has exactly its two protocol entries, counts
  are the sizes of the detail maps and the status says whether there is a connection), and
  reports success or an error exactly as, and ends in exactly the connections of, the
  abstract registry that maps a feeder, protocol and connection number to its data.
\<close>
theorem stats_refines_registry:
  "\<exists>es st'. stats_run ops started = Ret (es, st') \<and> wf_stats (stats st') \<and>
     (map (\<lambda>e. e = None) es, lookup_conn (stats st')) = spec_run ops (\<lambda>_ _ _. None)"
  by (rule started_run[of ops]) (intro exI conjI, assumption+, simp)

text \<open>
  The counts are the registered connections: after any sequence of operations from
  \<open>Init\<close>, \<open>GetNumConnections\<close> returns without error, for every feeder and protocol, the number
  of connections the registry holds for them; the admission check of the proxy reads this
  number.
\<close>
theorem GetNumConnections_counts:
  "\<exists>es st'. stats_run ops started = Ret (es, st') \<and>
     GetNumConnections k p st' = (int (card {n. snd (spec_run ops (\<lambda>_ _ _. None)) k p n \<noteq> None}), None)"
proof (rule started_run[of ops])
  fix es st'
  assume "stats_run ops started = Ret (es, st')" "st_initialised st'" "wf_stats (stats st')"
    "lookup_conn (stats st') = snd (spec_run ops (\<lambda>_ _ _. None))"
  then show ?thesis
    using count_registered(1)[of "stats st'" k p] by (simp add: GetNumConnections_def registered_def)
qed

text \<open>
  Conservation of bytes: after any sequence of operations from \<open>Init\<close>, the global
  counters of a protocol hold the sum, modulo two to the 64, of the bytes of exactly those
  \<open>IncrementByteCounters\<close> calls for it that did not report an error; no other operation
  changes them, also not the removal of a connection or of its feeder.
\<close>
theorem global_bytes_conserved:
  "\<exists>es st'. stats_run ops started = Ret (es, st') \<and> length es = length ops \<and>
     (BytesInBEAST (stats st'), BytesOutBEAST (stats st')) = accepted_bytes ops es BEAST \<and>
     (BytesInMLAT (stats st'), BytesOutMLAT (stats st')) = accepted_bytes ops es MLAT"
proof (rule started_run[of ops])
  fix es st'
  assume r: "stats_run ops started = Ret (es, st')"
    and b: "\<And>p. IsValid p \<Longrightarrow> global_bytes (stats st') p = accepted_bytes ops es p"
  have "global_bytes (stats st') BEAST = (BytesInBEAST (stats st'), BytesOutBEAST (stats st'))"
    "global_bytes (stats st') MLAT = (BytesInMLAT (stats st'), BytesOutMLAT (stats st'))"
    by (simp_all add: global_bytes_def)
  then show ?thesis
    using r stats_run_length[OF r] b[of BEAST] b[of MLAT] by (intro exI[of _ es] exI[of _ st']) simp
qed

section \<open>The registry interface\<close>

text \<open>
  What the proxy relies on when it registers a connection for as long as it serves it: an
  operation either succeeds and changes one connection, or reports an error; the number read
  for a key is the number of connections under it.
\<close>

locale conn_registry =
  fixes inv :: "'s \<Rightarrow> bool"
    and supported :: "'i \<Rightarrow> bool"
    and register :: "'i \<Rightarrow> 's \<Rightarrow> (error \<times> 's) go"
    and unregister :: "'i \<Rightarrow> 's \<Rightarrow> (error \<times> 's) go"
    and num :: "'k \<Rightarrow> 's \<Rightarrow> int"
    and members :: "'s \<Rightarrow> 'i set"
    and key :: "'i \<Rightarrow> 'k"
  assumes register_ok: "inv s \<Longrightarrow> supported i \<Longrightarrow>
      \<exists>s'. register i s = Ret (None, s') \<and> inv s' \<and> members s' = insert i (members s)"
    and unregister_ok: "inv s \<Longrightarrow> i \<in> members s \<Longrightarrow>
      \<exists>s'. unregister i s = Ret (None, s') \<and> inv s' \<and> members s' = members s - {i}"
    and unregister_missing: "inv s \<Longrightarrow> i \<notin> members s \<Longrightarrow>
      \<exists>e s'. unregister i s = Ret (Some e, s') \<and> inv s' \<and> members s' = members s"
    and num_members: "inv s \<Longrightarrow> num k s = int (card {i \<in> members s. key i = k})"
    and finite_members: "inv s \<Longrightarrow> finite {i \<in> members s. key i = k}"
begin

lemma register_num:
  assumes "inv s" "supported i" "i \<notin> members s"
  shows "\<exists>s'. register i s = Ret (None, s') \<and> inv s' \<and>
    num k s' = num k s + (if k = key i then 1 else 0)"
proof -
  obtain s' where s': "register i s = Ret (None, s')" "inv s'" "members s' = insert i (members s)"
    using register_ok[OF assms(1,2)] by blast
  have "{j \<in> members s'. key j = k} =
      (if k = key i then insert i {j \<in> members s. key j = k} else {j \<in> members s. key j = k})"
    using s'(3) by auto
  moreover have "card (insert i {j \<in> members s. key j = k}) = Suc (card {j \<in> members s. key j = k})"
    using assms(3) finite_members[OF assms(1), of k] by (intro card_insert_disjoint) simp_all
  ultimately have "num k s' = num k s + (if k = key i then 1 else 0)"
    using num_members[OF s'(2), of k] num_members[OF assms(1), of k] by (cases "k = key i") simp_all
  with s' show ?thesis by blast
qed

lemma register_unregister:
  assumes "inv s" "supported i" "i \<notin> members s"
  shows "\<exists>s1 s2. register i s = Ret (None, s1) \<and> unregister i s1 = Ret (None, s2) \<and> inv s2 \<and>
    members s2 = members s \<and> (\<forall>k. num k s2 = num k s)"
proof -
  obtain s1 where s1: "register i s = Ret (None, s1)" "inv s1" "members s1 = insert i (members s)"
    using register_ok[OF assms(1,2)] by blast
  then obtain s2 where s2: "unregister i s1 = Ret (None, s2)" "inv s2" "members s2 = members s"
    using unregister_ok[OF s1(2), of i] assms(3) by auto
  with s1 assms(1) num_members show ?thesis by simp
qed

lemma unregister_twice:
  assumes "inv s" "i \<in> members s"
  shows "\<exists>s1 e s2. unregister i s = Ret (None, s1) \<and> unregister i s1 = Ret (Some e, s2) \<and>
    members s2 = members s1"
proof -
  obtain s1 where s1: "unregister i s = Ret (None, s1)" "inv s1" "members s1 = members s - {i}"
    using unregister_ok[OF assms] by blast
  with unregister_missing[OF s1(2), of i] show ?thesis by auto
qed

end

text \<open>
  The store as a registry: a connection is its feeder, protocol and number, the rest of its
  description and the clock are fixed.
\<close>

type_synonym conn_id = "uuid \<times> protocol \<times> u64"

definition conn_of :: "string \<Rightarrow> string \<Rightarrow> string \<Rightarrow> conn_id \<Rightarrow> Connection" where
  "conn_of src dst code i =
     \<lparr>cn_ApiKey = fst i, cn_SrcAddr = src, cn_DstAddr = dst, cn_Proto = fst (snd i),
      cn_FeederCode = code, cn_ConnNum = snd (snd i)\<rparr>"

definition store_inv :: "stats_state \<Rightarrow> bool" where
  "store_inv st \<longleftrightarrow> st_initialised st \<and> wf_stats (stats st)"

definition store_members :: "stats_state \<Rightarrow> conn_id set" where
  "store_members st = {(k, p, n). lookup_conn (stats st) k p n \<noteq> None}"

lemma store_members_key:
  "{i \<in> store_members st. (fst i, fst (snd i)) = kp} =
   (\<lambda>n. (fst kp, snd kp, n)) ` registered (stats st) (fst kp) (snd kp)"
  by (auto simp: store_members_def registered_def)

lemma store_register:
  assumes "store_inv st" "IsValid (cn_Proto conn)"
  shows "\<exists>st'. RegisterConnection conn connected now st = Ret (None, st') \<and> store_inv st' \<and>
     store_members st' = insert (cn_ApiKey conn, cn_Proto conn, cn_ConnNum conn) (store_members st)"
proof -
  obtain e st' where s: "stats_step (OpRegister conn connected now) st = Ret (e, st')"
      "step_ok (OpRegister conn connected now) st e st'"
    using stats_step_ok[of st "OpRegister conn connected now"] assms(1) unfolding store_inv_def by blast
  then have l: "e = None" "lookup_conn (stats st') = reg_set (cn_ApiKey conn) (cn_Proto conn)
      (cn_ConnNum conn) (Some (fresh_detail conn connected)) (lookup_conn (stats st))"
    using assms(2) by (simp_all add: step_ok_def del: IsValid_iff)
  have "store_inv st'" using s(2) by (simp add: step_ok_def store_inv_def)
  with s(1) l show ?thesis by (auto simp: store_members_def reg_set_def)
qed

lemma store_unregister:
  assumes "store_inv st"
  shows "\<exists>e st'. UnregisterConnection conn now st = Ret (e, st') \<and> store_inv st' \<and>
     (e = None \<longleftrightarrow> (cn_ApiKey conn, cn_Proto conn, cn_ConnNum conn) \<in> store_members st) \<and>
     store_members st' = store_members st - {(cn_ApiKey conn, cn_Proto conn, cn_ConnNum conn)}"
proof -
  obtain e st' where s: "stats_step (OpUnregister conn now) st = Ret (e, st')"
      "step_ok (OpUnregister conn now) st e st'"
    using stats_step_ok[of st "OpUnregister conn now"] assms(1) unfolding store_inv_def by blast
  then have l: "(e = None, lookup_conn (stats st')) = spec_step (OpUnregister conn now) (lookup_conn (stats st))"
    by (simp add: step_ok_def)
  have "store_inv st'" using s(2) by (simp add: step_ok_def store_inv_def)
  with s(1) l show ?thesis
    by (intro exI[of _ e] exI[of _ st'])
       (auto simp: store_members_def reg_set_def split: if_splits)
qed

interpretation store: conn_registry store_inv "\<lambda>i. IsValid (fst (snd i))"
  "\<lambda>i. RegisterConnection (conn_of src dst code i) connected now"
  "\<lambda>i. UnregisterConnection (conn_of src dst code i) now'"
  "\<lambda>kp st. fst (GetNumConnections (fst kp) (snd kp) st)" store_members
  "\<lambda>i. (fst i, fst (snd i))"
proof unfold_locales
  fix st i kp
  assume i: "store_inv st"
  show "IsValid (fst (snd i)) \<Longrightarrow> \<exists>s'. RegisterConnection (conn_of src dst code i) connected now st =
      Ret (None, s') \<and> store_inv s' \<and> store_members s' = insert i (store_members st)"
    using store_register[OF i, of "conn_of src dst code i" connected now] by (simp add: conn_of_def)
  show "i \<in> store_members st \<Longrightarrow> \<exists>s'. UnregisterConnection (conn_of src dst code i) now' st =
      Ret (None, s') \<and> store_inv s' \<and> store_members s' = store_members st - {i}"
    using store_unregister[OF i, of "conn_of src dst code i" now'] by (auto simp: conn_of_def)
  show "i \<notin> store_members st \<Longrightarrow> \<exists>e s'. UnregisterConnection (conn_of src dst code i) now' st =
      Ret (Some e, s') \<and> store_inv s' \<and> store_members s' = store_members st"
    using store_unregister[OF i, of "conn_of src dst code i" now'] by (auto simp: conn_of_def)
  have wf: "wf_stats (stats st)" using i by (simp add: store_inv_def)
  show "fst (GetNumConnections (fst kp) (snd kp) st) =
      int (card {i \<in> store_members st. (fst i, fst (snd i)) = kp})"
    unfolding store_members_key using i count_registered(1)[OF wf, of "fst kp" "snd kp"]
    by (simp add: GetNumConnections_def store_inv_def card_image inj_on_def)
  show "finite {i \<in> store_members st. (fst i, fst (snd i)) = kp}"
    unfolding store_members_key using count_registered(3)[OF wf] by simp
qed

text \<open>
  A served connection leaves no trace: registering a connection that is not registered,
  on an initialised well-formed store, succeeds and raises the count of its feeder and
  protocol by one; unregistering it afterwards succeeds, and then every count and the set of
  registered connections are what they were before.
\<close>
theorem register_unregister_roundtrip:
  assumes "st_initialised st" "wf_stats (stats st)" "IsValid p" "lookup_conn (stats st) k p n = None"
  shows "\<exists>st1 st2. RegisterConnection (conn_of src dst code (k, p, n)) connected now st = Ret (None, st1) \<and>
     fst (GetNumConnections k p st1) = fst (GetNumConnections k p st) + 1 \<and>
     UnregisterConnection (conn_of src dst code (k, p, n)) now' st1 = Ret (None, st2) \<and>
     wf_stats (stats st2) \<and>
     (\<forall>k' p'. GetNumConnections k' p' st2 = GetNumConnections k' p' st) \<and>
     (\<forall>k' p' n'. (lookup_conn (stats st2) k' p' n' = None) = (lookup_conn (stats st) k' p' n' = None))"
proof -
  have i: "store_inv st" "(k, p, n) \<notin> store_members st"
    using assms by (simp_all add: store_inv_def store_members_def)
  obtain st1 st2 where r: "RegisterConnection (conn_of src dst code (k, p, n)) connected now st = Ret (None, st1)"
      "UnregisterConnection (conn_of src dst code (k, p, n)) now' st1 = Ret (None, st2)" "store_inv st2"
      "store_members st2 = store_members st"
      "\<forall>kp. fst (GetNumConnections (fst kp) (snd kp) st2) = fst (GetNumConnections (fst kp) (snd kp) st)"
    using store.register_unregister[OF i(1) _ i(2), of src dst code connected now now'] assms(3)
    by (auto simp del: IsValid_iff)
  have "fst (GetNumConnections k p st1) = fst (GetNumConnections k p st) + 1"
    using store.register_num[OF i(1) _ i(2), of src dst code connected now "(k, p)"] assms(3) r(1)
    by (simp del: IsValid_iff)
  moreover have "GetNumConnections k' p' st2 = GetNumConnections k' p' st" for k' p'
    using r(5)[rule_format, of "(k', p')"] r(3) i(1)
    by (simp add: GetNumConnections_def store_inv_def)
  moreover have "(lookup_conn (stats st2) k' p' n' = None) = (lookup_conn (stats st) k' p' n' = None)"
    for k' p' n'
    using r(4) by (simp add: store_members_def set_eq_iff) (metis option.exhaust option.distinct(1))
  ultimately show ?thesis using r(1,2,3) by (auto simp: store_inv_def)
qed

end
