(* ===== verification/ConnTracker.thy ===== *)
theory ConnTracker
  imports GoNet
begin

text \<open>
  The incoming connection tracker of \<open>lib/feedproxy/feedproxy_connections.go\<close>: allocation
  of connection numbers (\<open>getNum\<close>), the admission check of at most three connections per
  source address (\<open>check\<close>), and the evictor (\<open>evict\<close>), which filters the slice in place.

  The lemmas: \<open>getNum\<close> returns whenever some number is unused, and \<open>evict\<close> is a filter.
  \<open>check\<close> counts under a read lock and appends under a second, write lock; the step relation
  \<open>track_step\<close> interleaves these two halves of any number of connections, and \<open>track_run\<close> does
  so under a clock, with the list of admissions. With at most \<open>N\<close> checks between their halves
  no source is admitted more than \<open>2 + N\<close> times within ten seconds, and \<open>2 + N\<close> is reached.
\<close>

record incomingConnection =
  srcIP :: ip
  connTime :: time
  connNum :: u64

record incomingConnectionTracker =
  connections :: "incomingConnection list"
  connectionNumber :: u64

definition new_tracker :: incomingConnectionTracker where
  "new_tracker = \<lparr>connections = [], connectionNumber = 0\<rparr>"

definition maxConnectionsPerProto :: nat where
  "maxConnectionsPerProto = 1"

definition maxIncomingConnectionRequestsPerSrcIP :: nat where
  "maxIncomingConnectionRequestsPerSrcIP = 3"

definition maxIncomingConnectionRequestSeconds :: nat where
  "maxIncomingConnectionRequestSeconds = 10"

section \<open>Connection numbers\<close>

text \<open>\<open>t.connectionNumber++\<close>, twice when the first increment wraps to zero.\<close>

definition bump :: "u64 \<Rightarrow> u64" where
  "bump n = (if n + 1 = 0 then n + 1 + 1 else n + 1)"

definition in_use :: "incomingConnection list \<Rightarrow> u64 \<Rightarrow> bool" where
  "in_use cs n = list_ex (\<lambda>c. n = connNum c) cs"

text \<open>The \<open>for\<close> loop of \<open>getNum\<close>; \<open>None\<close> is a loop that does not end.\<close>

partial_function (option) getNum_loop :: "incomingConnection list \<Rightarrow> u64 \<Rightarrow> u64 option" where
  "getNum_loop cs n =
     (if in_use cs (bump n) then getNum_loop cs (bump n) else Some (bump n))"

definition getNum :: "incomingConnectionTracker \<Rightarrow> (u64 \<times> incomingConnectionTracker) option" where
  "getNum t =
     (case getNum_loop (connections t) (connectionNumber t) of
        None \<Rightarrow> None
      | Some n \<Rightarrow> Some (n, t\<lparr>connectionNumber := n\<rparr>))"

text \<open>\<open>GetConnectionNumber\<close>, with the package's initialised flag.\<close>

definition GetConnectionNumber ::
    "bool \<Rightarrow> incomingConnectionTracker \<Rightarrow> ((u64 \<times> error) \<times> incomingConnectionTracker) option" where
  "GetConnectionNumber initialised t =
     (if \<not> initialised then Some ((0, Some ErrFeedproxyNotInitialised), t)
      else (case getNum t of None \<Rightarrow> None | Some (n, t') \<Rightarrow> Some ((n, None), t')))"

section \<open>Eviction\<close>

text \<open>\<open>!c.connTime.Add(10 s).Before(time.Now())\<close>.\<close>

definition keep_conn :: "time \<Rightarrow> incomingConnection \<Rightarrow> bool" where
  "keep_conn now c =
     (\<not> connTime c + second * int maxIncomingConnectionRequestSeconds < now)"

text \<open>
  The loop ranges over the slice by index \<open>k\<close> and writes the elements it keeps to index
  \<open>i\<close> of the same slice; \<open>clk k\<close> is what \<open>time.Now()\<close> returns in round \<open>k\<close>.
\<close>

function evict_loop ::
    "(nat \<Rightarrow> time) \<Rightarrow> nat \<Rightarrow> nat \<Rightarrow> incomingConnection list \<Rightarrow> incomingConnection list" where
  "evict_loop clk k i buf =
     (if k < length buf then
        (let c = buf ! k in
         if keep_conn (clk k) c then evict_loop clk (Suc k) (Suc i) (buf[i := c])
         else evict_loop clk (Suc k) i buf)
      else take i buf)"
  by pat_completeness auto
termination
  by (relation "measure (\<lambda>(clk, k, i, buf). length buf - k)") auto

declare evict_loop.simps [simp del]

definition evict :: "(nat \<Rightarrow> time) \<Rightarrow> incomingConnectionTracker \<Rightarrow> incomingConnectionTracker" where
  "evict clk t = t\<lparr>connections := evict_loop clk 0 0 (connections t)\<rparr>"

section \<open>Admission\<close>

definition count_src :: "incomingConnection list \<Rightarrow> ip \<Rightarrow> u64" where
  "count_src cs src = foldl (\<lambda>n c. if ip_equal (srcIP c) src then n + 1 else n) 0 cs"

text \<open>The first half of \<open>check\<close>, under the read lock, and its second half, under the write lock.\<close>

definition check_count :: "ip \<Rightarrow> incomingConnectionTracker \<Rightarrow> error" where
  "check_count src t =
     (if count_src (connections t) src \<ge> word_of_nat maxIncomingConnectionRequestsPerSrcIP
      then Some (ErrConnectingTooFrequently maxIncomingConnectionRequestsPerSrcIP
                   maxIncomingConnectionRequestSeconds)
      else None)"

definition check_append ::
    "time \<Rightarrow> ip \<Rightarrow> u64 \<Rightarrow> incomingConnectionTracker \<Rightarrow> incomingConnectionTracker" where
  "check_append now src num t =
     t\<lparr>connections := connections t @ [\<lparr>srcIP = src, connTime = now, connNum = num\<rparr>]\<rparr>"

definition check ::
    "time \<Rightarrow> ip \<Rightarrow> u64 \<Rightarrow> incomingConnectionTracker \<Rightarrow> error \<times> incomingConnectionTracker" where
  "check now src num t =
     (case check_count src t of
        Some e \<Rightarrow> (Some e, t)
      | None \<Rightarrow> (None, check_append now src num t))"

section \<open>getNum returns a fresh number\<close>

lemma bump_nonzero [simp]: "bump n \<noteq> 0"
  by (auto simp: bump_def)

lemma in_use_iff: "in_use cs n \<longleftrightarrow> n \<in> connNum ` set cs"
  by (auto simp: in_use_def list_ex_iff)

lemma unat_pred_less: "x \<noteq> 0 \<Longrightarrow> unat (x - 1) < unat (x :: u64)"
  using unat_gt_0[of x] by (simp add: unat_minus_one)

lemma bump_closer:
  assumes "u \<noteq> 0" "n \<noteq> u" "bump n \<noteq> u"
  shows "unat (u - bump n) < unat (u - n)"
proof -
  have step: "unat (u - (n + 1)) < unat (u - n)"
    using unat_pred_less[of "u - n"] assms(2) by (simp add: diff_diff_eq)
  show ?thesis
  proof (cases "n + 1 = 0")
    case True
    with assms(1) have "u - (n + 1) \<noteq> 0" by simp
    then have closer: "unat (u - (n + 1) - 1) < unat (u - (n + 1))" by (rule unat_pred_less)
    have "bump n = n + 1 + 1"
      using True unfolding bump_def by (rule if_P)
    then have eq: "u - bump n = u - (n + 1) - 1"
      by (simp only: diff_diff_eq)
    show ?thesis unfolding eq by (rule less_trans[OF closer step])
  next
    case False
    with step show ?thesis by (simp add: bump_def)
  qed
qed

lemma getNum_loop_unused:
  "u \<noteq> 0 \<Longrightarrow> \<not> in_use cs u \<Longrightarrow> n \<noteq> u \<Longrightarrow> \<exists>r. getNum_loop cs n = Some r"
proof (induction "unat (u - n)" arbitrary: n rule: less_induct)
  case less
  show ?case
  proof (cases "in_use cs (bump n)")
    case True
    with less.prems have "bump n \<noteq> u" by auto
    with less bump_closer[of u n] True show ?thesis
      by (simp add: getNum_loop.simps[of cs n])
  qed (simp add: getNum_loop.simps[of cs n])
qed

lemma getNum_loop_returns:
  assumes "u \<noteq> 0" "\<not> in_use cs u"
  shows "\<exists>r. getNum_loop cs n = Some r"
proof (cases "in_use cs (bump n)")
  case True
  with assms have "bump n \<noteq> u" by auto
  with getNum_loop_unused[OF assms this] True show ?thesis
    by (simp add: getNum_loop.simps[of cs n])
qed (simp add: getNum_loop.simps[of cs n])

lemma getNum_loop_fresh: "getNum_loop cs n = Some r \<Longrightarrow> r \<noteq> 0 \<and> \<not> in_use cs r"
proof (rule getNum_loop.raw_induct[where P = "\<lambda>cs n r. r \<noteq> 0 \<and> \<not> in_use cs r"])
  fix f cs n r
  assume IH: "\<And>cs n r. f cs n = Some r \<Longrightarrow> r \<noteq> 0 \<and> \<not> in_use cs r"
    and eq: "(if in_use cs (bump n) then f cs (bump n) else Some (bump n)) = Some r"
  show "r \<noteq> 0 \<and> \<not> in_use cs r"
    using IH[of cs "bump n" r] eq by (cases "in_use cs (bump n)") auto
qed

lemma fewer_conns_unused:
  assumes "length cs < 2 ^ 64 - 1"
  shows "\<exists>u. u \<noteq> 0 \<and> \<not> in_use cs u"
proof (rule ccontr)
  assume "\<not> ?thesis"
  then have "UNIV - {0} \<subseteq> connNum ` set cs" by (auto simp: in_use_iff)
  then have "card (UNIV - {0 :: u64}) \<le> card (connNum ` set cs)" by (intro card_mono) auto
  also have "\<dots> \<le> length cs"
    by (meson card_image_le card_length finite_set le_trans)
  finally show False using assms by (simp add: card_Diff_singleton card_word)
qed

section \<open>evict is a filter\<close>

fun keep_from :: "(nat \<Rightarrow> time) \<Rightarrow> nat \<Rightarrow> incomingConnection list \<Rightarrow> incomingConnection list" where
  "keep_from clk k [] = []"
| "keep_from clk k (c # cs) =
     (if keep_conn (clk k) c then c # keep_from clk (Suc k) cs else keep_from clk (Suc k) cs)"

lemma evict_loop_keep_from:
  "i \<le> k \<Longrightarrow> k \<le> length buf \<Longrightarrow>
   evict_loop clk k i buf = take i buf @ keep_from clk k (drop k buf)"
proof (induction clk k i buf rule: evict_loop.induct)
  case (1 clk k i buf)
  show ?case
  proof (cases "k < length buf")
    case True
    then have d: "drop k buf = buf ! k # drop (Suc k) buf" by (simp add: Cons_nth_drop_Suc)
    show ?thesis
    proof (cases "keep_conn (clk k) (buf ! k)")
      case keep: True
      have "drop (Suc k) (buf[i := buf ! k]) = drop (Suc k) buf"
        using "1.prems" by simp
      moreover have "take (Suc i) (buf[i := buf ! k]) = take i buf @ [buf ! k]"
        using True "1.prems" by (simp add: take_Suc_conv_app_nth)
      ultimately show ?thesis
        using "1.IH"(1)[OF True refl keep] True keep "1.prems" d
        by (simp add: evict_loop.simps[of clk k i buf])
    next
      case False
      then show ?thesis
        using "1.IH"(2)[OF True refl False] True "1.prems" d
        by (simp add: evict_loop.simps[of clk k i buf])
    qed
  next
    case False
    with "1.prems" show ?thesis by (subst evict_loop.simps) simp
  qed
qed

lemma keep_from_const: "keep_from (\<lambda>_. now) k cs = filter (keep_conn now) cs"
  by (induction cs arbitrary: k) auto

lemma connections_evict [simp]:
  "connections (evict clk t) = keep_from clk 0 (connections t)"
  by (simp add: evict_def evict_loop_keep_from)

lemma filter_keep_from_le: "length (filter P (keep_from clk k cs)) \<le> length (filter P cs)"
  by (induction cs arbitrary: k) (auto intro: le_SucI)

text \<open>What is young enough for every clock reading stays.\<close>

lemma filter_keep_from_young:
  assumes "\<And>k. clk k \<le> now" and "\<And>c. P c \<Longrightarrow> now \<le> connTime c + 10 * second"
  shows "filter P (keep_from clk k cs) = filter P cs"
proof (induction cs arbitrary: k)
  case (Cons c cs)
  have "P c \<Longrightarrow> keep_conn (clk k) c"
    using assms(1)[of k] assms(2)[of c]
    by (simp add: keep_conn_def maxIncomingConnectionRequestSeconds_def)
  with Cons show ?case by auto
qed simp

section \<open>Counting one source\<close>

definition cnt :: "incomingConnection list \<Rightarrow> ip \<Rightarrow> nat" where
  "cnt cs src = length (filter (\<lambda>c. ip_equal (srcIP c) src) cs)"

lemma cnt_simps [simp]:
  "cnt [] src = 0" "cnt (cs @ ds) src = cnt cs src + cnt ds src"
  "cnt (c # cs) src = (if ip_equal (srcIP c) src then Suc (cnt cs src) else cnt cs src)"
  by (simp_all add: cnt_def)

lemma cnt_cong: "ip_equal s src \<Longrightarrow> cnt cs s = cnt cs src"
  by (simp add: cnt_def ip_equal_canon)

lemma count_src_cnt: "count_src cs src = word_of_nat (cnt cs src)"
  by (induction cs rule: rev_induct) (simp_all add: count_src_def)

lemma check_count_small:
  assumes "cnt (connections t) src < 2 ^ 64"
  shows "check_count src t = None \<longleftrightarrow> cnt (connections t) src < 3"
proof -
  have "unat (word_of_nat (cnt (connections t) src) :: u64) = cnt (connections t) src"
    using assms by (simp add: unat_of_nat)
  then show ?thesis
    by (simp add: check_count_def count_src_cnt maxIncomingConnectionRequestsPerSrcIP_def
        word_le_nat_alt not_le)
qed

lemma connections_check_append [simp]:
  "connections (check_append now src num t) =
     connections t @ [\<lparr>srcIP = src, connTime = now, connNum = num\<rparr>]"
  by (simp add: check_append_def)

lemma getNum_connections: "getNum t = Some (n, t') \<Longrightarrow> connections t' = connections t"
  by (auto simp: getNum_def split: option.splits)

lemma cnt_evict: "cnt (connections (evict clk t)) src \<le> cnt (connections t) src"
  by (simp add: cnt_def filter_keep_from_le)

section \<open>The two halves of check, interleaved\<close>

text \<open>
  \<open>check\<close> releases the read lock before it takes the write lock, so other connections run
  between its halves. \<open>pending\<close> holds the connections between the halves; at most \<open>N\<close> of
  them are there at a time.
\<close>

record tracker_sys =
  trk :: incomingConnectionTracker
  pending :: "(ip \<times> u64) list"

inductive track_step :: "nat \<Rightarrow> tracker_sys \<Rightarrow> tracker_sys \<Rightarrow> bool" for N where
  count_ok: "check_count src (trk s) = None \<Longrightarrow> length (pending s) < N \<Longrightarrow>
    track_step N s (s\<lparr>pending := (src, num) # pending s\<rparr>)"
| count_err: "check_count src (trk s) = Some e \<Longrightarrow> track_step N s s"
| append_half: "pending s = as @ (src, num) # bs \<Longrightarrow>
    track_step N s (s\<lparr>trk := check_append now src num (trk s), pending := as @ bs\<rparr>)"
| evictor: "track_step N s (s\<lparr>trk := evict clk (trk s)\<rparr>)"
| allocate: "getNum (trk s) = Some (n, t') \<Longrightarrow> track_step N s (s\<lparr>trk := t'\<rparr>)"

inductive track_reach :: "nat \<Rightarrow> tracker_sys \<Rightarrow> bool" for N where
  init: "track_reach N \<lparr>trk = new_tracker, pending = []\<rparr>"
| step: "track_reach N s \<Longrightarrow> track_step N s s' \<Longrightarrow> track_reach N s'"

definition pending_from :: "tracker_sys \<Rightarrow> ip \<Rightarrow> nat" where
  "pending_from s src = length (filter (\<lambda>(i, n). ip_equal i src) (pending s))"

definition race_inv :: "nat \<Rightarrow> tracker_sys \<Rightarrow> bool" where
  "race_inv N s \<longleftrightarrow> length (pending s) \<le> N \<and>
     (\<forall>src. cnt (connections (trk s)) src + pending_from s src \<le> 2 + N)"

lemma race_invD:
  "race_inv N s \<Longrightarrow> cnt (connections (trk s)) src + pending_from s src \<le> 2 + N"
  by (simp add: race_inv_def)

lemma pending_from_le: "pending_from s src \<le> length (pending s)"
  by (simp add: pending_from_def)

lemma race_inv_count:
  assumes "race_inv N s" "2 + N < 2 ^ 64" "check_count src (trk s) = None" "length (pending s) < N"
  shows "race_inv N (s\<lparr>pending := (src, num) # pending s\<rparr>)"
proof -
  have "cnt (connections (trk s)) src < 2 ^ 64"
    using race_invD[OF assms(1), of src] assms(2) by linarith
  with assms(3) have "cnt (connections (trk s)) src < 3"
    by (simp add: check_count_small)
  then have "ip_equal src x \<Longrightarrow> cnt (connections (trk s)) x + pending_from s x < 2 + N" for x
    using pending_from_le[of s x] assms(4) by (simp add: cnt_cong[of src x])
  then show ?thesis
    using assms(1,4) by (fastforce simp: race_inv_def pending_from_def)
qed

lemma race_inv_step:
  assumes "track_step N s s'" "race_inv N s" "2 + N < 2 ^ 64"
  shows "race_inv N s'"
  using assms
proof (induction rule: track_step.induct)
  case (count_ok src s num)
  then show ?case by (simp add: race_inv_count)
next
  case (append_half s as src num bs now)
  let ?s' = "s\<lparr>trk := check_append now src num (trk s), pending := as @ bs\<rparr>"
  have eq: "cnt (connections (trk ?s')) x + pending_from ?s' x = cnt (connections (trk s)) x + pending_from s x"
    for x using append_half.hyps by (simp add: pending_from_def)
  have "cnt (connections (trk ?s')) x + pending_from ?s' x \<le> 2 + N" for x
    unfolding eq by (rule race_invD[OF append_half.prems(1)])
  moreover have "length (pending ?s') \<le> N"
    using append_half by (simp add: race_inv_def)
  ultimately show ?case unfolding race_inv_def by blast
next
  case (evictor s clk)
  have "pending_from (s\<lparr>trk := evict clk (trk s)\<rparr>) x = pending_from s x" for x
    by (simp add: pending_from_def)
  with evictor show ?case
    unfolding race_inv_def
    by (auto simp del: connections_evict intro: le_trans[OF add_right_mono[OF cnt_evict]])
next
  case (allocate s n t')
  then show ?case by (simp add: race_inv_def pending_from_def getNum_connections)
qed

lemma race_inv_reach: "track_reach N s \<Longrightarrow> 2 + N < 2 ^ 64 \<Longrightarrow> race_inv N s"
proof (induction rule: track_reach.induct)
  case init
  show ?case by (simp add: race_inv_def pending_from_def new_tracker_def)
next
  case (step s s')
  then show ?case by (blast intro: race_inv_step)
qed

section \<open>Runs under a clock, and the admission guarantee\<close>

text \<open>
  Every run of the operations, with the list of admitted connections (source and time) and
  the time of the last operation; a check is its two halves, with any operations between them.
  An eviction reads the clock once per element; all that is assumed of the readings is that
  they are not later than the current time.
\<close>

inductive track_run :: "nat \<Rightarrow> tracker_sys \<Rightarrow> (ip \<times> time) list \<Rightarrow> time \<Rightarrow> bool" for N where
  start: "track_run N \<lparr>trk = new_tracker, pending = []\<rparr> [] now"
| tick: "track_run N s l now \<Longrightarrow> now \<le> now' \<Longrightarrow> track_run N s l now'"
| number: "track_run N s l now \<Longrightarrow> getNum (trk s) = Some (n, t') \<Longrightarrow> track_run N (s\<lparr>trk := t'\<rparr>) l now"
| evicted: "track_run N s l now \<Longrightarrow> (\<And>k. clk k \<le> now) \<Longrightarrow> track_run N (s\<lparr>trk := evict clk (trk s)\<rparr>) l now"
| counted: "track_run N s l now \<Longrightarrow> check_count src (trk s) = None \<Longrightarrow> length (pending s) < N \<Longrightarrow>
    track_run N (s\<lparr>pending := (src, num) # pending s\<rparr>) l now"
| refused: "track_run N s l now \<Longrightarrow> check_count src (trk s) = Some e \<Longrightarrow> track_run N s l now"
| appended: "track_run N s l now \<Longrightarrow> pending s = as @ (src, num) # bs \<Longrightarrow>
    track_run N (s\<lparr>trk := check_append now src num (trk s), pending := as @ bs\<rparr>) (l @ [(src, now)]) now"

lemma track_run_reach: "track_run N s l now \<Longrightarrow> track_reach N s"
  by (induction rule: track_run.induct) (blast intro: track_reach.intros track_step.intros)+

text \<open>A check that nothing disturbs is one step: its two halves at once.\<close>

lemma track_run_check:
  assumes "track_run N s l now" "length (pending s) < N" "check now src num (trk s) = (None, t')"
  shows "track_run N (s\<lparr>trk := t'\<rparr>) (l @ [(src, now)]) now"
proof -
  from assms(3) have "check_count src (trk s) = None" and t': "t' = check_append now src num (trk s)"
    by (auto simp: check_def split: option.splits)
  from track_run.counted[OF assms(1) this(1) assms(2), of num]
  have "track_run N (s\<lparr>pending := (src, num) # pending s\<rparr>) l now" .
  from track_run.appended[OF this, of "[]" src num "pending s"] show ?thesis by (simp add: t')
qed

definition admitted_in :: "(ip \<times> time) list \<Rightarrow> ip \<Rightarrow> time \<Rightarrow> time \<Rightarrow> nat" where
  "admitted_in l src from_t to_t =
     length (filter (\<lambda>(s, u). ip_equal s src \<and> from_t \<le> u \<and> u \<le> to_t) l)"

definition admitted_since :: "(ip \<times> time) list \<Rightarrow> ip \<Rightarrow> time \<Rightarrow> nat" where
  "admitted_since l src w = length (filter (\<lambda>(s, u). ip_equal s src \<and> w \<le> u) l)"

definition tracked_since :: "incomingConnectionTracker \<Rightarrow> ip \<Rightarrow> time \<Rightarrow> nat" where
  "tracked_since t src w =
     length (filter (\<lambda>c. ip_equal (srcIP c) src \<and> w \<le> connTime c) (connections t))"

definition track_inv :: "nat \<Rightarrow> tracker_sys \<Rightarrow> (ip \<times> time) list \<Rightarrow> time \<Rightarrow> bool" where
  "track_inv N s l now \<longleftrightarrow>
     (\<forall>src w. now \<le> w + 10 * second \<longrightarrow> admitted_since l src w \<le> tracked_since (trk s) src w) \<and>
     (\<forall>src w. admitted_in l src w (w + 10 * second) \<le> 2 + N)"

lemma admitted_in_snoc: "admitted_in (l @ [(s, u)]) src w v =
    (if ip_equal s src \<and> w \<le> u \<and> u \<le> v then Suc (admitted_in l src w v) else admitted_in l src w v)"
  by (simp add: admitted_in_def)

lemma admitted_since_snoc: "admitted_since (l @ [(s, u)]) src w =
    (if ip_equal s src \<and> w \<le> u then Suc (admitted_since l src w) else admitted_since l src w)"
  by (simp add: admitted_since_def)

lemma admitted_in_le_since: "admitted_in l src w v \<le> admitted_since l src w"
  by (induction l) (auto simp: admitted_in_def admitted_since_def)

lemma tracked_since_le_cnt: "tracked_since t src w \<le> cnt (connections t) src"
proof -
  have "length (filter (\<lambda>c. ip_equal (srcIP c) src \<and> w \<le> connTime c) cs) \<le> cnt cs src" for cs
    by (induction cs) auto
  then show ?thesis by (simp add: tracked_since_def)
qed

lemma track_inv_evict:
  assumes "track_inv N s l now" "\<And>k. clk k \<le> now"
  shows "track_inv N (s\<lparr>trk := evict clk (trk s)\<rparr>) l now"
proof -
  have "tracked_since (evict clk t) src w = tracked_since t src w"
    if "now \<le> w + 10 * second" for t src w
    unfolding tracked_since_def connections_evict
    by (rule arg_cong[where f = length], rule filter_keep_from_young[where now = now])
       (use assms(2) that in auto)
  then show ?thesis using assms(1) by (simp add: track_inv_def)
qed

text \<open>The second half: who is between the halves is not tracked yet, so there is room for it.\<close>

lemma track_inv_append:
  assumes inv: "track_inv N s l now" and race: "race_inv N s" and p: "pending s = as @ (src, num) # bs"
  shows "track_inv N (s\<lparr>trk := check_append now src num (trk s), pending := as @ bs\<rparr>) (l @ [(src, now)]) now"
proof -
  have "admitted_in (l @ [(src, now)]) x w (w + 10 * second) \<le> 2 + N" for x w
  proof (cases "ip_equal src x \<and> w \<le> now \<and> now \<le> w + 10 * second")
    case True
    then have "admitted_in l x w (w + 10 * second) \<le> tracked_since (trk s) x w"
      using inv admitted_in_le_since order_trans unfolding track_inv_def by blast
    also have "\<dots> \<le> cnt (connections (trk s)) x" by (rule tracked_since_le_cnt)
    also have "\<dots> < 2 + N"
      using race_invD[OF race, of x] True p by (simp add: pending_from_def)
    finally show ?thesis using True by (simp add: admitted_in_snoc)
  next
    case False
    with inv show ?thesis by (auto simp: admitted_in_snoc track_inv_def)
  qed
  then show ?thesis using inv by (simp add: track_inv_def tracked_since_def admitted_since_snoc)
qed

lemma track_run_inv: "track_run N s l now \<Longrightarrow> 2 + N < 2 ^ 64 \<Longrightarrow> track_inv N s l now"
proof (induction rule: track_run.induct)
  case (start now)
  show ?case by (simp add: track_inv_def admitted_since_def admitted_in_def)
next
  case (number s l now n t')
  then show ?case using getNum_connections by (simp add: track_inv_def tracked_since_def)
next
  case (evicted s l now clk)
  then show ?case by (blast intro: track_inv_evict)
next
  case (appended s l now as src num bs)
  then show ?case using race_inv_reach[OF track_run_reach] by (blast intro: track_inv_append)
qed (auto simp: track_inv_def)

text \<open>The bound is reached: two connections one after the other, then \<open>N\<close> that are counted together.\<close>

lemma run_counts:
  "track_run N s l now \<Longrightarrow> check_count src (trk s) = None \<Longrightarrow> pending s = [] \<Longrightarrow> n \<le> N \<Longrightarrow>
   track_run N (s\<lparr>pending := replicate n (src, num)\<rparr>) l now"
proof (induction n)
  case 0
  have "s\<lparr>pending := []\<rparr> = s" using "0.prems"(3) by (cases s) simp
  then show ?case using "0.prems"(1) by simp
next
  case (Suc n)
  then have "track_run N (s\<lparr>pending := replicate n (src, num)\<rparr>) l now" by simp
  from track_run.counted[OF this, of src num] Suc.prems show ?case by simp
qed

lemma run_appends:
  "track_run N (s\<lparr>pending := replicate n (src, num)\<rparr>) l now \<Longrightarrow>
   \<exists>t. track_run N (s\<lparr>trk := t, pending := []\<rparr>) (l @ replicate n (src, now)) now \<and>
     cnt (connections t) src = cnt (connections (trk s)) src + n"
proof (induction n arbitrary: s l)
  case 0
  then show ?case by (intro exI[of _ "trk s"]) simp
next
  case (Suc n)
  let ?s = "s\<lparr>trk := check_append now src num (trk s)\<rparr>"
  have "track_run N (?s\<lparr>pending := replicate n (src, num)\<rparr>) (l @ [(src, now)]) now"
    using track_run.appended[OF Suc.prems, of "[]" src num "replicate n (src, num)"] by simp
  from Suc.IH[OF this] show ?case by simp
qed

lemma bound_reached:
  assumes "1 \<le> N"
  shows "\<exists>s l. track_run N s l now \<and> pending s = [] \<and> cnt (connections (trk s)) src = 2 + N \<and>
     admitted_in l src now now = 2 + N"
proof -
  let ?s0 = "\<lparr>trk = new_tracker, pending = []\<rparr>"
  let ?t1 = "check_append now src 1 new_tracker" and ?t2 = "check_append now src 2 (check_append now src 1 new_tracker)"
  have none: "check_count src t = None" if "cnt (connections t) src < 3" for t
    using that check_count_small[of t src] by simp
  have c: "check now src 1 new_tracker = (None, ?t1)" "check now src 2 ?t1 = (None, ?t2)" "check_count src ?t2 = None"
    unfolding check_def by (subst none; simp add: new_tracker_def)+
  from track_run_check[OF track_run.start[of N now], of src 1 ?t1] assms c(1)
  have "track_run N (?s0\<lparr>trk := ?t1\<rparr>) [(src, now)] now" by simp
  from track_run_check[OF this, of src 2 ?t2] assms c(2)
  have "track_run N (?s0\<lparr>trk := ?t2\<rparr>) [(src, now), (src, now)] now" by simp
  from run_counts[OF this, of src N 3] c(3)
  have "track_run N ((?s0\<lparr>trk := ?t2\<rparr>)\<lparr>pending := replicate N (src, 3)\<rparr>) [(src, now), (src, now)] now" by simp
  from run_appends[OF this] obtain t where "track_run N (?s0\<lparr>trk := t\<rparr>) ([(src, now), (src, now)] @ replicate N (src, now)) now"
    "cnt (connections t) src = 2 + N"
    by (auto simp: new_tracker_def)
  then show ?thesis
    by (intro exI[of _ "?s0\<lparr>trk := t\<rparr>"] exI[of _ "[(src, now), (src, now)] @ replicate N (src, now)"])
       (simp add: admitted_in_def)
qed

section \<open>Properties\<close>

lemmas tracker_eval = check_def check_count_def check_append_def count_src_def
  maxIncomingConnectionRequestsPerSrcIP_def maxIncomingConnectionRequestSeconds_def
  new_tracker_def ip_equal_def word_le_nat_alt

text \<open>
  C29. \<open>getNum\<close> returns, with a number that is not zero and not the number of a tracked
  connection, whenever the tracker holds fewer than \<open>2^64 - 1\<close> connections, and it changes
  nothing but the counter. When every non-zero number is in use its loop does not end.
\<close>

theorem getNum_returns_fresh:
  "(length (connections t) < 2 ^ 64 - 1 \<longrightarrow>
      (\<exists>n. getNum t = Some (n, t\<lparr>connectionNumber := n\<rparr>) \<and> n \<noteq> 0 \<and> \<not> in_use (connections t) n)) \<and>
   (getNum t = None \<longleftrightarrow> (\<forall>n. n \<noteq> 0 \<longrightarrow> in_use (connections t) n))"
proof -
  have ret: "(\<exists>n. getNum t = Some (n, t\<lparr>connectionNumber := n\<rparr>) \<and> n \<noteq> 0 \<and> \<not> in_use (connections t) n)"
    if u: "u \<noteq> 0" "\<not> in_use (connections t) u" for u
  proof -
    obtain r where "getNum_loop (connections t) (connectionNumber t) = Some r"
      using getNum_loop_returns[OF u] by metis
    then show ?thesis using getNum_loop_fresh by (fastforce simp: getNum_def)
  qed
  have "getNum t = None" if "\<forall>n. n \<noteq> 0 \<longrightarrow> in_use (connections t) n"
    using that getNum_loop_fresh[of "connections t" "connectionNumber t"]
    by (cases "getNum_loop (connections t) (connectionNumber t)") (auto simp: getNum_def)
  moreover have "\<exists>u. u \<noteq> 0 \<and> \<not> in_use (connections t) u \<Longrightarrow> getNum t \<noteq> None"
    using ret by (metis option.distinct(1))
  ultimately show ?thesis
    using ret fewer_conns_unused[of "connections t"] by metis
qed

theorem getNum_returns_fresh_witness:
  "\<exists>n. getNum (check_append 5 [] 1 new_tracker) =
         Some (n, (check_append 5 [] 1 new_tracker)\<lparr>connectionNumber := n\<rparr>) \<and>
       n \<noteq> 0 \<and> \<not> in_use (connections (check_append 5 [] 1 new_tracker)) n"
  using getNum_returns_fresh[of "check_append 5 [] 1 new_tracker"] by (simp add: tracker_eval)

text \<open>
  The in-place loop of \<open>evict\<close> is a filter of the slice, in order: read at one instant,
  it keeps exactly the connections that are at most ten seconds old, and whatever the clock
  does during the loop, it keeps the connection at index \<open>k\<close> exactly when it is young
  enough for the reading of round \<open>k\<close>. The counter is not touched.
\<close>

theorem evict_is_filter:
  "connections (evict (\<lambda>_. now) t) = filter (\<lambda>c. now \<le> connTime c + 10 * second) (connections t) \<and>
   connections (evict clk t) =
     map snd (filter (\<lambda>(k, c). clk k \<le> connTime c + 10 * second) (enumerate 0 (connections t))) \<and>
   connectionNumber (evict clk t) = connectionNumber t"
proof -
  have keep: "keep_conn u c \<longleftrightarrow> u \<le> connTime c + 10 * second" for u c
    by (auto simp: keep_conn_def maxIncomingConnectionRequestSeconds_def)
  then have keep_fun: "keep_conn u = (\<lambda>c. u \<le> connTime c + 10 * second)" for u
    by (simp add: fun_eq_iff)
  have "keep_from clk k cs =
      map snd (filter (\<lambda>(k, c). clk k \<le> connTime c + 10 * second) (enumerate k cs))" for k cs
    by (induction cs arbitrary: k) (auto simp: keep)
  then show ?thesis
    by (simp add: keep_from_const keep_fun) (simp add: evict_def)
qed

text \<open>
  C7. The rate limit: in every run of allocations, evictions and checks under a clock that
  does not go back, in which at most \<open>N\<close> checks are between their two halves at a time, no
  source address is admitted more than \<open>2 + N\<close> times within any ten seconds, and the tracker
  never holds more than \<open>2 + N\<close> connections of one source. For \<open>N = 1\<close>, checks that do not
  overlap, this is the limit of three.
\<close>

theorem admission_rate_limit:
  assumes "track_run N s l now" "2 + N < 2 ^ 64"
  shows "admitted_in l src w (w + 10 * second) \<le> 2 + N \<and> cnt (connections (trk s)) src \<le> 2 + N"
  using track_run_inv[OF assms] race_invD[OF race_inv_reach[OF track_run_reach[OF assms(1)] assms(2)], of src]
  by (simp add: track_inv_def)

theorem admission_rate_limit_witness:
  "\<exists>s l. track_run 1 s l 7 \<and> admitted_in l [1, 2, 3, 4] 7 7 = 3 \<and>
     admitted_in l [1, 2, 3, 4] 0 (10 * second) \<le> 3 \<and> cnt (connections (trk s)) [1, 2, 3, 4] = 3"
proof -
  obtain s l where run: "track_run 1 s l 7" "cnt (connections (trk s)) [1, 2, 3, 4] = 2 + 1"
    "admitted_in l [1, 2, 3, 4] 7 7 = 2 + 1"
    using bound_reached[of 1 7 "[1, 2, 3, 4]"] by blast
  moreover have "admitted_in l [1, 2, 3, 4] 0 (0 + 10 * second) \<le> 2 + 1"
    by (rule admission_rate_limit[OF run(1), THEN conjunct1]) simp
  ultimately show ?thesis by auto
qed

text \<open>
  C8. Overlapping checks, whatever the clock does: under any interleaving of the two halves of
  \<open>check\<close> with each other, with the evictor and with allocations, the connections of one source
  that are tracked or between the halves are at most \<open>2 + N\<close>, where \<open>N\<close> bounds the connections
  that are between the halves; and for every \<open>N\<close> from one on and every source the bound is
  reached, by tracked connections, and even under a clock and with all of them admitted at
  one instant: the limit of three holds when checks do not overlap and is exceeded by one for
  every further overlapping check.
\<close>

theorem overlapping_checks_bound:
  assumes "2 + N < 2 ^ 64"
  shows "(track_reach N s \<longrightarrow> cnt (connections (trk s)) src + pending_from s src \<le> 2 + N) \<and>
    (1 \<le> N \<longrightarrow> (\<exists>s l. track_reach N s \<and> track_run N s l now \<and> pending s = [] \<and>
        cnt (connections (trk s)) src = 2 + N \<and> admitted_in l src now now = 2 + N))"
  using race_invD[OF race_inv_reach[OF _ assms], of s src] bound_reached[of N now src] track_run_reach
  by blast

theorem overlapping_checks_bound_witness:
  "\<exists>s. track_reach 2 s \<and> cnt (connections (trk s)) [9, 9, 9, 9] = 4 \<and>
     cnt (connections (trk s)) [9, 9, 9, 9] + pending_from s [9, 9, 9, 9] \<le> 4"
proof -
  have "\<exists>s l. track_reach 2 s \<and> track_run 2 s l 0 \<and> pending s = [] \<and>
        cnt (connections (trk s)) [9, 9, 9, 9] = 2 + 2 \<and> admitted_in l [9, 9, 9, 9] 0 0 = 2 + 2"
    using overlapping_checks_bound[of 2 _ "[9, 9, 9, 9]" 0] by simp
  then obtain s where r: "track_reach 2 s" "cnt (connections (trk s)) [9, 9, 9, 9] = 4" by auto
  moreover have "cnt (connections (trk s)) [9, 9, 9, 9] + pending_from s [9, 9, 9, 9] \<le> 2 + 2"
    using overlapping_checks_bound[of 2 s "[9, 9, 9, 9]" 0] r(1) by simp
  ultimately show ?thesis by auto
qed

text \<open>
  The address a client is limited by is cut from \<open>RemoteAddr\<close> at the first colon. For an
  IPv4 client that is its address. An IPv6 client's address is written in brackets, so
  nothing is parsed and the limit is applied to the nil address: any three IPv6 clients use
  up the allowance of all of them, and a fourth, whatever its address, is refused.
\<close>

theorem source_address_of_clients:
  "host_ip (itoa_nat (unat a) @ CHR ''.'' # itoa_nat (unat b) @ CHR ''.'' # itoa_nat (unat c) @
            CHR ''.'' # itoa_nat (unat d) @ CHR '':'' # port) = IPv4 (a :: u8) (b :: u8) (c :: u8) (d :: u8) \<and>
   ip_equal (host_ip (CHR ''['' # v6)) (host_ip (CHR ''['' # v6')) \<and>
   (cnt (connections t) (host_ip (CHR ''['' # v6')) = 3 \<longrightarrow>
      check now (host_ip (CHR ''['' # v6)) num t = (Some (ErrConnectingTooFrequently 3 10), t))"
proof -
  have dig: "list_all is_digit (itoa_nat n) \<and> itoa_nat n \<noteq> []" for n
    by (rule itoa_nat_digits)
  have nd: "CHR ''.'' \<notin> set (itoa_nat n)" "CHR '':'' \<notin> set (itoa_nat n)" for n
    using dig[of n] by (auto simp: list_all_iff is_digit_def)
  have lt: "unat (x :: u8) < 256" for x
    using unsigned_less[of x, where ?'a = nat] by simp
  let ?h = "itoa_nat (unat a) @ CHR ''.'' # itoa_nat (unat b) @ CHR ''.'' # itoa_nat (unat c) @
            CHR ''.'' # itoa_nat (unat d)"
  have "go_split (CHR ''.'') ?h =
      [itoa_nat (unat a), itoa_nat (unat b), itoa_nat (unat c), itoa_nat (unat d)]"
    by (simp add: go_split_append go_split_single nd)
  then have "parse_ip_no_colon ?h = IPv4 a b c d"
    by (simp add: parse_ip_no_colon_def parse_octet_itoa lt)
  then have v4: "host_ip (?h @ '':'' @ port) = IPv4 a b c d"
    by (subst colon_host_cut) (auto simp: nd)
  have "cnt (connections t) [] = 3 \<Longrightarrow> check_count [] t \<noteq> None"
    by (subst check_count_small) auto
  then have "cnt (connections t) [] = 3 \<Longrightarrow> check_count [] t = Some (ErrConnectingTooFrequently 3 10)"
    by (auto simp: check_count_def maxIncomingConnectionRequestsPerSrcIP_def
        maxIncomingConnectionRequestSeconds_def split: if_splits)
  with v4 show ?thesis by (simp add: bracket_host_nil check_def)
qed

theorem source_address_of_clients_witness:
  "check 0 (host_ip ''[2001:db8::1]:40000'') 9
     (fold (\<lambda>n. check_append 0 (host_ip ''[fe80::7]:50000'') n) [1, 2, 3] new_tracker) =
   (Some (ErrConnectingTooFrequently 3 10),
    fold (\<lambda>n. check_append 0 (host_ip ''[fe80::7]:50000'') n) [1, 2, 3] new_tracker)"
  using source_address_of_clients[of 0 0 0 0 "[]" "''2001:db8::1]:40000''" "''fe80::7]:50000''"
      "fold (\<lambda>n. check_append 0 (host_ip ''[fe80::7]:50000'') n) [1, 2, 3] new_tracker" 0 9]
  by (simp add: bracket_host_nil tracker_eval)

end
