(* ===== verification/ProxyAuth.thy ===== *)
theory ProxyAuth
  imports FeederDB StatsSpec ConnTracker
begin

text \<open>
  The steps of a proxied connection before data flows, in
  \<open>lib/feedproxy/feedproxy_connections.go\<close>: reading the first data (\<open>readFromClient\<close>), the
  authentication (\<open>authenticateFeeder\<close>), the look-up and dial of the container
  (\<open>lookupContainerTCP\<close>, \<open>dialContainerTCP\<close>), and the repeated check that the feeder is still
  valid (\<open>feederStillValid\<close>).

  Parameters: what the connection, the TLS state, the name service and the dialler answer,
  and the UUID parser. The feeder cache may be refreshed between the two look-ups of an
  authentication, so each look-up has its own.
\<close>

section \<open>Reading and authenticating\<close>

text \<open>\<open>readFromClient\<close>: the result of the read, and whether the connection was closed.\<close>

definition readFromClient :: "string \<times> error \<Rightarrow> (string \<times> error) \<times> bool" where
  "readFromClient answer =
     (case answer of
        (dat, Some e) \<Rightarrow> ((dat, Some e), True)
      | (dat, None) \<Rightarrow> ((dat, None), False))"

record auth_env =
  ae_handshakeComplete :: bool
  ae_uuidFromSNI :: "uuid \<times> error"
  ae_valid :: "atc_feeder list"
  ae_valid_info :: "atc_feeder list"
  ae_now :: time

definition authenticateFeeder :: "auth_env \<Rightarrow> stats_state \<Rightarrow> (feederClient \<times> error) \<times> stats_state" where
  "authenticateFeeder env st =
     (let clientDetails = empty_feederClient in
      if \<not> ae_handshakeComplete env then ((clientDetails, Some ErrTLSHandshakeIncomplete), st)
      else
        let (u, err) = ae_uuidFromSNI env;
            clientDetails = clientDetails\<lparr>clientApiKey := u\<rparr>
        in if err \<noteq> None then ((clientDetails, err), st)
           else if \<not> isValidApiKey (ae_valid env) (clientApiKey clientDetails)
             then ((clientDetails, Some ErrClientSentInvalidAPIKey), st)
           else
             let (err, clientDetails) = getFeederInfo (ae_valid_info env) clientDetails in
             if err \<noteq> None then ((clientDetails, err), st)
             else
               let (err, st1) = RegisterFeeder
                     \<lparr>fd_Label = label clientDetails, fd_FeederCode = feederCode clientDetails,
                      fd_ApiKey = clientApiKey clientDetails\<rparr> (ae_now env) st
               in if err \<noteq> None then ((clientDetails, err), st1) else ((clientDetails, err), st1))"

section \<open>Finding and dialling the container\<close>

record tcp_addr =
  ta_IP :: ip
  ta_Port :: int

text \<open>The loop over the answers: the last IPv4 address seen, and whether there was one.\<close>

fun lookup_loop :: "ip list \<Rightarrow> ip \<times> bool \<Rightarrow> ip \<times> bool" where
  "lookup_loop [] acc = acc"
| "lookup_loop (i # is) (dstIP, found) =
     lookup_loop is (if to4 i \<noteq> None then (i, True) else (dstIP, found))"

definition lookupContainerTCP ::
    "(string \<Rightarrow> go_err + ip list) \<Rightarrow> string \<Rightarrow> int \<Rightarrow> tcp_addr option \<times> error" where
  "lookupContainerTCP lookupIP container port =
     (case lookupIP container of
        Inl e \<Rightarrow> (None, Some e)
      | Inr dstIPs \<Rightarrow>
          let (dstIP, found) = lookup_loop dstIPs ([], False);
              err = (if \<not> found then Some ErrDNSReturnsNoResults else None)
          in (Some \<lparr>ta_IP = dstIP, ta_Port = port\<rparr>, err))"

text \<open>\<open>None\<close> is the nil connection; a nil address with no error cannot occur.\<close>

definition dialContainerTCP ::
    "(string \<Rightarrow> go_err + ip list) \<Rightarrow> (tcp_addr \<Rightarrow> error) \<Rightarrow> string \<Rightarrow> int \<Rightarrow> tcp_addr option \<times> error" where
  "dialContainerTCP lookupIP dial container port =
     (case lookupContainerTCP lookupIP container port of
        (addr, Some e) \<Rightarrow> (None, Some e)
      | (None, None) \<Rightarrow> (None, None)
      | (Some addr, None) \<Rightarrow> (case dial addr of Some e \<Rightarrow> (None, Some e) | None \<Rightarrow> (Some addr, None)))"

section \<open>Still valid\<close>

text \<open>
  \<open>now\<close> is the time of the test, \<open>now'\<close> the time stored; the result is the error and the new
  \<open>lastAuthCheck\<close>.
\<close>

definition feederStillValid ::
    "atc_feeder list \<Rightarrow> uuid \<Rightarrow> duration \<Rightarrow> time \<Rightarrow> time \<Rightarrow> time \<Rightarrow> error \<times> time" where
  "feederStillValid valid apiKey interval now now' lastAuthCheck =
     (if now > lastAuthCheck + interval then
        if \<not> isValidApiKey valid apiKey then (Some ErrFeederNoLongerValid, lastAuthCheck)
        else (None, now')
      else (None, lastAuthCheck))"

section \<open>Properties\<close>

lemma getFeederInfo_key: "getFeederInfo vf c = (e, d) \<Longrightarrow> clientApiKey d = clientApiKey c"
  using feeders.valid_then_info[of vf c] feeders.invalid_then_no_info[of vf c] by (cases "isValidApiKey vf (clientApiKey c)") auto

lemma authenticateFeeder_admits:
  assumes "authenticateFeeder env st = ((d, None), st')"
  shows "ae_handshakeComplete env \<and> snd (ae_uuidFromSNI env) = None \<and>
     clientApiKey d = fst (ae_uuidFromSNI env) \<and> isValidApiKey (ae_valid env) (clientApiKey d)"
  using assms by (auto simp: authenticateFeeder_def Let_def dest: getFeederInfo_key split: if_splits prod.splits)

text \<open>
  C2. Who gets in: authentication succeeds exactly if the TLS handshake is complete, the SNI is
  a UUID, that key is valid at both look-ups and the statistics are up; then the details are
  those of the feeder's entry, for that key, and the feeder's label and code are stored in
  the statistics; every refusal leaves the statistics as they were, and each cause has its
  own error.
\<close>
theorem authenticateFeeder_outcome:
  "case authenticateFeeder env st of ((d, err), st') \<Rightarrow>
     (err = None \<longleftrightarrow> ae_handshakeComplete env \<and> snd (ae_uuidFromSNI env) = None \<and>
        isValidApiKey (ae_valid env) (fst (ae_uuidFromSNI env)) \<and>
        isValidApiKey (ae_valid_info env) (fst (ae_uuidFromSNI env)) \<and> st_initialised st) \<and>
     (if err = None then
        getFeederInfo (ae_valid_info env) (empty_feederClient\<lparr>clientApiKey := fst (ae_uuidFromSNI env)\<rparr>) = (None, d) \<and>
        clientApiKey d = fst (ae_uuidFromSNI env) \<and>
        fs_Label (get_feeder (stats st') (clientApiKey d)) = label d \<and>
        fs_Code (get_feeder (stats st') (clientApiKey d)) = feederCode d
      else st' = st \<and>
        err = (if \<not> ae_handshakeComplete env then Some ErrTLSHandshakeIncomplete
               else if snd (ae_uuidFromSNI env) \<noteq> None then snd (ae_uuidFromSNI env)
               else if \<not> isValidApiKey (ae_valid env) (fst (ae_uuidFromSNI env)) then Some ErrClientSentInvalidAPIKey
               else if \<not> isValidApiKey (ae_valid_info env) (fst (ae_uuidFromSNI env)) then Some ErrFeederNotFound
               else Some ErrStatsNotInitialised))"
proof -
  let ?u = "fst (ae_uuidFromSNI env)"
  let ?c = "empty_feederClient\<lparr>clientApiKey := ?u\<rparr>"
  obtain u e where ue: "ae_uuidFromSNI env = (u, e)" by (cases "ae_uuidFromSNI env")
  show ?thesis
  proof (cases "ae_handshakeComplete env \<and> e = None \<and> isValidApiKey (ae_valid env) u")
    case False
    then show ?thesis by (auto simp: authenticateFeeder_def ue Let_def)
  next
    case True
    show ?thesis
    proof (cases "isValidApiKey (ae_valid_info env) u")
      case False
      then have "getFeederInfo (ae_valid_info env) ?c = (Some ErrFeederNotFound, ?c)"
        by (intro feeders.invalid_then_no_info) (simp add: ue)
      with True False show ?thesis by (simp add: authenticateFeeder_def ue Let_def)
    next
      case info: True
      obtain d where d: "getFeederInfo (ae_valid_info env) ?c = (None, d)" "clientApiKey d = u"
        using feeders.valid_then_info[of "ae_valid_info env" ?c] info by (auto simp: ue)
      with True info show ?thesis
        by (simp add: authenticateFeeder_def ue Let_def RegisterFeeder_def RegisterFeeder_locked_def)
    qed
  qed
qed

lemma lookup_loop_last:
  "lookup_loop is (d, b) =
     (let v4 = filter (\<lambda>i. to4 i \<noteq> None) is in if v4 = [] then (d, b) else (last v4, True))"
  by (induction "is" arbitrary: d b) (simp_all add: Let_def)

text \<open>
  Which address is dialled: a look-up with an answer gives the last IPv4 address of the
  answer, with the port asked for, or the error that there is none; it is the first one
  exactly if first and last coincide. A dial without an error has connected to that address.
\<close>
theorem dial_last_ipv4:
  "case lookupIP name of
      Inl e \<Rightarrow> dialContainerTCP lookupIP dial name port = (None, Some e)
    | Inr answer \<Rightarrow>
        (let v4 = filter (\<lambda>i. to4 i \<noteq> None) answer in
         dialContainerTCP lookupIP dial name port =
           (if v4 = [] then (None, Some ErrDNSReturnsNoResults)
            else case dial \<lparr>ta_IP = last v4, ta_Port = port\<rparr> of
                   Some e \<Rightarrow> (None, Some e)
                 | None \<Rightarrow> (Some \<lparr>ta_IP = last v4, ta_Port = port\<rparr>, None)))"
  by (auto simp: dialContainerTCP_def lookupContainerTCP_def lookup_loop_last Let_def
      split: sum.split option.split)

end
