(* ===== verification/ProxyLoop.thy ===== *)
theory ProxyLoop
  imports ProxyAuth "HOL-Library.Sublist"
begin

text \<open>
  The copying loop \<open>protocolProxy\<close> of \<open>lib/feedproxy/feedproxy_connections.go\<close>, one direction of
  a proxied connection. A round of the loop is a function of what its surroundings answer in
  that round: whether the context is done, the deadlines, the read, the write, the clock, the
  statistics call and the feeder cache. The loop is the fold over the rounds; it may go on
  for ever, and a finite list of rounds is a prefix of its run.
\<close>

datatype proxyDirection = clientToServer | serverToClient

record round_env =
  re_ctx_done :: bool
  re_set_read_deadline :: error
  re_read :: "string \<times> error"  \<comment> \<open>the bytes and the error of \<open>connA.Read\<close>\<close>
  re_set_write_deadline :: error
  re_write :: "nat \<times> error"  \<comment> \<open>the number of bytes written and the error of \<open>connB.Write\<close>\<close>
  re_now_timer :: time  \<comment> \<open>the time compared with the timer\<close>
  re_now_reset :: time  \<comment> \<open>the time the timer is set to\<close>
  re_increment :: error  \<comment> \<open>the answer of the statistics, if they are called\<close>
  re_valid :: "atc_feeder list"
  re_now_auth :: time
  re_now_auth_reset :: time

record proxy_conf =
  pc_clientApiKey :: uuid
  pc_connNum :: u64
  pc_proto :: protocol
  pc_interval :: duration  \<comment> \<open>\<open>feederValidityCheckInterval\<close>\<close>

text \<open>A call to the statistics (key, connection, protocol, bytes in, bytes out) and its answer.\<close>

type_synonym stats_call = "(uuid \<times> u64 \<times> protocol \<times> u64 \<times> u64) \<times> error"

record dir_state =
  ds_timer :: time
  ds_byteCount :: u64
  ds_written :: string  \<comment> \<open>all bytes written to \<open>connB\<close>\<close>
  ds_calls :: "stats_call list"
  ds_result :: "error option"  \<comment> \<open>\<open>None\<close> while it runs, else what it returned\<close>

section \<open>One round\<close>

text \<open>
  Set the read deadline, read, and write what was read. The code drops the first result of
  \<open>Write\<close>; \<open>ds_written\<close> holds what the connection took, also of a write that failed.
\<close>

definition copy_part :: "round_env \<Rightarrow> dir_state \<Rightarrow> error \<times> dir_state" where
  "copy_part re ds =
     (case re_set_read_deadline re of
        Some e \<Rightarrow> (Some e, ds)
      | None \<Rightarrow>
          (case re_read re of
             (dat, Some e) \<Rightarrow> if e \<noteq> ErrDeadline then (Some e, ds) else (None, ds)
           | (dat, None) \<Rightarrow>
               (case re_set_write_deadline re of
                  Some e \<Rightarrow> (Some e, ds)
                | None \<Rightarrow>
                    (let ds = ds\<lparr>ds_written := ds_written ds @ take (fst (re_write re)) dat\<rparr> in
                     case snd (re_write re) of
                       Some e \<Rightarrow> (Some e, ds)
                     | None \<Rightarrow> (None, ds\<lparr>ds_byteCount := ds_byteCount ds + word_of_nat (length dat)\<rparr>)))))"

text \<open>
  The contracts of \<open>io.Reader\<close> and \<open>io.Writer\<close>: a read fills at most the buffer, a write takes
  at most what it is given, and all of it when it returns no error. A read may return data
  together with an error, and a write that fails may have taken a part.
\<close>

definition sendRecvBufferSize :: nat where "sendRecvBufferSize = 32000"

definition io_contract :: "round_env \<Rightarrow> bool" where
  "io_contract re \<longleftrightarrow> length (fst (re_read re)) \<le> sendRecvBufferSize \<and>
     (if snd (re_read re) = None
      then fst (re_write re) \<le> length (fst (re_read re)) \<and>
        (if snd (re_write re) = None then fst (re_write re) = length (fst (re_read re)) else True)
      else True)"

definition increment_args :: "proxy_conf \<Rightarrow> proxyDirection \<Rightarrow> u64 \<Rightarrow> uuid \<times> u64 \<times> protocol \<times> u64 \<times> u64" where
  "increment_args conf dir bytes =
     (case dir of
        clientToServer \<Rightarrow> (pc_clientApiKey conf, pc_connNum conf, pc_proto conf, bytes, 0)
      | serverToClient \<Rightarrow> (pc_clientApiKey conf, pc_connNum conf, pc_proto conf, 0, bytes))"

text \<open>Report the bytes every second.\<close>

definition count_part :: "proxy_conf \<Rightarrow> proxyDirection \<Rightarrow> round_env \<Rightarrow> dir_state \<Rightarrow> error \<times> dir_state" where
  "count_part conf dir re ds =
     (if re_now_timer re > ds_timer ds + second then
        let ds = ds\<lparr>ds_timer := re_now_reset re,
                    ds_calls := ds_calls ds @ [(increment_args conf dir (ds_byteCount ds), re_increment re)]\<rparr>
        in (case re_increment re of
              Some e \<Rightarrow> (Some e, ds)
            | None \<Rightarrow> (None, ds\<lparr>ds_byteCount := 0\<rparr>))
      else (None, ds))"

text \<open>The body of the loop; \<open>lastAuthCheck\<close> is shared by the two directions.\<close>

definition protocolProxy_round ::
    "proxy_conf \<Rightarrow> proxyDirection \<Rightarrow> bool \<Rightarrow> round_env \<Rightarrow> dir_state \<Rightarrow> time \<Rightarrow> dir_state \<times> time" where
  "protocolProxy_round conf dir done re ds lastAuthCheck =
     (if done then (ds\<lparr>ds_result := Some None\<rparr>, lastAuthCheck)
      else
        (case copy_part re ds of
           (Some e, ds1) \<Rightarrow> (ds1\<lparr>ds_result := Some (Some e)\<rparr>, lastAuthCheck)
         | (None, ds1) \<Rightarrow>
             (case count_part conf dir re ds1 of
                (Some e, ds2) \<Rightarrow> (ds2\<lparr>ds_result := Some (Some e)\<rparr>, lastAuthCheck)
              | (None, ds2) \<Rightarrow>
                  (case feederStillValid (re_valid re) (pc_clientApiKey conf) (pc_interval conf)
                          (re_now_auth re) (re_now_auth_reset re) lastAuthCheck of
                     (Some e, t) \<Rightarrow> (ds2\<lparr>ds_result := Some (Some e)\<rparr>, t)
                   | (None, t) \<Rightarrow> (ds2, t)))))"

section \<open>The two directions of a connection\<close>

text \<open>
  The goroutines of \<open>Start\<close>: each direction runs its loop, and when it returns it cancels the
  connection's context. A BEAST connection has only the first.
\<close>

record pair_state =
  ps_c2s :: dir_state
  ps_s2c :: dir_state
  ps_lastAuthCheck :: time
  ps_cancelled :: bool

definition dir_of :: "proxyDirection \<Rightarrow> pair_state \<Rightarrow> dir_state" where
  "dir_of dir ps = (case dir of clientToServer \<Rightarrow> ps_c2s ps | serverToClient \<Rightarrow> ps_s2c ps)"

definition set_dir :: "proxyDirection \<Rightarrow> dir_state \<Rightarrow> pair_state \<Rightarrow> pair_state" where
  "set_dir dir ds ps =
     (case dir of clientToServer \<Rightarrow> ps\<lparr>ps_c2s := ds\<rparr> | serverToClient \<Rightarrow> ps\<lparr>ps_s2c := ds\<rparr>)"

definition pair_round :: "proxy_conf \<Rightarrow> proxyDirection \<times> round_env \<Rightarrow> pair_state \<Rightarrow> pair_state" where
  "pair_round conf r ps =
     (let dir = fst r; ds = dir_of dir ps in
      if ds_result ds \<noteq> None then ps
      else let (ds1, t) = protocolProxy_round conf dir (re_ctx_done (snd r) \<or> ps_cancelled ps) (snd r) ds
                            (ps_lastAuthCheck ps)
           in (set_dir dir ds1 ps)\<lparr>ps_lastAuthCheck := t,
                  ps_cancelled := (ps_cancelled ps \<or> ds_result ds1 \<noteq> None)\<rparr>)"

fun pair_run :: "proxy_conf \<Rightarrow> (proxyDirection \<times> round_env) list \<Rightarrow> pair_state \<Rightarrow> pair_state" where
  "pair_run conf [] ps = ps"
| "pair_run conf (r # rs) ps = pair_run conf rs (pair_round conf r ps)"

definition fresh_dir :: "time \<Rightarrow> dir_state" where
  "fresh_dir now = \<lparr>ds_timer = now, ds_byteCount = 0, ds_written = [], ds_calls = [], ds_result = None\<rparr>"

definition pair_start :: "protocol \<Rightarrow> time \<Rightarrow> time \<Rightarrow> time \<Rightarrow> pair_state" where
  "pair_start proto lastAuthCheck now1 now2 =
     \<lparr>ps_c2s = fresh_dir now1,
      ps_s2c = (if proto = MLAT then fresh_dir now2 else (fresh_dir now2)\<lparr>ds_result := Some None\<rparr>),
      ps_lastAuthCheck = lastAuthCheck, ps_cancelled = False\<rparr>"

section \<open>Bytes\<close>

text \<open>The bytes of the calls the statistics accepted.\<close>

fun call_bytes :: "proxyDirection \<Rightarrow> stats_call \<Rightarrow> u64" where
  "call_bytes clientToServer ((k, n, p, bIn, bOut), e) = (if e = None then bIn else 0)"
| "call_bytes serverToClient ((k, n, p, bIn, bOut), e) = (if e = None then bOut else 0)"

definition counted :: "proxyDirection \<Rightarrow> dir_state \<Rightarrow> u64" where
  "counted dir ds = sum_list (map (call_bytes dir) (ds_calls ds))"

text \<open>
  What a direction wrote is what the statistics accepted, what it still holds uncounted, and what
  was lost to them: the part a failed write had taken, with which the direction ended. \<open>W\<close>
  holds the rounds.
\<close>

definition bytes_ok :: "proxy_conf \<Rightarrow> proxyDirection \<Rightarrow> round_env set \<Rightarrow> dir_state \<Rightarrow> bool" where
  "bytes_ok conf dir W ds \<longleftrightarrow>
     (\<exists>lost. word_of_nat (length (ds_written ds)) = counted dir ds + ds_byteCount ds + word_of_nat lost \<and>
        (lost = 0 \<or> (\<exists>re e. re \<in> W \<and> re_write re = (lost, Some e) \<and> ds_result ds = Some (Some e) \<and>
            snd (re_read re) = None \<and> lost \<le> length (fst (re_read re))))) \<and>
     list_all (\<lambda>c. fst c \<in> range (increment_args conf dir)) (ds_calls ds)"

text \<open>The same while a direction runs: nothing is lost.\<close>

definition bytes_even :: "proxy_conf \<Rightarrow> proxyDirection \<Rightarrow> dir_state \<Rightarrow> bool" where
  "bytes_even conf dir ds \<longleftrightarrow>
     word_of_nat (length (ds_written ds)) = counted dir ds + ds_byteCount ds \<and>
     list_all (\<lambda>c. fst c \<in> range (increment_args conf dir)) (ds_calls ds)"

lemma bytes_ok_running: "bytes_ok conf dir W ds \<Longrightarrow> ds_result ds = None \<Longrightarrow> bytes_even conf dir ds"
  by (auto simp: bytes_ok_def bytes_even_def)

lemma bytes_even_ok: "bytes_even conf dir ds \<Longrightarrow> bytes_ok conf dir W ds"
  by (auto simp: bytes_ok_def bytes_even_def intro: exI[of _ 0])

lemma bytes_ok_mono: "bytes_ok conf dir W ds \<Longrightarrow> W \<subseteq> W' \<Longrightarrow> bytes_ok conf dir W' ds"
  unfolding bytes_ok_def by blast

lemma call_bytes_increment [simp]:
  "call_bytes dir (increment_args conf dir n, e) = (if e = None then n else 0)"
  by (cases dir) (simp_all add: increment_args_def)

lemma copy_part_bytes:
  assumes "bytes_even conf dir ds" "copy_part re ds = (e, ds1)" "io_contract re"
  shows "ds_result ds1 = ds_result ds" "e = None \<Longrightarrow> bytes_even conf dir ds1"
    "bytes_ok conf dir {re} (ds1\<lparr>ds_result := Some e\<rparr>)"
proof -
  obtain dat err where rd: "re_read re = (dat, err)" by (cases "re_read re")
  obtain n werr where w: "re_write re = (n, werr)" by (cases "re_write re")
  have even: "ds_written ds1 = ds_written ds \<and> ds_byteCount ds1 = ds_byteCount ds \<or>
      werr = None \<and> ds_written ds1 = ds_written ds @ dat \<and>
        ds_byteCount ds1 = ds_byteCount ds + word_of_nat (length dat) \<or>
      (\<exists>we. werr = Some we \<and> e = Some we \<and> err = None \<and> n \<le> length dat \<and> ds_written ds1 = ds_written ds @ take n dat \<and>
        ds_byteCount ds1 = ds_byteCount ds)"
    and same: "ds_calls ds1 = ds_calls ds" "ds_result ds1 = ds_result ds"
    using assms(2,3) rd w
    by (auto simp: copy_part_def io_contract_def Let_def split: option.splits if_splits)
  from same show "ds_result ds1 = ds_result ds" by simp
  show "bytes_even conf dir ds1" if "e = None"
    using even same assms(1) that by (auto simp: bytes_even_def counted_def add.assoc)
  show "bytes_ok conf dir {re} (ds1\<lparr>ds_result := Some e\<rparr>)"
    using even
  proof (elim disjE exE conjE)
    fix we
    assume "werr = Some we" "e = Some we" "err = None" "n \<le> length dat" "ds_written ds1 = ds_written ds @ take n dat"
      "ds_byteCount ds1 = ds_byteCount ds"
    then show ?thesis using same assms(1) w rd
      unfolding bytes_ok_def bytes_even_def by (intro conjI exI[of _ n]) (simp_all add: counted_def min_def)
  qed (use same assms(1) in \<open>auto simp: bytes_ok_def bytes_even_def counted_def add.assoc intro!: exI[of _ 0]\<close>)
qed

lemma count_part_bytes:
  assumes "bytes_even conf dir ds" "count_part conf dir re ds = (e, ds1)"
  shows "bytes_even conf dir ds1" "ds_result ds1 = ds_result ds"
  using assms
  by (auto simp: count_part_def bytes_even_def counted_def Let_def split: option.splits if_splits)

lemma bytes_even_result [simp]: "bytes_even conf dir (ds\<lparr>ds_result := r\<rparr>) = bytes_even conf dir ds"
  by (simp add: bytes_even_def counted_def)

lemma round_bytes:
  assumes "bytes_even conf dir ds" "protocolProxy_round conf dir done re ds t = (ds', t')" "io_contract re"
  shows "bytes_ok conf dir {re} ds'"
proof (cases "done")
  case True
  with assms show ?thesis by (auto simp: protocolProxy_round_def intro!: bytes_even_ok)
next
  case False
  obtain e1 ds1 where c: "copy_part re ds = (e1, ds1)" by (cases "copy_part re ds")
  obtain e2 ds2 where n: "count_part conf dir re ds1 = (e2, ds2)" by (cases "count_part conf dir re ds1")
  note cp = copy_part_bytes[OF assms(1) c assms(3)]
  show ?thesis
  proof (cases e1)
    case None
    then have "bytes_even conf dir ds2" using cp count_part_bytes(1)[OF _ n] by simp
    with None show ?thesis using assms(2) False c n
      by (auto simp: protocolProxy_round_def split: option.splits prod.splits intro!: bytes_even_ok)
  next
    case (Some e)
    then show ?thesis using assms(2) False c cp(3) by (simp add: protocolProxy_round_def)
  qed
qed

lemma dir_of_set_dir [simp]:
  "dir_of d (set_dir d' ds ps) = (if d = d' then ds else dir_of d ps)"
  "dir_of d (ps\<lparr>ps_lastAuthCheck := t, ps_cancelled := b\<rparr>) = dir_of d ps"
  by (cases d; cases d'; simp add: dir_of_def set_dir_def)+

lemma set_dir_other [simp]:
  "ps_lastAuthCheck (set_dir d ds ps) = ps_lastAuthCheck ps" "ps_cancelled (set_dir d ds ps) = ps_cancelled ps"
  by (cases d; simp add: set_dir_def)+

text \<open>A round concerns its own direction only.\<close>

lemma pair_round_dir:
  "dir_of d (pair_round conf (d', re) ps) =
     (if d = d' \<and> ds_result (dir_of d ps) = None
      then fst (protocolProxy_round conf d (re_ctx_done re \<or> ps_cancelled ps) re (dir_of d ps) (ps_lastAuthCheck ps))
      else dir_of d ps)"
  by (auto simp: pair_round_def Let_def split: prod.split)

text \<open>The rounds of a direction.\<close>

definition rounds_of :: "proxyDirection \<Rightarrow> (proxyDirection \<times> round_env) list \<Rightarrow> round_env set" where
  "rounds_of dir rs = {re. (dir, re) \<in> set rs}"

lemma pair_round_bytes:
  assumes "bytes_ok conf dir W (dir_of dir ps)" "io_contract (snd r)"
  shows "bytes_ok conf dir (W \<union> rounds_of dir [r]) (dir_of dir (pair_round conf r ps))"
proof -
  obtain d re where r: "r = (d, re)" by (cases r)
  show ?thesis
  proof (cases "dir = d \<and> ds_result (dir_of dir ps) = None")
    case True
    then have "bytes_even conf d (dir_of d ps)" using assms(1) bytes_ok_running by blast
    then have "bytes_ok conf d {re} (fst (protocolProxy_round conf d b re (dir_of d ps) t))" for b t
      using round_bytes assms(2) by (metis prod.collapse r snd_conv)
    moreover have "{re} \<subseteq> W \<union> rounds_of dir [r]" using True by (simp add: rounds_of_def r)
    ultimately show ?thesis using True by (auto simp: r pair_round_dir intro: bytes_ok_mono)
  next
    case False
    then have "dir_of dir (pair_round conf r ps) = dir_of dir ps" by (auto simp: r pair_round_dir)
    then show ?thesis using assms(1) by (auto intro: bytes_ok_mono)
  qed
qed

lemma pair_run_bytes:
  "bytes_ok conf dir W (dir_of dir ps) \<Longrightarrow> \<forall>r \<in> set rs. io_contract (snd r) \<Longrightarrow>
   bytes_ok conf dir (W \<union> rounds_of dir rs) (dir_of dir (pair_run conf rs ps))"
proof (induction rs arbitrary: ps W)
  case (Cons r rs)
  have "W \<union> rounds_of dir [r] \<union> rounds_of dir rs = W \<union> rounds_of dir (r # rs)" by (auto simp: rounds_of_def)
  with Cons.IH[of "W \<union> rounds_of dir [r]" "pair_round conf r ps"] Cons.prems pair_round_bytes show ?case by simp
qed (auto intro: bytes_ok_mono)

lemma pair_start_dir:
  "dir_of d (pair_start proto t n1 n2) = (fresh_dir (case d of clientToServer \<Rightarrow> n1 | serverToClient \<Rightarrow> n2))
     \<lparr>ds_result := (if d = serverToClient \<and> proto \<noteq> MLAT then Some None else None)\<rparr>"
  by (cases d) (simp_all add: dir_of_def pair_start_def fresh_dir_def)

lemma pair_start_even: "bytes_even conf d (dir_of d (pair_start proto t n1 n2))"
  by (simp add: pair_start_dir bytes_even_def counted_def fresh_dir_def)

text \<open>A round of a connection whose cache is empty, and one that reads and writes.\<close>

definition quiet_round :: "time \<Rightarrow> round_env" where
  "quiet_round now = \<lparr>re_ctx_done = False, re_set_read_deadline = None, re_read = ([], Some ErrDeadline),
     re_set_write_deadline = None, re_write = (0, None), re_now_timer = now, re_now_reset = now,
     re_increment = None, re_valid = [], re_now_auth = now, re_now_auth_reset = now\<rparr>"

definition conf0 :: proxy_conf where
  "conf0 = \<lparr>pc_clientApiKey = 7, pc_connNum = 1, pc_proto = BEAST, pc_interval = 60 * second\<rparr>"

definition read_write :: "string \<times> error \<Rightarrow> nat \<times> error \<Rightarrow> round_env" where
  "read_write r w = (quiet_round second)\<lparr>re_read := r, re_write := w\<rparr>"

text \<open>
  C12. Every byte is accounted for: after any rounds of the two directions, in any interleaving,
  the bytes a direction has written are, modulo two to the 64, those of its calls that the
  statistics accepted plus the bytes it still holds uncounted plus \<open>lost\<close>; nothing is lost
  unless the direction has ended with the error of a write, and then it is what this write had
  taken before it failed, part of one read and so at most 32000 bytes. All its calls name
  this connection's feeder, number and protocol, with the bytes in for the direction from the
  client and the bytes out for the other. What is uncounted or lost when the direction returns
  is never reported. The reads and writes keep the contracts of \<open>io.Reader\<close> and \<open>io.Writer\<close>.
\<close>
theorem proxy_accounts_for_bytes:
  assumes "\<forall>r \<in> set rs. io_contract (snd r)"
  shows "let ds = dir_of dir (pair_run conf rs (pair_start proto t n1 n2)) in
     (\<exists>lost \<le> sendRecvBufferSize.
        word_of_nat (length (ds_written ds)) = counted dir ds + ds_byteCount ds + word_of_nat lost \<and>
        (lost = 0 \<or>
         (\<exists>re e. (dir, re) \<in> set rs \<and> re_write re = (lost, Some e) \<and> ds_result ds = Some (Some e) \<and>
            snd (re_read re) = None \<and> lost \<le> length (fst (re_read re))))) \<and>
     list_all (\<lambda>c. fst c \<in> range (increment_args conf dir)) (ds_calls ds)"
proof -
  let ?ds = "dir_of dir (pair_run conf rs (pair_start proto t n1 n2))"
  have ok: "bytes_ok conf dir (rounds_of dir rs) ?ds"
    using pair_run_bytes[OF bytes_even_ok[OF pair_start_even, where W = "{}"] assms] by simp
  then obtain lost where "word_of_nat (length (ds_written ?ds)) = counted dir ?ds + ds_byteCount ?ds + word_of_nat lost"
    and lost: "lost = 0 \<or> (\<exists>re e. (dir, re) \<in> set rs \<and> re_write re = (lost, Some e) \<and> ds_result ?ds = Some (Some e) \<and>
            snd (re_read re) = None \<and> lost \<le> length (fst (re_read re)))"
    unfolding bytes_ok_def rounds_of_def by (elim conjE exE) simp
  moreover have "lost \<le> sendRecvBufferSize"
    using lost assms by (fastforce simp: io_contract_def)
  ultimately show ?thesis using ok unfolding Let_def bytes_ok_def by blast
qed

text \<open>The second write takes two of four bytes and fails: they are written and never counted.\<close>

theorem proxy_accounts_for_bytes_witness:
  "let ds = dir_of clientToServer (pair_run conf0
       [(clientToServer, read_write (''abc'', None) (3, None)),
        (clientToServer, read_write (''defg'', None) (2, Some ErrDeadline))] (pair_start BEAST 0 0 0)) in
     ds_written ds = ''abcde'' \<and> ds_byteCount ds = 3 \<and> ds_result ds = Some (Some ErrDeadline) \<and>
     (\<exists>lost \<le> sendRecvBufferSize. (5 :: u64) = counted clientToServer ds + 3 + word_of_nat lost \<and> lost \<noteq> 0)"
proof -
  let ?rs = "[(clientToServer, read_write (''abc'', None) (3, None)),
        (clientToServer, read_write (''defg'', None) (2, Some ErrDeadline))]"
  let ?ds = "dir_of clientToServer (pair_run conf0 ?rs (pair_start BEAST 0 0 0))"
  have c: "\<forall>r \<in> set ?rs. io_contract (snd r)"
    by (simp add: io_contract_def read_write_def sendRecvBufferSize_def)
  have v: "ds_written ?ds = ''abcde''" "ds_byteCount ?ds = 3" "ds_result ?ds = Some (Some ErrDeadline)"
    "counted clientToServer ?ds = 0"
    by code_simp+
  obtain lost where "lost \<le> sendRecvBufferSize"
    "word_of_nat (length (ds_written ?ds)) = counted clientToServer ?ds + ds_byteCount ?ds + word_of_nat lost"
    using proxy_accounts_for_bytes[OF c, of clientToServer conf0 BEAST 0 0 0] unfolding Let_def by (elim exE conjE)
  then have l: "lost \<le> sendRecvBufferSize" "(5 :: u64) = counted clientToServer ?ds + 3 + word_of_nat lost" "lost \<noteq> 0"
    unfolding v by (auto intro: gr0I)
  show ?thesis unfolding Let_def by (intro conjI exI[of _ lost] v l)
qed

section \<open>Order\<close>

text \<open>
  The reads of a direction, each with its data and its error, and the bytes its source has handed
  over in them, with or without an error.
\<close>

definition reads_of :: "proxyDirection \<Rightarrow> (proxyDirection \<times> round_env) list \<Rightarrow> (string \<times> error) list" where
  "reads_of dir rs = map (re_read \<circ> snd) (filter (\<lambda>r. fst r = dir) rs)"

definition received :: "proxyDirection \<Rightarrow> (proxyDirection \<times> round_env) list \<Rightarrow> string" where
  "received dir rs = concat (map fst (reads_of dir rs))"

text \<open>The bytes of the reads that returned no error.\<close>

definition clean_bytes :: "proxyDirection \<Rightarrow> (proxyDirection \<times> round_env) list \<Rightarrow> string" where
  "clean_bytes dir rs = concat (map fst (filter (\<lambda>(dat, e). e = None) (reads_of dir rs)))"

lemma reads_of_Cons [simp]:
  "reads_of dir [] = []" "reads_of dir ((d, re) # rs) = (if d = dir then [re_read re] else []) @ reads_of dir rs"
  by (simp_all add: reads_of_def)

lemma clean_bytes_Cons [simp]:
  "clean_bytes dir [] = []"
  "clean_bytes dir ((d, re) # rs) = (if d = dir \<and> snd (re_read re) = None then fst (re_read re) else []) @ clean_bytes dir rs"
  by (simp_all add: clean_bytes_def split_def)

lemma protocolProxy_round_written:
  assumes "protocolProxy_round conf dir done re ds t = (ds', t')" "ds_result ds = None" "io_contract re"
  defines "dat \<equiv> if snd (re_read re) = None then fst (re_read re) else []"
  shows "(if ds_result ds' = None then ds_written ds' = ds_written ds @ dat else True) \<and>
     (\<exists>w. ds_written ds' = ds_written ds @ w \<and> prefix w dat)"
proof -
  have cp: "ds_written ds2 = ds_written ds1 \<and> ds_result ds2 = ds_result ds1"
    if "count_part conf dir re ds1 = (e, ds2)" for ds1 ds2 e
    using that by (auto simp: count_part_def Let_def split: option.splits if_splits)
  have cpy: "(if e = None then ds_written ds1 = ds_written ds @ dat else True) \<and>
      (\<exists>w. ds_written ds1 = ds_written ds @ w \<and> prefix w dat)"
    if "copy_part re ds = (e, ds1)" for e ds1
    using that assms(3) unfolding dat_def
    by (auto simp: copy_part_def io_contract_def Let_def take_is_prefix split: option.splits prod.splits if_splits)
  obtain e1 ds1 where c: "copy_part re ds = (e1, ds1)" by (cases "copy_part re ds")
  obtain e2 ds2 where n: "count_part conf dir re ds1 = (e2, ds2)" by (cases "count_part conf dir re ds1")
  show ?thesis
    using assms(1,2) cpy[OF c] cp[OF n] c n
    by (cases "done"; cases e1; cases e2)
       (auto simp: protocolProxy_round_def split: option.splits prod.splits)
qed

lemma pair_run_written:
  "\<forall>r \<in> set rs. io_contract (snd r) \<Longrightarrow>
   \<exists>w. ds_written (dir_of dir (pair_run conf rs ps)) = ds_written (dir_of dir ps) @ w \<and>
     prefix w (clean_bytes dir rs) \<and>
     (ds_result (dir_of dir (pair_run conf rs ps)) = None \<longrightarrow>
        ds_result (dir_of dir ps) = None \<and> w = clean_bytes dir rs) \<and>
     (ds_result (dir_of dir ps) \<noteq> None \<longrightarrow> w = [])"
proof (induction rs arbitrary: ps)
  case (Cons r rs)
  obtain d re where r: "r = (d, re)" by (cases r)
  let ?ps = "pair_round conf r ps"
  have c: "\<forall>r \<in> set rs. io_contract (snd r)" using Cons.prems by simp
  obtain w where w: "ds_written (dir_of dir (pair_run conf rs ?ps)) = ds_written (dir_of dir ?ps) @ w"
      "prefix w (clean_bytes dir rs)"
      "ds_result (dir_of dir (pair_run conf rs ?ps)) = None \<longrightarrow>
         ds_result (dir_of dir ?ps) = None \<and> w = clean_bytes dir rs"
      "ds_result (dir_of dir ?ps) \<noteq> None \<longrightarrow> w = []"
    using Cons.IH[OF c, of ?ps] by (elim exE conjE) (rule that)
  show ?case
  proof (cases "dir = d \<and> ds_result (dir_of dir ps) = None")
    case False
    then have same: "dir_of dir ?ps = dir_of dir ps" by (auto simp: r pair_round_dir)
    with False w show ?thesis by (cases "dir = d"; intro exI[of _ w]) (auto simp: r)
  next
    case True
    then have d: "d = dir" and run: "ds_result (dir_of dir ps) = None" by auto
    obtain ds' t' where rd: "protocolProxy_round conf dir (re_ctx_done re \<or> ps_cancelled ps) re (dir_of dir ps)
        (ps_lastAuthCheck ps) = (ds', t')"
      by (cases "protocolProxy_round conf dir (re_ctx_done re \<or> ps_cancelled ps) re (dir_of dir ps) (ps_lastAuthCheck ps)")
    have ps: "dir_of dir ?ps = ds'" by (simp add: r d pair_round_dir rd run)
    let ?dat = "if snd (re_read re) = None then fst (re_read re) else []"
    have wr: "(if ds_result ds' = None then ds_written ds' = ds_written (dir_of dir ps) @ ?dat else True) \<and>
        (\<exists>v. ds_written ds' = ds_written (dir_of dir ps) @ v \<and> prefix v ?dat)"
      using protocolProxy_round_written[OF rd run] Cons.prems by (simp add: r)
    have del: "clean_bytes dir (r # rs) = ?dat @ clean_bytes dir rs" by (simp add: r d)
    show ?thesis
    proof (cases "ds_result ds'")
      case None
      then have "ds_written ds' = ds_written (dir_of dir ps) @ ?dat" using wr by simp
      with w None run show ?thesis
        unfolding del ps by (intro exI[of _ "?dat @ w"]) simp
    next
      case (Some e)
      then have w0: "w = []" using w(4) ps by simp
      have fin: "ds_result (dir_of dir (pair_run conf (r # rs) ps)) \<noteq> None"
        using w(3) ps Some by auto
      from wr obtain v where "ds_written ds' = ds_written (dir_of dir ps) @ v" "prefix v ?dat" by blast
      with w(1) w0 fin run show ?thesis unfolding ps del by (intro exI[of _ v]) auto
    qed
  qed
qed simp

lemma clean_bytes_subseq: "subseq (clean_bytes dir rs) (received dir rs)"
proof -
  have "subseq (concat (map fst (filter P xs))) (concat (map fst xs))" for P and xs :: "(string \<times> error) list"
    by (induction xs) (auto intro: list_emb_append_mono subseq_drop_many)
  then show ?thesis by (simp add: clean_bytes_def received_def)
qed

lemma clean_bytes_received:
  "\<forall>(dat, e) \<in> set (reads_of dir rs). e = None \<or> dat = [] \<Longrightarrow> clean_bytes dir rs = received dir rs"
proof -
  have "\<forall>(dat, e) \<in> set xs. e = None \<or> dat = [] \<Longrightarrow>
      concat (map fst (filter (\<lambda>(dat, e). e = None) xs)) = concat (map fst xs)" for xs :: "(string \<times> error) list"
    by (induction xs) auto
  then show "\<forall>(dat, e) \<in> set (reads_of dir rs). e = None \<or> dat = [] \<Longrightarrow> ?thesis"
    by (simp add: clean_bytes_def received_def)
qed

text \<open>
  C11. What the proxy forwards, against all the bytes its source hands over: after any rounds, in
  any interleaving, what a direction has written is a subsequence of the bytes received, so
  nothing is invented, doubled or reordered. Exactly the data of reads that return an error
  with their data is left out between: what is written is a prefix of the data of the other
  reads, and all of it as long as the direction has not returned. If no read returns data
  together with an error, it is a prefix of the bytes received, and all of them as long as the
  direction has not returned. The reads and writes keep the contracts of \<open>io.Reader\<close> and
  \<open>io.Writer\<close>, which allow such reads.
\<close>
theorem proxy_forwards_in_order:
  assumes "\<forall>r \<in> set rs. io_contract (snd r)"
  shows "let ds = dir_of dir (pair_run conf rs (pair_start proto t n1 n2));
             clean = concat (map fst (filter (\<lambda>(dat, e). e = None) (reads_of dir rs)));
             received = concat (map fst (reads_of dir rs)) in
     subseq (ds_written ds) received \<and>
     prefix (ds_written ds) clean \<and> (ds_result ds = None \<longrightarrow> ds_written ds = clean) \<and>
     ((\<forall>(dat, e) \<in> set (reads_of dir rs). e = None \<or> dat = []) \<longrightarrow>
        prefix (ds_written ds) received \<and> (ds_result ds = None \<longrightarrow> ds_written ds = received))"
proof -
  let ?ds = "dir_of dir (pair_run conf rs (pair_start proto t n1 n2))"
  have "ds_written (dir_of dir (pair_start proto t n1 n2)) = []"
    by (simp add: pair_start_dir fresh_dir_def)
  with pair_run_written[OF assms, of dir conf "pair_start proto t n1 n2"]
  have w: "prefix (ds_written ?ds) (clean_bytes dir rs)" "ds_result ?ds = None \<longrightarrow> ds_written ?ds = clean_bytes dir rs"
    by auto
  have "subseq (ds_written ?ds) (received dir rs)"
    using subseq_order.order_trans[OF prefix_imp_subseq[OF w(1)] clean_bytes_subseq] .
  then show ?thesis
    using w clean_bytes_received[of dir rs]
    unfolding Let_def clean_bytes_def[symmetric] received_def[symmetric] by (intro conjI impI) simp_all
qed

theorem proxy_forwards_in_order_witness:
  "ds_written (dir_of clientToServer (pair_run conf0
     [(clientToServer, read_write (''ab'', None) (2, None)), (serverToClient, read_write (''x'', None) (1, None)),
      (clientToServer, quiet_round second), (clientToServer, read_write (''cd'', None) (2, None))]
     (pair_start MLAT 0 0 0))) = ''abcd''"
proof -
  let ?rs = "[(clientToServer, read_write (''ab'', None) (2, None)), (serverToClient, read_write (''x'', None) (1, None)),
      (clientToServer, quiet_round second), (clientToServer, read_write (''cd'', None) (2, None))]"
  have c: "\<forall>r \<in> set ?rs. io_contract (snd r)"
    by (simp add: io_contract_def read_write_def quiet_round_def sendRecvBufferSize_def)
  have "ds_result (dir_of clientToServer (pair_run conf0 ?rs (pair_start MLAT 0 0 0))) = None" by code_simp
  moreover have reads: "reads_of clientToServer ?rs = [(''ab'', None), ([], Some ErrDeadline), (''cd'', None)]"
    by (simp add: read_write_def quiet_round_def)
  ultimately show ?thesis
    using proxy_forwards_in_order[OF c, of clientToServer conf0 MLAT 0 0 0]
    unfolding Let_def reads by (elim conjE) (simp only: simp_thms list.set list.map prod.case, simp)
qed

text \<open>
  The data of a read that returns it together with an error is dropped: when the deadline
  passes the direction goes on without it, so there is a gap in what it writes, and at the
  end of the stream the last bytes are missing.
\<close>
lemma data_with_an_error_is_dropped:
  "let rs = [(clientToServer, read_write (''ab'', None) (2, None)), (clientToServer, read_write (''X'', Some ErrDeadline) (0, None)),
             (clientToServer, read_write (''cd'', None) (2, None)), (clientToServer, read_write (''e'', Some ErrEOF) (0, None))];
       ds = dir_of clientToServer (pair_run conf0 rs (pair_start BEAST 0 0 0)) in
     (\<forall>r \<in> set rs. io_contract (snd r)) \<and> received clientToServer rs = ''abXcde'' \<and>
     ds_written ds = ''abcd'' \<and> ds_result ds = Some (Some ErrEOF)"
proof -
  let ?rs = "[(clientToServer, read_write (''ab'', None) (2, None)), (clientToServer, read_write (''X'', Some ErrDeadline) (0, None)),
             (clientToServer, read_write (''cd'', None) (2, None)), (clientToServer, read_write (''e'', Some ErrEOF) (0, None))]"
  have "\<forall>r \<in> set ?rs. io_contract (snd r)" "received clientToServer ?rs = ''abXcde''"
    by (simp_all add: io_contract_def read_write_def quiet_round_def sendRecvBufferSize_def received_def)
  moreover have "ds_written (dir_of clientToServer (pair_run conf0 ?rs (pair_start BEAST 0 0 0))) = ''abcd''"
    "ds_result (dir_of clientToServer (pair_run conf0 ?rs (pair_start BEAST 0 0 0))) = Some (Some ErrEOF)"
    by code_simp+
  ultimately show ?thesis unfolding Let_def by blast
qed

section \<open>Removed feeders\<close>

lemma protocolProxy_round_auth:
  assumes "protocolProxy_round conf dir done re ds t = (ds', t')" "\<not> isValidApiKey (re_valid re) (pc_clientApiKey conf)"
  shows "t' = t \<and> (ds_result ds' = None \<longrightarrow> re_now_auth re \<le> t + pc_interval conf)"
  using assms
  by (auto simp: protocolProxy_round_def feederStillValid_def split: option.splits prod.splits if_splits)

lemma pair_round_auth:
  assumes "\<not> isValidApiKey (re_valid re) (pc_clientApiKey conf)" "ds_result (dir_of d (pair_round conf (d, re) ps)) = None"
  shows "re_now_auth re \<le> ps_lastAuthCheck ps + pc_interval conf"
proof (cases "ds_result (dir_of d ps)")
  case None
  let ?r = "protocolProxy_round conf d (re_ctx_done re \<or> ps_cancelled ps) re (dir_of d ps) (ps_lastAuthCheck ps)"
  obtain ds' t' where rd: "?r = (ds', t')" by (cases ?r)
  with assms(2) None have "ds_result ds' = None" by (simp add: pair_round_dir)
  with protocolProxy_round_auth[OF rd assms(1)] show ?thesis by blast
next
  case (Some e)
  with assms(2) show ?thesis by (simp add: pair_round_dir)
qed

lemma pair_round_lastAuth:
  assumes "\<not> isValidApiKey (re_valid re) (pc_clientApiKey conf)"
  shows "ps_lastAuthCheck (pair_round conf (d, re) ps) = ps_lastAuthCheck ps"
proof -
  let ?r = "protocolProxy_round conf d (re_ctx_done re \<or> ps_cancelled ps) re (dir_of d ps) (ps_lastAuthCheck ps)"
  obtain ds' t' where rd: "?r = (ds', t')" by (cases ?r)
  with protocolProxy_round_auth[OF rd assms] show ?thesis by (simp add: pair_round_def Let_def)
qed

lemma pair_run_result:
  "ds_result (dir_of d ps) = Some e \<Longrightarrow> dir_of d (pair_run conf rs ps) = dir_of d ps"
proof (induction rs arbitrary: ps)
  case (Cons r rs)
  obtain d' re where r: "r = (d', re)" by (cases r)
  have "dir_of d (pair_round conf r ps) = dir_of d ps" using Cons.prems by (simp add: r pair_round_dir)
  with Cons show ?case by simp
qed simp

text \<open>
  C13. A removed feeder is cut off: if the feeder's key is in none of the caches that the rounds
  see, a direction that has not returned has done all its rounds within the check interval
  after the last successful check; the check is never renewed in between, whatever the
  other direction does.
\<close>
theorem removed_feeder_cut_off:
  assumes "\<forall>(d, re) \<in> set rs. \<not> isValidApiKey (re_valid re) (pc_clientApiKey conf)"
    "ds_result (dir_of dir (pair_run conf rs ps)) = None" "(dir, re) \<in> set rs"
  shows "re_now_auth re \<le> ps_lastAuthCheck ps + pc_interval conf \<and>
     ps_lastAuthCheck (pair_run conf rs ps) = ps_lastAuthCheck ps"
  using assms
proof (induction rs arbitrary: ps)
  case (Cons r rs)
  obtain d0 re0 where r: "r = (d0, re0)" by (cases r)
  have inv: "\<not> isValidApiKey (re_valid re0) (pc_clientApiKey conf)"
    using Cons.prems(1) by (simp add: r)
  note same = pair_round_lastAuth[OF inv, of d0 ps]
  have keep: "ps_lastAuthCheck (pair_run conf rs qs) = ps_lastAuthCheck qs" for qs
    using Cons.prems(1)
  proof (induction rs arbitrary: qs)
    case (Cons q rs)
    obtain d1 re1 where q: "q = (d1, re1)" by (cases q)
    show ?case using Cons.IH[of "pair_round conf q qs"] Cons.prems pair_round_lastAuth[of re1 conf d1 qs]
      by (simp add: q)
  qed simp
  show ?case
  proof (cases "(dir, re) \<in> set rs")
    case True
    have "ds_result (dir_of dir (pair_run conf rs (pair_round conf r ps))) = None"
      using Cons.prems(2) by simp
    from Cons.IH[OF _ this True] Cons.prems(1) same show ?thesis by (simp add: r)
  next
    case False
    then have rr: "d0 = dir" "re0 = re" using Cons.prems(3) by (auto simp: r)
    have "ds_result (dir_of dir (pair_round conf r ps)) = None"
      using Cons.prems(2) pair_run_result[of dir "pair_round conf r ps" _ conf rs]
      by (cases "ds_result (dir_of dir (pair_round conf r ps))") auto
    with pair_round_auth[of re conf dir ps] inv rr keep[of "pair_round conf r ps"] same show ?thesis
      by (simp add: r)
  qed
qed simp

lemma quiet_still_running:
  "ds_result (dir_of clientToServer (pair_run conf0 [(clientToServer, quiet_round second)] (pair_start BEAST 0 0 0))) = None"
  by code_simp

theorem removed_feeder_cut_off_witness:
  "re_now_auth (quiet_round second) \<le> ps_lastAuthCheck (pair_start BEAST 0 0 0) + pc_interval conf0 \<and>
   ps_lastAuthCheck (pair_run conf0 [(clientToServer, quiet_round second)] (pair_start BEAST 0 0 0)) =
     ps_lastAuthCheck (pair_start BEAST 0 0 0)"
  by (rule removed_feeder_cut_off[OF _ quiet_still_running]) (simp_all add: quiet_round_def)

section \<open>The directions end together\<close>

lemma pair_run_cancelled:
  assumes "proto = MLAT"
  shows "ps_cancelled (pair_run conf rs (pair_start proto t n1 n2)) \<longleftrightarrow>
     (\<exists>d. ds_result (dir_of d (pair_run conf rs (pair_start proto t n1 n2))) \<noteq> None)"
proof -
  define inv where "inv ps \<longleftrightarrow> (ps_cancelled ps \<longleftrightarrow> (\<exists>d. ds_result (dir_of d ps) \<noteq> None))" for ps
  have step: "inv (pair_round conf r ps)" if "inv ps" for r ps
  proof -
    obtain d re where r: "r = (d, re)" by (cases r)
    show ?thesis
    proof (cases "ds_result (dir_of d ps)")
      case (Some e)
      then have "pair_round conf r ps = ps" by (simp add: pair_round_def r)
      then show ?thesis using that by simp
    next
      case None
      let ?rd = "protocolProxy_round conf d (re_ctx_done re \<or> ps_cancelled ps) re (dir_of d ps) (ps_lastAuthCheck ps)"
      have c: "ps_cancelled (pair_round conf r ps) \<longleftrightarrow> ps_cancelled ps \<or> ds_result (fst ?rd) \<noteq> None"
        using None by (simp add: pair_round_def r Let_def split: prod.split)
      have same: "dir_of d' (pair_round conf r ps) = dir_of d' ps" if "d' \<noteq> d" for d'
        using that by (simp add: r pair_round_dir)
      have this_dir: "dir_of d (pair_round conf r ps) = fst ?rd" using None by (simp add: r pair_round_dir)
      have "(\<exists>d'. ds_result (dir_of d' (pair_round conf r ps)) \<noteq> None) \<longleftrightarrow>
          (\<exists>d'. ds_result (dir_of d' ps) \<noteq> None) \<or> ds_result (fst ?rd) \<noteq> None"
        using same this_dir None by metis
      with c that show ?thesis by (simp add: inv_def)
    qed
  qed
  have "inv ps \<Longrightarrow> inv (pair_run conf rs ps)" for ps
    by (induction rs arbitrary: ps) (simp_all add: step)
  moreover have "inv (pair_start proto t n1 n2)"
    using assms by (simp add: inv_def pair_start_dir) (simp add: pair_start_def)
  ultimately show ?thesis by (simp add: inv_def)
qed

text \<open>
  The two directions of an MLAT connection end together: once either has returned, for
  whatever reason, the other returns without an error at its next round at the latest, and
  copies nothing more.
\<close>
theorem directions_end_together:
  assumes "ds_result (dir_of d (pair_run conf rs (pair_start MLAT t n1 n2))) \<noteq> None"
    "ds_result (dir_of d' (pair_run conf rs (pair_start MLAT t n1 n2))) = None"
  shows "dir_of d' (pair_run conf (rs @ [(d', re)]) (pair_start MLAT t n1 n2)) =
     (dir_of d' (pair_run conf rs (pair_start MLAT t n1 n2)))\<lparr>ds_result := Some None\<rparr>"
proof -
  let ?ps = "pair_run conf rs (pair_start MLAT t n1 n2)"
  have app: "pair_run conf (xs @ ys) ps = pair_run conf ys (pair_run conf xs ps)" for xs ys ps
    by (induction xs arbitrary: ps) simp_all
  have "ps_cancelled ?ps" using pair_run_cancelled[OF refl] assms(1) by blast
  then show ?thesis using assms(2) by (simp add: app pair_round_dir protocolProxy_round_def)
qed

definition eof_round :: round_env where
  "eof_round = (quiet_round second)\<lparr>re_read := ([], Some ErrEOF)\<rparr>"

theorem directions_end_together_witness:
  "dir_of serverToClient (pair_run conf0 ([(clientToServer, eof_round)] @ [(serverToClient, quiet_round second)]) (pair_start MLAT 0 0 0)) =
     (dir_of serverToClient (pair_run conf0 [(clientToServer, eof_round)] (pair_start MLAT 0 0 0)))\<lparr>ds_result := Some None\<rparr>"
  by (rule directions_end_together[of clientToServer]; code_simp)

end
