(* ===== verification/Lifecycle.thy ===== *)
theory Lifecycle
  imports Prelude
begin

text \<open>
  The lifecycle contract of the subsystems with package state (\<open>stats\<close>, \<open>containers\<close>,
  \<open>feedproxy\<close>, \<open>nats_io\<close>): a flag \<open>initialised\<close>, \<open>Init\<close> and \<open>Close\<close>. Each package interprets
  the locale it meets on its own definitions. \<open>'s\<close> is the package's state, \<open>'e\<close> what the
  surroundings answer during the call.
\<close>

text \<open>\<open>Close\<close> is refused when the subsystem is not up, and takes it down when it is.\<close>

locale closable =
  fixes up :: "'s \<Rightarrow> bool"
    and close :: "'e \<Rightarrow> 's \<Rightarrow> error \<times> 's"
    and not_up :: go_err
  assumes close_down: "\<not> up s \<Longrightarrow> close e s = (Some not_up, s)"
    and close_up: "up s \<Longrightarrow> \<not> up (snd (close e s))"
begin

lemma close_leaves_down: "\<not> up (snd (close e s))"
  using close_down close_up by (cases "up s") auto

lemma close_twice: "close e' (snd (close e s)) = (Some not_up, snd (close e s))"
  using close_down close_leaves_down by blast

end

text \<open>\<open>Init\<close> is refused when the subsystem is up, and when it succeeds it is up.\<close>

locale subsystem = closable +
  fixes init :: "'i \<Rightarrow> 's \<Rightarrow> error \<times> 's"
    and already_up :: go_err
  assumes init_up: "up s \<Longrightarrow> init i s = (Some already_up, s)"
    and init_ok: "fst (init i s) = None \<Longrightarrow> up (snd (init i s))"
    and init_fails_down: "\<not> up s \<Longrightarrow> fst (init i s) \<noteq> None \<Longrightarrow> \<not> up (snd (init i s))"
begin

lemma init_twice: "fst (init i s) = None \<Longrightarrow> init j (snd (init i s)) = (Some already_up, snd (init i s))"
  using init_up init_ok by blast

lemma init_up_iff: "up (snd (init i s)) \<longleftrightarrow> up s \<or> fst (init i s) = None"
  using init_up[of s i] init_ok[of i s] init_fails_down[of s i] by (metis snd_conv)

lemma close_then_init: "fst (init i (snd (close e s))) = None \<Longrightarrow> up (snd (init i (snd (close e s))))"
  by (rule init_ok)

lemma init_close_down: "\<not> up (snd (close e (snd (init i s))))"
  by (rule close_leaves_down)

end

end
