(* ===== verification/NatsIO.thy ===== *)
theory NatsIO
  imports Lifecycle GoText
begin

text \<open>
  The NATS client subsystem, \<open>lib/nats_io/nats_io.go\<close>: its package variables, \<open>Init\<close> and
  \<open>Close\<close>, the instance matching, subscriptions and the ping handler.

  The NATS client library is a parameter: what \<open>nats.Connect\<close> and \<open>Subscribe\<close> answer and
  whether the connection is up. So are the host name and, because patterns come with the
  messages, the regular-expression matcher \<open>regexp.MatchString\<close>.
\<close>

record NatsConfig =
  Url :: string
  Instance :: string
  Version :: string
  StartTime :: time

record nats_state =
  nt_initialised :: bool
  natsConfig :: NatsConfig
  nt_connected :: bool  \<comment> \<open>\<open>nc\<close> holds an open connection\<close>
  nt_subs :: "string list"  \<comment> \<open>the subjects subscribed on it, in order\<close>
  nt_cancelled :: bool  \<comment> \<open>the context was cancelled\<close>

record nats_msg =
  m_Subject :: string
  m_Data :: string

definition natsSubjPing :: string where
  "natsSubjPing = ''pw_bordercontrol.ping''"

definition zero_NatsConfig :: NatsConfig where
  "zero_NatsConfig = \<lparr>Url = [], Instance = [], Version = [], StartTime = 0\<rparr>"

text \<open>\<open>Close\<close>; the argument (what the surroundings answer) is not used.\<close>

definition nats_Close :: "unit \<Rightarrow> nats_state \<Rightarrow> error \<times> nats_state" where
  "nats_Close env st =
     (if \<not> nt_initialised st then (Some ErrNatsNotInitialised, st)
      else (None, st\<lparr>nt_connected := False, nt_subs := [], nt_cancelled := True,
                     natsConfig := zero_NatsConfig, nt_initialised := False\<rparr>))"

text \<open>\<open>Sub\<close>: a failed subscription is logged and the result is nil all the same.\<close>

definition Sub :: "(string \<Rightarrow> error) \<Rightarrow> string \<Rightarrow> nats_state \<Rightarrow> error \<times> nats_state" where
  "Sub subscribe subj st =
     (if \<not> nt_initialised st then (Some ErrNatsNotInitialised, st)
      else (case subscribe subj of
              Some e \<Rightarrow> (None, st)
            | None \<Rightarrow> (None, st\<lparr>nt_subs := nt_subs st @ [subj]\<rparr>)))"

text \<open>What \<open>Init\<close> asks: the host name, the connection, the subscription.\<close>

record nats_env =
  env_hostname :: "go_err + string"
  env_connect :: "string \<Rightarrow> error"
  env_subscribe :: "string \<Rightarrow> error"

definition nats_Init :: "nats_env \<Rightarrow> NatsConfig \<Rightarrow> nats_state \<Rightarrow> error \<times> nats_state" where
  "nats_Init env conf st =
     (let st1 = st\<lparr>nt_cancelled := False, natsConfig := conf\<rparr> in
      case (if Instance conf = [] then env_hostname env else Inr (Instance conf)) of
        Inl e \<Rightarrow> (Some e, st1\<lparr>natsConfig := conf\<lparr>Instance := []\<rparr>\<rparr>)
      | Inr inst \<Rightarrow>
          let conf1 = conf\<lparr>Instance := inst\<rparr>; st2 = st1\<lparr>natsConfig := conf1\<rparr> in
          if Url conf1 \<noteq> [] then
            (case env_connect env (Url conf1) of
               Some e \<Rightarrow> (Some e, st2\<lparr>nt_connected := False\<rparr>)
             | None \<Rightarrow>
                 let st3 = st2\<lparr>nt_connected := True, nt_subs := [], nt_initialised := True\<rparr> in
                 (case Sub (env_subscribe env) natsSubjPing st3 of
                    (Some e, st4) \<Rightarrow> (Some e, st4)
                  | (None, st4) \<Rightarrow> (None, st4)))
          else (None, st2))"

definition GetInstance :: "nats_state \<Rightarrow> string \<times> error" where
  "GetInstance st =
     (if \<not> nt_initialised st then ([], Some ErrNatsNotInitialised)
      else (Instance (natsConfig st), None))"

definition ThisInstance ::
    "(string \<Rightarrow> string \<Rightarrow> bool \<times> error) \<Rightarrow> string \<Rightarrow> nats_state \<Rightarrow> bool \<times> string \<times> error" where
  "ThisInstance matchString sentToInstance st =
     (if \<not> nt_initialised st then (False, [], Some ErrNatsNotInitialised)
      else
        let thisInstanceName = Instance (natsConfig st) in
        if sentToInstance = ''*'' then (True, thisInstanceName, None)
        else if sentToInstance = thisInstanceName then (True, thisInstanceName, None)
        else let (meantForThisInstance, err) = matchString sentToInstance (Instance (natsConfig st))
             in (meantForThisInstance, thisInstanceName, err))"

definition IsConnected :: "bool \<Rightarrow> nats_state \<Rightarrow> bool" where
  "IsConnected nc_connected st = (if \<not> nt_initialised st then False else nc_connected)"

text \<open>
  The handler \<open>SignalSendOnSubj\<close> subscribes: whether it sends the signal and acknowledges.
\<close>

definition signal_handler ::
    "(string \<Rightarrow> string \<Rightarrow> bool \<times> error) \<Rightarrow> nats_msg \<Rightarrow> nats_state \<Rightarrow> bool" where
  "signal_handler matchString msg st =
     (case ThisInstance matchString (m_Data msg) st of
        (_, _, Some e) \<Rightarrow> False
      | (meantForThisInstance, _, None) \<Rightarrow> if meantForThisInstance then True else False)"

definition SignalSendOnSubj :: "(string \<Rightarrow> error) \<Rightarrow> string \<Rightarrow> nats_state \<Rightarrow> error \<times> nats_state" where
  "SignalSendOnSubj subscribe subj st = Sub subscribe subj st"

text \<open>The reply to a ping; the uptime header is kept as the duration it prints.\<close>

record ping_reply =
  pr_Subject :: string
  pr_instance :: string
  pr_version :: string
  pr_uptime :: duration
  pr_Data :: string

definition PingHandler :: "time \<Rightarrow> nats_msg \<Rightarrow> nats_state \<Rightarrow> ping_reply option" where
  "PingHandler now msg st =
     (case GetInstance st of
        (inst, Some e) \<Rightarrow> None
      | (inst, None) \<Rightarrow>
          Some \<lparr>pr_Subject = m_Subject msg, pr_instance = inst, pr_version = Version (natsConfig st),
                pr_uptime = now - StartTime (natsConfig st), pr_Data = ''pong''\<rparr>)"

section \<open>Lifecycle\<close>

text \<open>\<open>Init\<close> has no guard against a second call, so only the \<open>Close\<close> half of the contract holds.\<close>

interpretation nats: closable nt_initialised nats_Close ErrNatsNotInitialised
  by unfold_locales (simp_all add: nats_Close_def)

lemma Sub_never_fails: "nt_initialised st \<Longrightarrow> fst (Sub sub subj st) = None"
  by (simp add: Sub_def split: option.split)

lemma Sub_keeps [simp]:
  "nt_initialised (snd (Sub sub subj st)) = nt_initialised st"
  "natsConfig (snd (Sub sub subj st)) = natsConfig st"
  "nt_connected (snd (Sub sub subj st)) = nt_connected st"
  by (simp_all add: Sub_def split: option.split)

text \<open>What a state reached by \<open>Init\<close> and \<open>Close\<close> satisfies: up means connected, with a URL.\<close>

definition nats_inv :: "nats_state \<Rightarrow> bool" where
  "nats_inv st \<longleftrightarrow> (nt_initialised st \<longrightarrow> nt_connected st \<and> \<not> nt_cancelled st)"

definition nats_start :: nats_state where
  "nats_start = \<lparr>nt_initialised = False, natsConfig = zero_NatsConfig, nt_connected = False,
     nt_subs = [], nt_cancelled = False\<rparr>"

lemma nats_inv_start: "nats_inv nats_start"
  by (simp add: nats_inv_def nats_start_def)

lemma nats_inv_Close [inv_intros]: "nats_inv st \<Longrightarrow> nats_inv (snd (nats_Close env st))"
  by (simp add: nats_inv_def nats_Close_def)

text \<open>The instance name \<open>Init\<close> settles on.\<close>

definition instance_name :: "nats_env \<Rightarrow> NatsConfig \<Rightarrow> go_err + string" where
  "instance_name env conf = (if Instance conf = [] then env_hostname env else Inr (Instance conf))"

text \<open>
  \<open>Init\<close> of the NATS client: it fails exactly if the host name is needed and unknown or
  the connection to a configured URL fails; it brings the subsystem up exactly if a URL is
  configured and connects, and then it is connected under the configured instance name (the
  host name if none was configured), also when the subscription to the ping subject failed,
  which is not reported.
\<close>
theorem nats_Init_outcomes:
  "fst (nats_Init env conf st) =
     (case instance_name env conf of Inl e \<Rightarrow> Some e
      | Inr inst \<Rightarrow> if Url conf = [] then None else env_connect env (Url conf)) \<and>
   (nt_initialised (snd (nats_Init env conf st)) \<longleftrightarrow> nt_initialised st \<or>
      Url conf \<noteq> [] \<and> (\<exists>inst. instance_name env conf = Inr inst) \<and> env_connect env (Url conf) = None) \<and>
   (case (instance_name env conf, env_connect env (Url conf)) of
      (Inr inst, None) \<Rightarrow>
        if Url conf = [] then True
        else nt_connected (snd (nats_Init env conf st)) \<and>
          GetInstance (snd (nats_Init env conf st)) = (inst, None) \<and>
          nt_subs (snd (nats_Init env conf st)) =
            (if env_subscribe env natsSubjPing = None then [natsSubjPing] else [])
    | _ \<Rightarrow> True)"
  unfolding instance_name_def[symmetric] nats_Init_def
  by (cases "instance_name env conf"; cases "env_connect env (Url conf)";
      cases "env_subscribe env natsSubjPing") (simp_all add: Sub_def GetInstance_def Let_def)

text \<open>
  A signal subject addresses instances: the handler that \<open>SignalSendOnSubj\<close> installs raises
  the signal exactly when the subsystem is up and the message is the wildcard, this
  instance's name, or a pattern that compiles and matches the name; a pattern that does
  not compile never raises it.
\<close>
theorem signal_handler_addresses:
  "signal_handler mt msg st \<longleftrightarrow>
     nt_initialised st \<and>
     (m_Data msg = ''*'' \<or> m_Data msg = Instance (natsConfig st) \<or>
      mt (m_Data msg) (Instance (natsConfig st)) = (True, None))"
  by (auto simp: signal_handler_def ThisInstance_def Let_def split: option.split prod.split)

end
