(* ===== verification/StatsNats.thy ===== *)
theory StatsNats
  imports StatsSpec NatsIO "HOL-Library.Multiset"
begin

text \<open>
  The NATS interface of the statistics store, \<open>lib/stats/stats_nats.go\<close>: the subscriptions
  and the request handlers, each a function from the store and the message to the reply it
  sends, if any.

  A reply's body is kept as the struct that \<open>json.Marshal\<close> is given; marshalling fails on a
  time outside the years 0 to 9999 (taken in UTC) and then no reply is sent. The UUID
  parser is a library outside the repository and a parameter. A failure of \<open>RespondMsg\<close> is
  only logged. Go chooses a new order for every range over a map, so each request has its
  own order of each feeder's connections as a parameter; which of two connections with the
  same latest time is reported depends on it.
\<close>

definition natsSubjFeederConnectedBEAST :: string where
  "natsSubjFeederConnectedBEAST = ''pw_bordercontrol.feeder.connected.beast''"

definition natsSubjFeederConnectedMLAT :: string where
  "natsSubjFeederConnectedMLAT = ''pw_bordercontrol.feeder.connected.mlat''"

definition natsSubjFeedersMetrics :: string where
  "natsSubjFeedersMetrics = ''pw_bordercontrol.feeders.metrics''"

definition natsSubjFeederMetricsAllProtocols :: string where
  "natsSubjFeederMetricsAllProtocols = ''pw_bordercontrol.feeder.metrics''"

definition natsSubjFeederMetricsBEAST :: string where
  "natsSubjFeederMetricsBEAST = ''pw_bordercontrol.feeder.metrics.beast''"

definition natsSubjFeederMetricsMLAT :: string where
  "natsSubjFeederMetricsMLAT = ''pw_bordercontrol.feeder.metrics.mlat''"

record perFeederPerProtocolMetrics =
  pm_FeederCode :: string
  pm_Label :: string
  pm_BytesIn :: u64
  pm_BytesOut :: u64
  pm_ConnectionTime :: time
  pm_send :: bool

record perFeederAllProtocolMetrics =
  am_FeederCode :: string
  am_Label :: string
  am_BeastConnected :: bool
  am_BeastBytesIn :: u64
  am_BeastBytesOut :: u64
  am_BeastConnectionTime :: time
  am_MlatConnected :: bool
  am_MlatBytesIn :: u64
  am_MlatBytesOut :: u64
  am_MlatConnectionTime :: time
  am_send :: bool

definition zero_pm :: perFeederPerProtocolMetrics where
  "zero_pm = \<lparr>pm_FeederCode = [], pm_Label = [], pm_BytesIn = 0, pm_BytesOut = 0,
     pm_ConnectionTime = 0, pm_send = False\<rparr>"

definition zero_am :: perFeederAllProtocolMetrics where
  "zero_am = \<lparr>am_FeederCode = [], am_Label = [], am_BeastConnected = False, am_BeastBytesIn = 0,
     am_BeastBytesOut = 0, am_BeastConnectionTime = 0, am_MlatConnected = False,
     am_MlatBytesIn = 0, am_MlatBytesOut = 0, am_MlatConnectionTime = 0, am_send = False\<rparr>"

record 'b nats_reply =
  r_Subject :: string
  r_instance :: string
  r_Data :: 'b

section \<open>Routing\<close>

definition getProtocolFromLastToken :: "string \<Rightarrow> protocol \<times> error" where
  "getProtocolFromLastToken subject =
     (let tokens = go_split CHR ''.'' subject;
          lastToken = to_upper (tokens ! (length tokens - 1))
      in if lastToken = to_upper ProtocolNameBEAST then (BEAST, None)
         else if lastToken = to_upper ProtocolNameMLAT then (MLAT, None)
         else (0, Some (ErrUnknownProtocol (go_itoa 0))))"

text \<open>\<open>initNats\<close>: the instance name, then the six subscriptions, the first error returned.\<close>

definition initNats_subjects :: "string list" where
  "initNats_subjects = [natsSubjFeedersMetrics, natsSubjFeederMetricsAllProtocols,
     natsSubjFeederMetricsBEAST, natsSubjFeederMetricsMLAT, natsSubjFeederConnectedBEAST,
     natsSubjFeederConnectedMLAT]"

fun sub_all :: "(string \<Rightarrow> error) \<Rightarrow> string list \<Rightarrow> nats_state \<Rightarrow> error \<times> nats_state" where
  "sub_all env [] st = (None, st)"
| "sub_all env (subj # rest) st =
     (case Sub env subj st of
        (Some e, st1) \<Rightarrow> (Some e, st1)
      | (None, st1) \<Rightarrow> sub_all env rest st1)"

text \<open>The result, the instance name kept in \<open>natsInstance\<close>, and the client's state.\<close>

definition initNats :: "(string \<Rightarrow> error) \<Rightarrow> nats_state \<Rightarrow> error \<times> string \<times> nats_state" where
  "initNats env st =
     (case GetInstance st of
        (inst, Some e) \<Rightarrow> (Some e, inst, st)
      | (inst, None) \<Rightarrow> (let (e, st1) = sub_all env initNats_subjects st in (e, inst, st1)))"

section \<open>The latest connection\<close>

text \<open>The loops over \<open>ConnectionDetails\<close>; ranging over a nil map does nothing.\<close>

type_synonym map_order = "uuid \<Rightarrow> protocol \<Rightarrow> ConnectionDetail list \<Rightarrow> ConnectionDetail list"

definition ranges :: "map_order \<Rightarrow> bool" where
  "ranges ord \<longleftrightarrow> (\<forall>k p cs. mset (ord k p cs) = mset cs)"

lemma set_ranges: "ranges ord \<Longrightarrow> set (ord k p cs) = set cs"
  by (metis mset_eq_setD ranges_def)

lemma ranges_some [simp]: "ranges (\<lambda>_ _ cs. cs)" "ranges (\<lambda>_ _. rev)"
  by (simp_all add: ranges_def)

definition details :: "ProtocolDetail \<Rightarrow> ConnectionDetail list" where
  "details pd = (case pd_ConnectionDetails pd of None \<Rightarrow> [] | Some dm \<Rightarrow> map snd dm)"

fun scan :: "('a \<Rightarrow> time) \<Rightarrow> (ConnectionDetail \<Rightarrow> 'a \<Rightarrow> 'a) \<Rightarrow> ConnectionDetail list \<Rightarrow> 'a \<Rightarrow> 'a" where
  "scan tm upd [] fm = fm"
| "scan tm upd (c # cs) fm =
     scan tm upd cs (if tm fm < cd_TimeConnected c then upd c fm else fm)"

definition take_pm :: "FeederStats \<Rightarrow> ConnectionDetail \<Rightarrow> perFeederPerProtocolMetrics \<Rightarrow> perFeederPerProtocolMetrics" where
  "take_pm feeder c fm = fm\<lparr>pm_ConnectionTime := cd_TimeConnected c, pm_BytesIn := cd_BytesIn c,
     pm_BytesOut := cd_BytesOut c, pm_FeederCode := fs_Code feeder, pm_Label := fs_Label feeder,
     pm_send := True\<rparr>"

definition take_beast :: "ConnectionDetail \<Rightarrow> perFeederAllProtocolMetrics \<Rightarrow> perFeederAllProtocolMetrics" where
  "take_beast c fm = fm\<lparr>am_BeastConnectionTime := cd_TimeConnected c, am_BeastBytesIn := cd_BytesIn c,
     am_BeastBytesOut := cd_BytesOut c, am_BeastConnected := True, am_send := True\<rparr>"

definition take_mlat :: "ConnectionDetail \<Rightarrow> perFeederAllProtocolMetrics \<Rightarrow> perFeederAllProtocolMetrics" where
  "take_mlat c fm = fm\<lparr>am_MlatConnectionTime := cd_TimeConnected c, am_MlatBytesIn := cd_BytesIn c,
     am_MlatBytesOut := cd_BytesOut c, am_MlatConnected := True, am_send := True\<rparr>"

text \<open>The body the two all-protocol handlers build for a feeder.\<close>

definition all_metrics :: "map_order \<Rightarrow> uuid \<Rightarrow> FeederStats \<Rightarrow> perFeederAllProtocolMetrics" where
  "all_metrics ord apiKey feeder =
     (let fm = zero_am\<lparr>am_FeederCode := fs_Code feeder, am_Label := fs_Label feeder\<rparr>;
          fm1 = (case nil_get (fs_Connections feeder) BEAST of
                   None \<Rightarrow> fm
                 | Some conns \<Rightarrow> scan am_BeastConnectionTime take_beast (ord apiKey BEAST (details conns)) fm)
      in (case nil_get (fs_Connections feeder) MLAT of
            None \<Rightarrow> fm1
          | Some conns \<Rightarrow> scan am_MlatConnectionTime take_mlat (ord apiKey MLAT (details conns)) fm1))"

section \<open>The handlers\<close>

text \<open>\<open>time.Time.MarshalJSON\<close> accepts the years 0 to 9999.\<close>

definition json_time_ok :: "time \<Rightarrow> bool" where
  "json_time_ok t \<longleftrightarrow> - (366 * 86400 * second) \<le> t \<and> t < 3652059 * 86400 * second"

definition am_json_ok :: "perFeederAllProtocolMetrics \<Rightarrow> bool" where
  "am_json_ok fm \<longleftrightarrow> json_time_ok (am_BeastConnectionTime fm) \<and> json_time_ok (am_MlatConnectionTime fm)"

definition natsSubjFeedersMetricsHandler ::
    "map_order \<Rightarrow> string \<Rightarrow> Statistics \<Rightarrow> nats_msg \<Rightarrow> (uuid, perFeederAllProtocolMetrics) gomap nats_reply option" where
  "natsSubjFeedersMetricsHandler ord natsInstance s msg =
     (let afm = foldl (\<lambda>afm (apiKey, feeder).
                   let fm = all_metrics ord apiKey feeder
                   in if am_send fm then gm_put apiKey fm afm else afm) gm_empty (Feeders s)
      in if list_all (\<lambda>(k, fm). am_json_ok fm) afm
         then Some \<lparr>r_Subject = m_Subject msg, r_instance = natsInstance, r_Data = afm\<rparr>
         else None)"

definition natsSubjFeederMetricsAllProtocolsHandler ::
    "map_order \<Rightarrow> (string \<Rightarrow> go_err + uuid) \<Rightarrow> string \<Rightarrow> Statistics \<Rightarrow> nats_msg \<Rightarrow>
     perFeederAllProtocolMetrics nats_reply option" where
  "natsSubjFeederMetricsAllProtocolsHandler ord parseUUID natsInstance s msg =
     (case parseUUID (m_Data msg) of
        Inl e \<Rightarrow> None
      | Inr apiKey \<Rightarrow>
          (case gm_get (Feeders s) apiKey of
             None \<Rightarrow> None
           | Some feeder \<Rightarrow>
               let fm = all_metrics ord apiKey feeder in
               if am_send fm then
                 if am_json_ok fm
                 then Some \<lparr>r_Subject = m_Subject msg, r_instance = natsInstance, r_Data = fm\<rparr>
                 else None
               else None))"

definition natsSubjFeederMetricsHandler ::
    "map_order \<Rightarrow> string \<Rightarrow> Statistics \<Rightarrow> nats_msg \<Rightarrow> uuid \<Rightarrow> protocol \<Rightarrow>
     perFeederPerProtocolMetrics nats_reply option go" where
  "natsSubjFeederMetricsHandler ord natsInstance s msg apiKey proto =
     go_bind (Name proto) (\<lambda>nm.
       case gm_get (Feeders s) apiKey of
         None \<Rightarrow> Ret None
       | Some feeder \<Rightarrow>
           (case nil_get (fs_Connections feeder) proto of
              None \<Rightarrow> Ret None
            | Some conns \<Rightarrow>
                let fm = scan pm_ConnectionTime (take_pm feeder) (ord apiKey proto (details conns)) zero_pm in
                if pm_send fm then
                  if json_time_ok (pm_ConnectionTime fm)
                  then Ret (Some \<lparr>r_Subject = m_Subject msg, r_instance = natsInstance, r_Data = fm\<rparr>)
                  else Ret None
                else Ret None))"

definition natsSubjFeederConnectedHandler ::
    "string \<Rightarrow> Statistics \<Rightarrow> nats_msg \<Rightarrow> uuid \<Rightarrow> protocol \<Rightarrow> string nats_reply option go" where
  "natsSubjFeederConnectedHandler natsInstance s msg apiKey proto =
     go_bind (Name proto) (\<lambda>nm.
       case gm_get (Feeders s) apiKey of
         None \<Rightarrow> Ret None
       | Some feeder \<Rightarrow>
           (case nil_get (fs_Connections feeder) proto of
              None \<Rightarrow> Ret None
            | Some conn \<Rightarrow>
                if pd_Status conn
                then Ret (Some \<lparr>r_Subject = m_Subject msg, r_instance = natsInstance, r_Data = ''true''\<rparr>)
                else Ret None))"

datatype feeder_reply =
    NoReply
  | ConnectedReply "string nats_reply"
  | MetricsReply "perFeederPerProtocolMetrics nats_reply"

definition reply_of :: "('a \<Rightarrow> feeder_reply) \<Rightarrow> 'a option go \<Rightarrow> feeder_reply go" where
  "reply_of C r = go_bind r (\<lambda>x. case x of None \<Rightarrow> Ret NoReply | Some y \<Rightarrow> Ret (C y))"

definition natsSubjFeederHandler ::
    "map_order \<Rightarrow> (string \<Rightarrow> go_err + uuid) \<Rightarrow> string \<Rightarrow> Statistics \<Rightarrow> nats_msg \<Rightarrow> feeder_reply go" where
  "natsSubjFeederHandler ord parseUUID natsInstance s msg =
     (case getProtocolFromLastToken (m_Subject msg) of
        (proto, Some e) \<Rightarrow> Ret NoReply
      | (proto, None) \<Rightarrow>
          (case parseUUID (m_Data msg) of
             Inl e \<Rightarrow> Ret NoReply
           | Inr apiKey \<Rightarrow>
               if m_Subject msg = natsSubjFeederConnectedBEAST then
                 reply_of ConnectedReply (natsSubjFeederConnectedHandler natsInstance s msg apiKey proto)
               else if m_Subject msg = natsSubjFeederConnectedMLAT then
                 reply_of ConnectedReply (natsSubjFeederConnectedHandler natsInstance s msg apiKey proto)
               else if m_Subject msg = natsSubjFeederMetricsBEAST then
                 reply_of MetricsReply (natsSubjFeederMetricsHandler ord natsInstance s msg apiKey proto)
               else if m_Subject msg = natsSubjFeederMetricsMLAT then
                 reply_of MetricsReply (natsSubjFeederMetricsHandler ord natsInstance s msg apiKey proto)
               else Ret NoReply))"

section \<open>The scan as an interface\<close>

text \<open>
  Each loop keeps a candidate in a part of the reply: taking a connection sets the part's
  time to the connection's and forgets the candidate before. Then the loop ends with a
  connection of the latest time, whatever the order of the map.
\<close>

locale latest_scan =
  fixes tm :: "'a \<Rightarrow> time" and upd :: "ConnectionDetail \<Rightarrow> 'a \<Rightarrow> 'a"
  assumes tm_upd: "tm (upd c fm) = cd_TimeConnected c"
    and upd_upd: "upd d (upd c fm) = upd d fm"
begin

lemma scan_latest:
  "(scan tm upd cs fm = fm \<and> (\<forall>c \<in> set cs. cd_TimeConnected c \<le> tm fm)) \<or>
   (\<exists>c \<in> set cs. scan tm upd cs fm = upd c fm \<and> tm fm < cd_TimeConnected c \<and>
      (\<forall>d \<in> set cs. cd_TimeConnected d \<le> cd_TimeConnected c))"
proof (induction cs arbitrary: fm)
  case (Cons c cs)
  show ?case
  proof (cases "tm fm < cd_TimeConnected c")
    case True
    then show ?thesis using Cons.IH[of "upd c fm"] by (auto simp: tm_upd upd_upd)
  next
    case False
    then show ?thesis using Cons.IH[of fm] by auto
  qed
qed simp

lemma scan_none: "(\<And>c. c \<in> set cs \<Longrightarrow> cd_TimeConnected c \<le> tm fm) \<Longrightarrow> scan tm upd cs fm = fm"
  using scan_latest[of cs fm] by force

lemma scan_some:
  assumes "c \<in> set cs" "tm fm < cd_TimeConnected c"
  obtains d where "d \<in> set cs" "scan tm upd cs fm = upd d fm" "tm fm < cd_TimeConnected d"
    "\<And>e. e \<in> set cs \<Longrightarrow> cd_TimeConnected e \<le> cd_TimeConnected d"
  using scan_latest[of cs fm] assms by force

end

interpretation pm_scan: latest_scan pm_ConnectionTime "take_pm feeder"
  by unfold_locales (simp_all add: take_pm_def)

interpretation beast_scan: latest_scan am_BeastConnectionTime take_beast
  by unfold_locales (simp_all add: take_beast_def)

interpretation mlat_scan: latest_scan am_MlatConnectionTime take_mlat
  by unfold_locales (simp_all add: take_mlat_def)

section \<open>What the replies report\<close>

definition conns_of :: "Statistics \<Rightarrow> uuid \<Rightarrow> protocol \<Rightarrow> ConnectionDetail set" where
  "conns_of s k p = {c. \<exists>n. lookup_conn s k p n = Some c}"

lemma set_details: "wf_pd pd \<Longrightarrow> set (details pd) = {c. \<exists>n. nil_get (pd_ConnectionDetails pd) n = Some c}"
  by (erule wf_pdE) (force simp: details_def gm_get_iff_mem)

lemma feeder_pd:
  assumes "wf_stats s" "gm_get (Feeders s) k = Some f" "IsValid p"
  shows "nil_get (fs_Connections f) p = Some (get_pd f p) \<and> set (details (get_pd f p)) = conns_of s k p \<and>
     (pd_Status (get_pd f p) \<longleftrightarrow> conns_of s k p \<noteq> {})"
proof -
  have wf: "wf_feeder f" by (rule wf_stats_get[OF assms(1,2)])
  obtain m where m: "fs_Connections f = Some m" "gm_get m p = Some (get_pd f p)" "wf_pd (get_pd f p)"
    using wf_feeder_pdE[OF wf assms(3)] by metis
  have g: "get_feeder s k = f" using assms(2) by (simp add: get_feeder_def)
  have "registered s k p \<noteq> {} \<longleftrightarrow> conns_of s k p \<noteq> {}"
    by (auto simp: registered_def conns_of_def)
  with count_registered(2)[OF assms(1), of k p] m show ?thesis
    by (simp add: set_details conns_of_def lookup_conn_def g)
qed

lemma no_feeder_conns: "gm_get (Feeders s) k = None \<Longrightarrow> conns_of s k p = {}"
  by (simp add: conns_of_def lookup_conn_def get_feeder_def)

text \<open>The connection a reply is about: one of the latest time, after the zero time.\<close>

definition latest :: "Statistics \<Rightarrow> uuid \<Rightarrow> protocol \<Rightarrow> ConnectionDetail \<Rightarrow> bool" where
  "latest s k p c \<longleftrightarrow> c \<in> conns_of s k p \<and> 0 < cd_TimeConnected c \<and>
     (\<forall>d \<in> conns_of s k p. cd_TimeConnected d \<le> cd_TimeConnected c)"

lemma scan_cases:
  assumes "latest_scan tm upd" "tm fm = 0" "set cs = conns_of s k p"
  obtains (none) "scan tm upd cs fm = fm" "\<And>c. c \<in> conns_of s k p \<Longrightarrow> cd_TimeConnected c \<le> 0"
        | (some) c where "scan tm upd cs fm = upd c fm" "latest s k p c"
  using latest_scan.scan_latest[OF assms(1), of cs fm] assms(2,3) unfolding latest_def by auto

lemma latest_iff: "(\<exists>c. latest s k p c) \<Longrightarrow> \<exists>c \<in> conns_of s k p. 0 < cd_TimeConnected c"
  by (auto simp: latest_def)

text \<open>
  The per-protocol metrics reply: on a well-formed store with connection times that JSON
  can carry, a request for a feeder and a valid protocol never panics; it is answered exactly
  if the feeder has a connection for the protocol with a time after the zero time, and then
  the reply goes to the request's subject, carries this instance's name, and reports the
  bytes and the time of a connection that no other is later than, with the feeder's code and
  label, whatever order the map is ranged over.
\<close>
theorem metrics_reply_latest:
  assumes "wf_stats s" "IsValid p" "\<forall>c \<in> conns_of s k p. json_time_ok (cd_TimeConnected c)" "ranges ord"
  shows "case natsSubjFeederMetricsHandler ord inst s msg k p of
      Panic m \<Rightarrow> False
    | Ret None \<Rightarrow> \<forall>c \<in> conns_of s k p. cd_TimeConnected c \<le> 0
    | Ret (Some r) \<Rightarrow> \<exists>c. latest s k p c \<and>
        r = \<lparr>r_Subject = m_Subject msg, r_instance = inst,
             r_Data = \<lparr>pm_FeederCode = fs_Code (get_feeder s k), pm_Label = fs_Label (get_feeder s k),
               pm_BytesIn = cd_BytesIn c, pm_BytesOut = cd_BytesOut c,
               pm_ConnectionTime = cd_TimeConnected c, pm_send = True\<rparr>\<rparr>"
proof (cases "gm_get (Feeders s) k")
  case None
  obtain nm where "Name p = Ret nm" using assms(2) by auto
  with None show ?thesis by (simp add: natsSubjFeederMetricsHandler_def no_feeder_conns)
next
  case (Some f)
  obtain nm where nm: "Name p = Ret nm" using assms(2) by auto
  note f = feeder_pd[OF assms(1) Some assms(2)]
  have g: "get_feeder s k = f" using Some by (simp add: get_feeder_def)
  have z: "pm_ConnectionTime zero_pm = 0" by (simp add: zero_pm_def)
  show ?thesis
  proof (rule scan_cases[OF pm_scan.latest_scan_axioms[of f] z, of "ord k p (details (get_pd f p))" s k p])
    show "set (ord k p (details (get_pd f p))) = conns_of s k p" using f by (simp add: set_ranges[OF assms(4)])
  next
    assume "scan pm_ConnectionTime (take_pm f) (ord k p (details (get_pd f p))) zero_pm = zero_pm"
      "\<And>c. c \<in> conns_of s k p \<Longrightarrow> cd_TimeConnected c \<le> 0"
    then show ?thesis
      using nm Some f by (simp add: natsSubjFeederMetricsHandler_def Let_def zero_pm_def)
  next
    fix c
    assume c: "scan pm_ConnectionTime (take_pm f) (ord k p (details (get_pd f p))) zero_pm = take_pm f c zero_pm"
      "latest s k p c"
    then have "json_time_ok (cd_TimeConnected c)" using assms(3) by (simp add: latest_def)
    then show ?thesis
      using nm Some f c
      by (auto simp: natsSubjFeederMetricsHandler_def Let_def zero_pm_def take_pm_def g)
  qed
qed

text \<open>
  The connected reply: on a well-formed store, a request for a feeder and a valid protocol
  is answered exactly if the feeder has a registered connection for the protocol, with the
  text true; otherwise there is no answer, so that another instance can give it.
\<close>
theorem connected_reply_iff:
  assumes "wf_stats s" "IsValid p"
  shows "natsSubjFeederConnectedHandler inst s msg k p =
    Ret (if registered s k p \<noteq> {}
         then Some \<lparr>r_Subject = m_Subject msg, r_instance = inst, r_Data = ''true''\<rparr> else None)"
proof -
  obtain nm where nm: "Name p = Ret nm" using assms(2) by auto
  have r: "registered s k p \<noteq> {} \<longleftrightarrow> conns_of s k p \<noteq> {}"
    by (auto simp: registered_def conns_of_def)
  show ?thesis
  proof (cases "gm_get (Feeders s) k")
    case None
    then show ?thesis using nm no_feeder_conns[OF None, of p] r
      by (simp add: natsSubjFeederConnectedHandler_def)
  next
    case (Some f)
    with nm feeder_pd[OF assms(1) Some assms(2)] r show ?thesis
      by (simp add: natsSubjFeederConnectedHandler_def)
  qed
qed

text \<open>What one half of an all-protocol reply says: connected, bytes in and out, time.\<close>

definition reports :: "Statistics \<Rightarrow> uuid \<Rightarrow> protocol \<Rightarrow> bool \<Rightarrow> u64 \<Rightarrow> u64 \<Rightarrow> time \<Rightarrow> bool" where
  "reports s k p con bIn bOut t \<longleftrightarrow>
     (if con then \<exists>c. latest s k p c \<and> bIn = cd_BytesIn c \<and> bOut = cd_BytesOut c \<and> t = cd_TimeConnected c
      else (\<forall>c \<in> conns_of s k p. cd_TimeConnected c \<le> 0) \<and> bIn = 0 \<and> bOut = 0 \<and> t = 0)"

lemma all_metrics_reports:
  assumes "wf_stats s" "gm_get (Feeders s) k = Some f" "ranges ord"
  defines "fm \<equiv> all_metrics ord k f"
  shows "reports s k BEAST (am_BeastConnected fm) (am_BeastBytesIn fm) (am_BeastBytesOut fm) (am_BeastConnectionTime fm)"
    and "reports s k MLAT (am_MlatConnected fm) (am_MlatBytesIn fm) (am_MlatBytesOut fm) (am_MlatConnectionTime fm)"
    and "am_send fm \<longleftrightarrow> am_BeastConnected fm \<or> am_MlatConnected fm"
    and "am_FeederCode fm = fs_Code f" "am_Label fm = fs_Label f"
proof -
  define fm0 where "fm0 = zero_am\<lparr>am_FeederCode := fs_Code f, am_Label := fs_Label f\<rparr>"
  define fm1 where "fm1 = scan am_BeastConnectionTime take_beast (ord k BEAST (details (get_pd f BEAST))) fm0"
  have b: "nil_get (fs_Connections f) BEAST = Some (get_pd f BEAST)" "set (ord k BEAST (details (get_pd f BEAST))) = conns_of s k BEAST"
    and m: "nil_get (fs_Connections f) MLAT = Some (get_pd f MLAT)" "set (ord k MLAT (details (get_pd f MLAT))) = conns_of s k MLAT"
    using feeder_pd[OF assms(1,2)] by (simp_all add: set_ranges[OF assms(3)])
  have fm: "fm = scan am_MlatConnectionTime take_mlat (ord k MLAT (details (get_pd f MLAT))) fm1"
    by (simp add: fm_def all_metrics_def b(1) m(1) fm1_def fm0_def Let_def)
  have z0: "am_BeastConnectionTime fm0 = 0" by (simp add: fm0_def zero_am_def)
  have one: "reports s k BEAST (am_BeastConnected fm1) (am_BeastBytesIn fm1) (am_BeastBytesOut fm1) (am_BeastConnectionTime fm1)
      \<and> am_MlatConnectionTime fm1 = 0 \<and> am_MlatBytesIn fm1 = 0 \<and> am_MlatBytesOut fm1 = 0 \<and> \<not> am_MlatConnected fm1
      \<and> am_send fm1 = am_BeastConnected fm1 \<and> am_FeederCode fm1 = fs_Code f \<and> am_Label fm1 = fs_Label f"
    by (rule scan_cases[OF beast_scan.latest_scan_axioms z0 b(2)])
       (auto simp: fm1_def fm0_def zero_am_def take_beast_def reports_def)
  then have z1: "am_MlatConnectionTime fm1 = 0" by simp
  have two: "reports s k MLAT (am_MlatConnected fm) (am_MlatBytesIn fm) (am_MlatBytesOut fm) (am_MlatConnectionTime fm)
      \<and> am_BeastConnected fm = am_BeastConnected fm1 \<and> am_BeastBytesIn fm = am_BeastBytesIn fm1
      \<and> am_BeastBytesOut fm = am_BeastBytesOut fm1 \<and> am_BeastConnectionTime fm = am_BeastConnectionTime fm1
      \<and> am_send fm = (am_send fm1 \<or> am_MlatConnected fm)
      \<and> am_FeederCode fm = am_FeederCode fm1 \<and> am_Label fm = am_Label fm1"
    by (rule scan_cases[OF mlat_scan.latest_scan_axioms z1 m(2)])
       (use one in \<open>auto simp: fm take_mlat_def reports_def\<close>)
  from one two show "reports s k BEAST (am_BeastConnected fm) (am_BeastBytesIn fm) (am_BeastBytesOut fm) (am_BeastConnectionTime fm)"
    "reports s k MLAT (am_MlatConnected fm) (am_MlatBytesIn fm) (am_MlatBytesOut fm) (am_MlatConnectionTime fm)"
    "am_send fm \<longleftrightarrow> am_BeastConnected fm \<or> am_MlatConnected fm"
    "am_FeederCode fm = fs_Code f" "am_Label fm = fs_Label f"
    by simp_all
qed

lemma reports_time_ok:
  assumes "reports s k p con bIn bOut t" "\<forall>c \<in> conns_of s k p. json_time_ok (cd_TimeConnected c)"
  shows "json_time_ok t"
proof (cases con)
  case True
  with assms show ?thesis by (auto simp: reports_def latest_def)
next
  case False
  with assms(1) show ?thesis by (simp add: reports_def json_time_ok_def second_def)
qed

text \<open>The fold of the feeders handler, over a map with distinct keys.\<close>

definition add_metrics ::
    "map_order \<Rightarrow> (uuid, perFeederAllProtocolMetrics) gomap \<Rightarrow> uuid \<times> FeederStats \<Rightarrow> (uuid, perFeederAllProtocolMetrics) gomap" where
  "add_metrics ord afm kf =
     (if am_send (all_metrics ord (fst kf) (snd kf))
      then gm_put (fst kf) (all_metrics ord (fst kf) (snd kf)) afm else afm)"

lemma fold_metrics:
  assumes "gm_wf fs"
  shows "gm_get (foldl (add_metrics ord) afm fs) k =
     (case gm_get fs k of None \<Rightarrow> gm_get afm k
      | Some f \<Rightarrow> if am_send (all_metrics ord k f) then Some (all_metrics ord k f) else gm_get afm k)"
  using assms
proof (induction fs arbitrary: afm)
  case (Cons kf fs)
  obtain k0 f0 where kf: "kf = (k0, f0)" by (cases kf)
  have wf: "gm_wf fs" and k0: "gm_get fs k0 = None"
    using Cons.prems by (auto simp: kf gm_wf_def gm_get_def map_of_eq_None_iff)
  have hd: "gm_get (kf # fs) k = (if k = k0 then Some f0 else gm_get fs k)"
    by (simp add: kf gm_get_def)
  have add: "gm_get (add_metrics ord afm kf) k =
      (if k = k0 \<and> am_send (all_metrics ord k0 f0) then Some (all_metrics ord k0 f0) else gm_get afm k)"
    by (simp add: add_metrics_def kf)
  show ?case
  proof (cases "k = k0")
    case True
    have "gm_get (kf # fs) k = Some f0" using hd True by simp
    then show ?thesis unfolding foldl_Cons Cons.IH[OF wf] add by (simp add: k0 True)
  next
    case False
    have "gm_get (kf # fs) k = gm_get fs k" "gm_get (add_metrics ord afm kf) k = gm_get afm k"
      using hd add False by simp_all
    then show ?thesis by (simp only: foldl_Cons Cons.IH[OF wf])
  qed
qed (simp add: gm_get_def)

lemma feeders_fold: "foldl (\<lambda>afm (apiKey, feeder).
     let fm = all_metrics ord apiKey feeder in if am_send fm then gm_put apiKey fm afm else afm) a xs =
   foldl (add_metrics ord) a xs"
  by (rule arg_cong[of _ _ "\<lambda>f. foldl f a xs"]) (simp add: fun_eq_iff add_metrics_def Let_def)

lemma wf_fold_metrics: "gm_wf afm \<Longrightarrow> gm_wf (foldl (add_metrics ord) afm fs)"
  by (induction fs arbitrary: afm) (simp_all add: add_metrics_def)

text \<open>
  Two reports on the same connections differ at most in the bytes, and only if two
  connections share the latest time.
\<close>

definition untied :: "Statistics \<Rightarrow> uuid \<Rightarrow> bool" where
  "untied s k \<longleftrightarrow> (\<forall>p c d. latest s k p c \<and> latest s k p d \<longrightarrow> c = d)"

lemma reports_unique:
  assumes "reports s k p con bIn bOut t" "reports s k p con' bIn' bOut' t'"
  shows "con = con' \<and> t = t' \<and> (untied s k \<longrightarrow> bIn = bIn' \<and> bOut = bOut')"
proof -
  have t: "cd_TimeConnected c = cd_TimeConnected d" if "latest s k p c" "latest s k p d" for c d
    using that by (meson latest_def order_antisym)
  have no: "\<not> latest s k p c" if "\<forall>c \<in> conns_of s k p. cd_TimeConnected c \<le> 0" for c
    using that by (force simp: latest_def)
  have con: "con = con'"
    using assms no unfolding reports_def by (cases con; cases con') force+
  show ?thesis
  proof (cases con)
    case True
    with assms con obtain c c' where c: "latest s k p c" "bIn = cd_BytesIn c" "bOut = cd_BytesOut c"
        "t = cd_TimeConnected c" and c': "latest s k p c'" "bIn' = cd_BytesIn c'" "bOut' = cd_BytesOut c'"
        "t' = cd_TimeConnected c'"
      unfolding reports_def by auto
    have "c = c'" if "untied s k" using that c(1) c'(1) unfolding untied_def by blast
    with con t[OF c(1) c'(1)] c(2-) c'(2-) show ?thesis by auto
  next
    case False
    with assms con show ?thesis by (simp add: reports_def)
  qed
qed

abbreviation reports_body :: "Statistics \<Rightarrow> uuid \<Rightarrow> perFeederAllProtocolMetrics \<Rightarrow> bool" where
  "reports_body s k fm \<equiv>
     reports s k BEAST (am_BeastConnected fm) (am_BeastBytesIn fm) (am_BeastBytesOut fm) (am_BeastConnectionTime fm) \<and>
     reports s k MLAT (am_MlatConnected fm) (am_MlatBytesIn fm) (am_MlatBytesOut fm) (am_MlatConnectionTime fm)"

definition with_bytes_of :: "perFeederAllProtocolMetrics \<Rightarrow> perFeederAllProtocolMetrics \<Rightarrow> perFeederAllProtocolMetrics" where
  "with_bytes_of fm' fm = fm\<lparr>am_BeastBytesIn := am_BeastBytesIn fm', am_BeastBytesOut := am_BeastBytesOut fm',
     am_MlatBytesIn := am_MlatBytesIn fm', am_MlatBytesOut := am_MlatBytesOut fm'\<rparr>"

lemma all_metrics_orders:
  assumes "wf_stats s" "gm_get (Feeders s) k = Some f" "ranges ord" "ranges ord'"
  shows "all_metrics ord' k f = with_bytes_of (all_metrics ord' k f) (all_metrics ord k f) \<and>
    (untied s k \<longrightarrow> all_metrics ord' k f = all_metrics ord k f)"
proof -
  note r = all_metrics_reports[OF assms(1,2,3)] and r' = all_metrics_reports[OF assms(1,2,4)]
  show ?thesis
    using reports_unique[OF r(1) r'(1)] reports_unique[OF r(2) r'(2)] r(3-5) r'(3-5)
    by (simp add: with_bytes_of_def)
qed

text \<open>
  C34. The bulk reply and the single replies agree: on a well-formed store with connection
  times that JSON can carry, the request for all feeders is always answered, and the entry
  for a feeder is there exactly if the request for that feeder alone is answered. Both
  bodies say of each protocol whether there is a connection, with the bytes and time of one
  that no other is later than, zeros otherwise. They are equal if the two requests range
  over the connections in the same order or no two connections share the latest time;
  whatever the two orders are, they differ at most in the bytes.
\<close>
theorem feeders_reply_agrees:
  assumes "wf_stats s" "\<forall>k p. \<forall>c \<in> conns_of s k p. json_time_ok (cd_TimeConnected c)"
    "ranges ord" "ranges ord'"
  shows "\<exists>afm. natsSubjFeedersMetricsHandler ord inst s msg =
       Some \<lparr>r_Subject = m_Subject msg, r_instance = inst, r_Data = afm\<rparr> \<and>
     (case gm_get afm k of
        None \<Rightarrow> \<forall>c \<in> conns_of s k BEAST \<union> conns_of s k MLAT. cd_TimeConnected c \<le> 0
      | Some fm \<Rightarrow> reports_body s k fm) \<and>
     (parseUUID (m_Data msg) = Inr k \<longrightarrow>
        (case gm_get afm k of
           None \<Rightarrow> natsSubjFeederMetricsAllProtocolsHandler ord' parseUUID inst s msg = None
         | Some fm \<Rightarrow> \<exists>fm'.
             natsSubjFeederMetricsAllProtocolsHandler ord' parseUUID inst s msg =
               Some \<lparr>r_Subject = m_Subject msg, r_instance = inst, r_Data = fm'\<rparr> \<and>
             reports_body s k fm' \<and> fm' = with_bytes_of fm' fm \<and>
             (ord' = ord \<or> untied s k \<longrightarrow> fm' = fm)))"
proof -
  define afm where "afm = foldl (add_metrics ord) gm_empty (Feeders s)"
  have wf: "gm_wf (Feeders s)" using assms(1) by (simp add: wf_stats_def)
  have get: "gm_get afm k = (case gm_get (Feeders s) k of None \<Rightarrow> None
      | Some f \<Rightarrow> if am_send (all_metrics ord k f) then Some (all_metrics ord k f) else None)" for k
    by (simp add: afm_def fold_metrics[OF wf] split: option.split)
  have wfa: "gm_wf afm" by (simp add: afm_def wf_fold_metrics)
  have ok: "am_json_ok (all_metrics ord k f)" if "gm_get (Feeders s) k = Some f" "ranges ord" for k f ord
    using all_metrics_reports(1,2)[OF assms(1) that] assms(2) reports_time_ok
    unfolding am_json_ok_def by metis
  have "am_json_ok fm" if "(k, fm) \<in> set afm" for k fm
  proof -
    have "gm_get afm k = Some fm" using that gm_get_iff_mem[OF wfa] by blast
    then show ?thesis using get[of k] ok[OF _ assms(3), of k] by (simp split: option.splits if_splits)
  qed
  then have all: "list_all (\<lambda>(k, fm). am_json_ok fm) afm" by (auto simp: list_all_iff)
  have "natsSubjFeedersMetricsHandler ord inst s msg =
      Some \<lparr>r_Subject = m_Subject msg, r_instance = inst, r_Data = afm\<rparr>"
    using all by (simp add: natsSubjFeedersMetricsHandler_def feeders_fold flip: afm_def)
  moreover have "(case gm_get afm k of
        None \<Rightarrow> \<forall>c \<in> conns_of s k BEAST \<union> conns_of s k MLAT. cd_TimeConnected c \<le> 0
      | Some fm \<Rightarrow> reports_body s k fm) \<and>
     (parseUUID (m_Data msg) = Inr k \<longrightarrow>
        (case gm_get afm k of
           None \<Rightarrow> natsSubjFeederMetricsAllProtocolsHandler ord' parseUUID inst s msg = None
         | Some fm \<Rightarrow> \<exists>fm'.
             natsSubjFeederMetricsAllProtocolsHandler ord' parseUUID inst s msg =
               Some \<lparr>r_Subject = m_Subject msg, r_instance = inst, r_Data = fm'\<rparr> \<and>
             reports_body s k fm' \<and> fm' = with_bytes_of fm' fm \<and>
             (ord' = ord \<or> untied s k \<longrightarrow> fm' = fm)))"
  proof (cases "gm_get (Feeders s) k")
    case None
    then show ?thesis by (simp add: get no_feeder_conns natsSubjFeederMetricsAllProtocolsHandler_def)
  next
    case (Some f)
    note r = all_metrics_reports(1,2,3)[OF assms(1) Some assms(3)]
    note r' = all_metrics_reports(1,2,3)[OF assms(1) Some assms(4)]
    note o = all_metrics_orders[OF assms(1) Some assms(3,4)]
    have single: "natsSubjFeederMetricsAllProtocolsHandler ord' parseUUID inst s msg =
        (if am_send (all_metrics ord' k f)
         then Some \<lparr>r_Subject = m_Subject msg, r_instance = inst, r_Data = all_metrics ord' k f\<rparr> else None)"
      if "parseUUID (m_Data msg) = Inr k"
      using that ok[OF Some assms(4)] Some
      by (simp add: natsSubjFeederMetricsAllProtocolsHandler_def Let_def)
    have send: "am_send (all_metrics ord' k f) = am_send (all_metrics ord k f)"
      using r(3) r'(3) reports_unique[OF r(1) r'(1)] reports_unique[OF r(2) r'(2)] by simp
    show ?thesis
    proof (cases "am_send (all_metrics ord k f)")
      case False
      with r have "\<not> am_BeastConnected (all_metrics ord k f)" "\<not> am_MlatConnected (all_metrics ord k f)" by simp_all
      with r(1,2) have "\<forall>c \<in> conns_of s k BEAST \<union> conns_of s k MLAT. cd_TimeConnected c \<le> 0"
        unfolding reports_def by auto
      with False single send show ?thesis by (simp add: get Some)
    next
      case True
      then have "gm_get afm k = Some (all_metrics ord k f)" by (simp add: get Some)
      with True single send r(1,2) r'(1,2) o show ?thesis by auto
    qed
  qed
  ultimately show ?thesis by blast
qed

text \<open>
  Routing of the per-feeder subjects: whatever the store holds the handler never panics; a
  message on any other subject than the four it is subscribed to, or whose data is not a
  UUID, is not answered, whatever the subject's last token is; on a connected subject the
  answer is that of the connected handler and on a metrics subject that of the metrics
  handler, for the protocol the subject names.
\<close>
theorem natsSubjFeederHandler_routes:
  "natsSubjFeederHandler ord parseUUID inst s msg =
     (case parseUUID (m_Data msg) of
        Inl e \<Rightarrow> Ret NoReply
      | Inr k \<Rightarrow>
          if m_Subject msg = natsSubjFeederConnectedBEAST then
            reply_of ConnectedReply (natsSubjFeederConnectedHandler inst s msg k BEAST)
          else if m_Subject msg = natsSubjFeederConnectedMLAT then
            reply_of ConnectedReply (natsSubjFeederConnectedHandler inst s msg k MLAT)
          else if m_Subject msg = natsSubjFeederMetricsBEAST then
            reply_of MetricsReply (natsSubjFeederMetricsHandler ord inst s msg k BEAST)
          else if m_Subject msg = natsSubjFeederMetricsMLAT then
            reply_of MetricsReply (natsSubjFeederMetricsHandler ord inst s msg k MLAT)
          else Ret NoReply) \<and>
   returns (natsSubjFeederHandler ord parseUUID inst s msg)"
proof -
  have tok: "getProtocolFromLastToken natsSubjFeederConnectedBEAST = (BEAST, None)"
    "getProtocolFromLastToken natsSubjFeederConnectedMLAT = (MLAT, None)"
    "getProtocolFromLastToken natsSubjFeederMetricsBEAST = (BEAST, None)"
    "getProtocolFromLastToken natsSubjFeederMetricsMLAT = (MLAT, None)"
    by code_simp+
  have dist: "natsSubjFeederConnectedBEAST \<noteq> natsSubjFeederConnectedMLAT"
    "natsSubjFeederConnectedBEAST \<noteq> natsSubjFeederMetricsBEAST"
    "natsSubjFeederConnectedBEAST \<noteq> natsSubjFeederMetricsMLAT"
    "natsSubjFeederConnectedMLAT \<noteq> natsSubjFeederMetricsBEAST"
    "natsSubjFeederConnectedMLAT \<noteq> natsSubjFeederMetricsMLAT"
    "natsSubjFeederMetricsBEAST \<noteq> natsSubjFeederMetricsMLAT"
    by code_simp+
  have eq: "natsSubjFeederHandler ord parseUUID inst s msg =
     (case parseUUID (m_Data msg) of
        Inl e \<Rightarrow> Ret NoReply
      | Inr k \<Rightarrow>
          if m_Subject msg = natsSubjFeederConnectedBEAST then
            reply_of ConnectedReply (natsSubjFeederConnectedHandler inst s msg k BEAST)
          else if m_Subject msg = natsSubjFeederConnectedMLAT then
            reply_of ConnectedReply (natsSubjFeederConnectedHandler inst s msg k MLAT)
          else if m_Subject msg = natsSubjFeederMetricsBEAST then
            reply_of MetricsReply (natsSubjFeederMetricsHandler ord inst s msg k BEAST)
          else if m_Subject msg = natsSubjFeederMetricsMLAT then
            reply_of MetricsReply (natsSubjFeederMetricsHandler ord inst s msg k MLAT)
          else Ret NoReply)"
    unfolding natsSubjFeederHandler_def
    by (cases "m_Subject msg \<in> {natsSubjFeederConnectedBEAST, natsSubjFeederConnectedMLAT,
          natsSubjFeederMetricsBEAST, natsSubjFeederMetricsMLAT}")
       (auto simp: tok dist dist[symmetric] split: sum.split prod.split option.split)
  have ret: "returns (reply_of C x)" if "returns x" for C and x :: "'a option go"
    using that by (cases x) (simp_all add: reply_of_def split: option.split)
  have h: "returns (natsSubjFeederConnectedHandler inst s msg k p)"
    "returns (natsSubjFeederMetricsHandler ord inst s msg k p)" if "IsValid p" for k p
    using that
    by (auto simp: natsSubjFeederConnectedHandler_def natsSubjFeederMetricsHandler_def Let_def split: option.split)
  have "returns (natsSubjFeederHandler ord parseUUID inst s msg)"
    unfolding eq using h by (auto intro!: ret split: sum.split)
  with eq show ?thesis by simp
qed

section \<open>Witnesses\<close>

text \<open>A feeder with two BEAST connections, the second later.\<close>

definition two_connections :: Statistics where
  "two_connections =
     (case stats_run [OpRegisterFeeder \<lparr>fd_Label = ''home'', fd_FeederCode = ''YPPH-1'', fd_ApiKey = 7\<rparr> 1,
        OpRegister (conn_of ''10.0.0.1:1'' ''10.0.0.9:2'' ''YPPH-1'' (7, BEAST, 1)) 5 5,
        OpRegister (conn_of ''10.0.0.1:3'' ''10.0.0.9:4'' ''YPPH-1'' (7, BEAST, 2)) 9 9] started of
        Ret (es, st) \<Rightarrow> stats st | Panic m \<Rightarrow> stats_init)"

lemma wf_two_connections: "wf_stats two_connections"
  unfolding two_connections_def
  by (rule started_run[of "[OpRegisterFeeder \<lparr>fd_Label = ''home'', fd_FeederCode = ''YPPH-1'', fd_ApiKey = 7\<rparr> 1,
        OpRegister (conn_of ''10.0.0.1:1'' ''10.0.0.9:2'' ''YPPH-1'' (7, BEAST, 1)) 5 5,
        OpRegister (conn_of ''10.0.0.1:3'' ''10.0.0.9:4'' ''YPPH-1'' (7, BEAST, 2)) 9 9]"])
     simp

lemma two_connections_times: "\<forall>k p. \<forall>c \<in> conns_of two_connections k p. json_time_ok (cd_TimeConnected c)"
proof (intro allI ballI)
  fix k p c
  assume c: "c \<in> conns_of two_connections k p"
  have F: "gm_keys (Feeders two_connections) = [7]" by code_simp
  have k: "k = 7"
  proof (rule ccontr)
    assume "k \<noteq> 7"
    then have "gm_get (Feeders two_connections) k = None"
      using F by (simp add: gm_keys_def gm_get_def map_of_eq_None_iff image_set)
    with c show False by (simp add: no_feeder_conns)
  qed
  have v: "IsValid p" using c lookup_conn_valid[OF wf_two_connections] by (force simp: conns_of_def)
  obtain f where f: "gm_get (Feeders two_connections) 7 = Some f"
    "list_all (\<lambda>c. json_time_ok (cd_TimeConnected c)) (details (get_pd f BEAST))"
    "list_all (\<lambda>c. json_time_ok (cd_TimeConnected c)) (details (get_pd f MLAT))"
  proof -
    have "(case gm_get (Feeders two_connections) 7 of None \<Rightarrow> False
      | Some f \<Rightarrow> list_all (\<lambda>c. json_time_ok (cd_TimeConnected c)) (details (get_pd f BEAST)) \<and>
          list_all (\<lambda>c. json_time_ok (cd_TimeConnected c)) (details (get_pd f MLAT)))"
      by code_simp
    then show ?thesis using that by (auto split: option.splits)
  qed
  have "set (details (get_pd f p)) = conns_of two_connections 7 p"
    using feeder_pd[OF wf_two_connections f(1) v] by simp
  with c k v f(2,3) show "json_time_ok (cd_TimeConnected c)"
    by (auto simp: list_all_iff)
qed

theorem metrics_reply_latest_witness:
  "case natsSubjFeederMetricsHandler (\<lambda>_ _. rev) ''bc1'' two_connections
       \<lparr>m_Subject = natsSubjFeederMetricsBEAST, m_Data = ''k''\<rparr> 7 BEAST of
      Panic m \<Rightarrow> False
    | Ret None \<Rightarrow> \<forall>c \<in> conns_of two_connections 7 BEAST. cd_TimeConnected c \<le> 0
    | Ret (Some r) \<Rightarrow> \<exists>c. latest two_connections 7 BEAST c \<and>
        r = \<lparr>r_Subject = m_Subject \<lparr>m_Subject = natsSubjFeederMetricsBEAST, m_Data = ''k''\<rparr>, r_instance = ''bc1'',
             r_Data = \<lparr>pm_FeederCode = fs_Code (get_feeder two_connections 7),
               pm_Label = fs_Label (get_feeder two_connections 7),
               pm_BytesIn = cd_BytesIn c, pm_BytesOut = cd_BytesOut c,
               pm_ConnectionTime = cd_TimeConnected c, pm_send = True\<rparr>\<rparr>"
  by (rule metrics_reply_latest[OF wf_two_connections]) (simp_all add: two_connections_times)

theorem connected_reply_iff_witness:
  "natsSubjFeederConnectedHandler ''bc1'' two_connections
       \<lparr>m_Subject = natsSubjFeederConnectedMLAT, m_Data = ''k''\<rparr> 7 MLAT =
    Ret (if registered two_connections 7 MLAT \<noteq> {}
         then Some \<lparr>r_Subject = m_Subject \<lparr>m_Subject = natsSubjFeederConnectedMLAT, m_Data = ''k''\<rparr>,
                    r_instance = ''bc1'', r_Data = ''true''\<rparr> else None)"
  by (rule connected_reply_iff[OF wf_two_connections]) simp

theorem feeders_reply_agrees_witness:
  "\<exists>afm. natsSubjFeedersMetricsHandler (\<lambda>_ _ cs. cs) ''bc1'' two_connections \<lparr>m_Subject = natsSubjFeedersMetrics, m_Data = ''k''\<rparr> =
       Some \<lparr>r_Subject = m_Subject \<lparr>m_Subject = natsSubjFeedersMetrics, m_Data = ''k''\<rparr>, r_instance = ''bc1'', r_Data = afm\<rparr> \<and>
     (\<exists>fm fm'. gm_get afm 7 = Some fm \<and>
        natsSubjFeederMetricsAllProtocolsHandler (\<lambda>_ _. rev) (\<lambda>_. Inr 7) ''bc1'' two_connections
          \<lparr>m_Subject = natsSubjFeedersMetrics, m_Data = ''k''\<rparr> =
        Some \<lparr>r_Subject = m_Subject \<lparr>m_Subject = natsSubjFeedersMetrics, m_Data = ''k''\<rparr>,
          r_instance = ''bc1'', r_Data = fm'\<rparr> \<and>
        reports_body two_connections 7 fm' \<and> fm' = with_bytes_of fm' fm)"
proof -
  have "gm_get (case natsSubjFeedersMetricsHandler (\<lambda>_ _ cs. cs) ''bc1'' two_connections
      \<lparr>m_Subject = natsSubjFeedersMetrics, m_Data = ''k''\<rparr> of Some r \<Rightarrow> r_Data r | None \<Rightarrow> gm_empty) 7 \<noteq> None"
    by code_simp
  then show ?thesis
    using feeders_reply_agrees[OF wf_two_connections two_connections_times ranges_some, of "''bc1''"
        "\<lparr>m_Subject = natsSubjFeedersMetrics, m_Data = ''k''\<rparr>" 7 "\<lambda>_. Inr 7"]
    by (auto split: option.splits)
qed

end
