(* ===== verification/StatsProm.thy ===== *)
theory StatsProm
  imports StatsNats "HOL-Library.Multiset"
begin

text \<open>
  The Prometheus side of the statistics package, \<open>lib/stats/stats_prom.go\<close>, and the package's
  lifecycle, \<open>Init\<close> and \<open>Close\<close> of \<open>lib/stats/stats.go\<close>.

  The Prometheus client is a parameter: \<open>Register\<close> and \<open>Unregister\<close> act on a registry of their
  own and know a collector by its description. A collector is its description and an
  identity (Go compares the pointers). The gauges compute in \<open>float64\<close>, which is exact for
  the counts below two to the 53; the model computes the integer.
\<close>

datatype metric =
    MConnections protocol | MFeedersActive protocol | MDataIn protocol | MDataOut protocol
  | MFeederDataIn | MFeederDataOut | MOther string

type_synonym collector = "metric \<times> nat"

record 'r prom =
  pr_register :: "metric \<Rightarrow> 'r \<Rightarrow> error \<times> 'r"
  pr_unregister :: "metric \<Rightarrow> 'r \<Rightarrow> bool \<times> 'r"

section \<open>The collectors' functions\<close>

text \<open>The loop \<open>for u := range stats.Feeders\<close> of a gauge.\<close>

definition connections_gauge :: "protocol \<Rightarrow> Statistics \<Rightarrow> int" where
  "connections_gauge p s =
     foldl (\<lambda>n u. n + pd_ConnectionCount (get_pd (get_feeder s u) p)) 0 (gm_keys (Feeders s))"

definition feeders_active_gauge :: "protocol \<Rightarrow> Statistics \<Rightarrow> int" where
  "feeders_active_gauge p s =
     foldl (\<lambda>n u. if pd_Status (get_pd (get_feeder s u) p) = True then n + 1 else n) 0
       (gm_keys (Feeders s))"

definition global_collector_value :: "metric \<Rightarrow> Statistics \<Rightarrow> int" where
  "global_collector_value m s =
     (case m of
        MConnections p \<Rightarrow> connections_gauge p s
      | MFeedersActive p \<Rightarrow> feeders_active_gauge p s
      | MDataIn p \<Rightarrow> uint (if p = BEAST then BytesInBEAST s else BytesInMLAT s)
      | MDataOut p \<Rightarrow> uint (if p = BEAST then BytesOutBEAST s else BytesOutMLAT s)
      | _ \<Rightarrow> 0)"

section \<open>Registration\<close>

definition RegisterPromCollector ::
    "'r prom \<Rightarrow> collector \<Rightarrow> collector list \<times> 'r \<Rightarrow> error \<times> collector list \<times> 'r" where
  "RegisterPromCollector prom c st =
     (case pr_register prom (fst c) (snd st) of
        (Some e, r) \<Rightarrow> (Some e, fst st, r)
      | (None, r) \<Rightarrow> (None, fst st @ [c], r))"

text \<open>The search loop of \<open>UnregisterPromCollector\<close>: the index of the first equal entry.\<close>

fun find_collector :: "collector \<Rightarrow> collector list \<Rightarrow> nat option" where
  "find_collector c [] = None"
| "find_collector c (d # ds) =
     (if d = c then Some 0 else map_option Suc (find_collector c ds))"

definition UnregisterPromCollector ::
    "'r prom \<Rightarrow> collector \<Rightarrow> collector list \<times> 'r \<Rightarrow> error \<times> collector list \<times> 'r" where
  "UnregisterPromCollector prom c st =
     (let (b, r) = pr_unregister prom (fst c) (snd st); promCollectors = fst st in
      if b \<noteq> True then (Some ErrPromCounterDidNotUnregister, promCollectors, r)
      else (case find_collector c promCollectors of
              Some i \<Rightarrow>
                let cs = promCollectors[i := promCollectors ! (length promCollectors - 1)]
                in (None, take (length cs - 1) cs, r)
            | None \<Rightarrow> (Some ErrPromCouldNotFindCounter, promCollectors, r)))"

text \<open>The loop that registers a list of collectors and returns the first error.\<close>

fun register_all ::
    "'r prom \<Rightarrow> collector list \<Rightarrow> collector list \<times> 'r \<Rightarrow> error \<times> collector list \<times> 'r" where
  "register_all prom [] st = (None, st)"
| "register_all prom (c # cs) st =
     (case RegisterPromCollector prom c st of
        (Some e, st1) \<Rightarrow> (Some e, st1)
      | (None, st1) \<Rightarrow> register_all prom cs st1)"

definition global_metrics :: "metric list" where
  "global_metrics =
     [MConnections BEAST, MConnections MLAT, MFeedersActive BEAST, MFeedersActive MLAT,
      MDataIn BEAST, MDataOut BEAST, MDataIn MLAT, MDataOut MLAT]"

text \<open>\<open>n\<close> is the first unused identity.\<close>

definition registerGlobalCollectors ::
    "'r prom \<Rightarrow> nat \<Rightarrow> collector list \<times> 'r \<Rightarrow> error \<times> collector list \<times> 'r" where
  "registerGlobalCollectors prom n st =
     register_all prom (zip global_metrics [n..<n + length global_metrics]) st"

definition registerPerFeederCounterVecs ::
    "'r prom \<Rightarrow> nat \<Rightarrow> collector list \<times> 'r \<Rightarrow> error \<times> collector list \<times> 'r" where
  "registerPerFeederCounterVecs prom n st =
     (case RegisterPromCollector prom (MFeederDataIn, n) st of
        (Some e, st1) \<Rightarrow> (Some e, st1)
      | (None, st1) \<Rightarrow>
          (case RegisterPromCollector prom (MFeederDataOut, n + 1) st1 of
             (Some e, st2) \<Rightarrow> (Some e, st2)
           | (None, st2) \<Rightarrow> (None, st2)))"

section \<open>The package\<close>

record 'r stats_pkg =
  pk_store :: stats_state
  promCollectors :: "collector list"
  pk_registry :: 'r
  pk_next :: nat
  pk_evictor :: bool  \<comment> \<open>the evictor goroutine runs\<close>
  pk_server :: bool  \<comment> \<open>the HTTP server is started\<close>
  natsInstance :: string
  pk_nats :: nats_state  \<comment> \<open>the state of package \<open>nats_io\<close>\<close>

record 'r stats_env =
  se_prom :: "'r prom"
  se_nc_connected :: bool
  se_subscribe :: "string \<Rightarrow> error"

definition set_proms :: "collector list \<times> 'r \<Rightarrow> 'r stats_pkg \<Rightarrow> 'r stats_pkg" where
  "set_proms cr s = s\<lparr>promCollectors := fst cr, pk_registry := snd cr\<rparr>"

definition stats_Init :: "'r stats_env \<Rightarrow> 'r stats_pkg \<Rightarrow> error \<times> 'r stats_pkg" where
  "stats_Init env s =
     (if st_initialised (pk_store s) then (Some ErrStatsAlreadyInitialised, s)
      else
        (case registerGlobalCollectors (se_prom env) (pk_next s) (promCollectors s, pk_registry s) of
           (Some e, cr) \<Rightarrow> (Some e, set_proms cr s\<lparr>pk_next := pk_next s + 10\<rparr>)
         | (None, cr) \<Rightarrow>
           (case registerPerFeederCounterVecs (se_prom env) (pk_next s + 8) cr of
              (Some e, cr1) \<Rightarrow> (Some e, set_proms cr1 s\<lparr>pk_next := pk_next s + 10\<rparr>)
            | (None, cr1) \<Rightarrow>
              let s1 = (set_proms cr1 s)\<lparr>pk_next := pk_next s + 10,
                         pk_store := (pk_store s)\<lparr>stats := stats_init\<rparr>, pk_evictor := True\<rparr>;
                  (e, s2) = (if IsConnected (se_nc_connected env) (pk_nats s1) then
                               let (e, inst, nt) = initNats (se_subscribe env) (pk_nats s1)
                               in (e, s1\<lparr>natsInstance := inst, pk_nats := nt\<rparr>)
                             else (None, s1))
              in (case e of
                    Some err \<Rightarrow> (Some err, s2)
                  | None \<Rightarrow> (None, s2\<lparr>pk_store := (pk_store s2)\<lparr>st_initialised := True\<rparr>,
                                     pk_server := True\<rparr>)))))"

text \<open>The loop of \<open>Close\<close>: every collector is unregistered, the slice is not emptied.\<close>

fun unregister_all :: "'r prom \<Rightarrow> collector list \<Rightarrow> 'r \<Rightarrow> 'r" where
  "unregister_all prom [] r = r"
| "unregister_all prom (c # cs) r = unregister_all prom cs (snd (pr_unregister prom (fst c) r))"

definition stats_Close :: "'r prom \<Rightarrow> 'r stats_pkg \<Rightarrow> error \<times> 'r stats_pkg" where
  "stats_Close prom s =
     (if \<not> st_initialised (pk_store s) then (Some ErrStatsNotInitialised, s)
      else (None, s\<lparr>pk_registry := unregister_all prom (promCollectors s) (pk_registry s),
                    pk_server := False, pk_evictor := False,
                    pk_store := (pk_store s)\<lparr>st_initialised := False\<rparr>\<rparr>))"

section \<open>The gauges count the registry\<close>

lemma foldl_add_int: "foldl (\<lambda>n u. n + f u) (a::int) us = a + (\<Sum>u\<leftarrow>us. f u)"
  by (induction us arbitrary: a) simp_all

lemma connections_gauge_sum:
  assumes "wf_stats s"
  shows "connections_gauge p s = int (card {(k, n). lookup_conn s k p n \<noteq> None})"
proof -
  have d: "distinct (gm_keys (Feeders s))"
    using assms by (simp add: wf_stats_def gm_wf_def gm_keys_def)
  have out: "registered s k p = {}" if "k \<notin> set (gm_keys (Feeders s))" for k
    using that by (auto simp: registered_def lookup_conn_def get_feeder_def gm_keys_def gm_get_def
        map_of_eq_None_iff[symmetric])
  have set: "{(k, n). lookup_conn s k p n \<noteq> None} =
      (SIGMA k : set (gm_keys (Feeders s)). registered s k p)"
    using out by (force simp: registered_def)
  have "connections_gauge p s = (\<Sum>u\<leftarrow>gm_keys (Feeders s). int (card (registered s u p)))"
    by (simp add: connections_gauge_def foldl_add_int count_registered(1)[OF assms])
  also have "\<dots> = (\<Sum>u\<in>set (gm_keys (Feeders s)). int (card (registered s u p)))"
    using d by (simp add: sum_list_distinct_conv_sum_set)
  also have "\<dots> = int (card {(k, n). lookup_conn s k p n \<noteq> None})"
    unfolding set using count_registered(3)[OF assms] by (simp add: card_SigmaI)
  finally show ?thesis .
qed

lemma feeders_active_gauge_card:
  assumes "wf_stats s"
  shows "feeders_active_gauge p s = int (card {k. \<exists>n. lookup_conn s k p n \<noteq> None})"
proof -
  have d: "distinct (gm_keys (Feeders s))"
    using assms by (simp add: wf_stats_def gm_wf_def gm_keys_def)
  have out: "registered s k p = {}" if "k \<notin> set (gm_keys (Feeders s))" for k
    using that by (auto simp: registered_def lookup_conn_def get_feeder_def gm_keys_def gm_get_def
        map_of_eq_None_iff[symmetric])
  have fold: "foldl (\<lambda>n u. if pd_Status (get_pd (get_feeder s u) p) = True then n + 1 else n) a us =
      a + int (length (filter (\<lambda>u. registered s u p \<noteq> {}) us))" for a us
    by (induction us arbitrary: a) (simp_all add: count_registered(2)[OF assms])
  have "{k. \<exists>n. lookup_conn s k p n \<noteq> None} = set (filter (\<lambda>u. registered s u p \<noteq> {}) (gm_keys (Feeders s)))"
    using out by (force simp: registered_def)
  then show ?thesis
    using distinct_card[OF distinct_filter[OF d]] fold[of 0 "gm_keys (Feeders s)"]
    by (simp add: feeders_active_gauge_def)
qed

text \<open>
  C32. The exported gauges are the registry's sizes: after any sequence of store operations
  from \<open>Init\<close>, the connections gauge of a protocol is the number of its registered connections
  over all feeders, and the active-feeders gauge the number of feeders with at least one.
\<close>
theorem gauges_count_registry:
  "\<exists>es st'. stats_run ops started = Ret (es, st') \<and>
     global_collector_value (MConnections p) (stats st') =
       int (card {(k, n). snd (spec_run ops (\<lambda>_ _ _. None)) k p n \<noteq> None}) \<and>
     global_collector_value (MFeedersActive p) (stats st') =
       int (card {k. \<exists>n. snd (spec_run ops (\<lambda>_ _ _. None)) k p n \<noteq> None})"
proof (rule started_run[of ops])
  fix es st'
  assume "stats_run ops started = Ret (es, st')" "wf_stats (stats st')"
    "lookup_conn (stats st') = snd (spec_run ops (\<lambda>_ _ _. None))"
  then show ?thesis
    using connections_gauge_sum[of "stats st'" p] feeders_active_gauge_card[of "stats st'" p]
    by (simp add: global_collector_value_def)
qed

section \<open>The list of collectors\<close>

lemma find_collector_Some:
  "find_collector c cs = Some i \<Longrightarrow> i < length cs \<and> cs ! i = c"
  by (induction cs arbitrary: i) (auto split: if_splits)

lemma find_collector_None: "find_collector c cs = None \<longleftrightarrow> c \<notin> set cs"
  by (induction cs) auto

lemma mset_swap_remove:
  assumes "i < length cs"
  shows "mset (take (length cs - 1) (cs[i := cs ! (length cs - 1)])) = mset cs - {#cs ! i#}"
proof -
  obtain ys y where cs: "cs = ys @ [y]" using assms by (cases cs rule: rev_cases) auto
  show ?thesis
  proof (cases "i = length ys")
    case True
    then show ?thesis by (simp add: cs)
  next
    case False
    then have i: "i < length ys" using assms by (simp add: cs)
    then show ?thesis by (simp add: cs nth_append list_update_append mset_update)
  qed
qed

lemma UnregisterPromCollector_registry:
  "snd (snd (UnregisterPromCollector prom c st)) = snd (pr_unregister prom (fst c) (snd st))"
  by (auto simp: UnregisterPromCollector_def Let_def split: prod.split option.split)

text \<open>
  Unregistering a collector takes exactly that collector from the package's list, with the
  swap with the last entry and the cut losing and duplicating nothing, and it succeeds exactly
  if Prometheus knew it and the list holds it; on every error the list is as before.
\<close>
theorem UnregisterPromCollector_removes_one:
  "case UnregisterPromCollector prom c (cs, r) of (e, cs', r') \<Rightarrow>
     r' = snd (pr_unregister prom (fst c) r) \<and>
     e = (if \<not> fst (pr_unregister prom (fst c) r) then Some ErrPromCounterDidNotUnregister
          else if c \<notin> set cs then Some ErrPromCouldNotFindCounter else None) \<and>
     mset cs' = (if e = None then mset cs - {#c#} else mset cs)"
proof (cases "find_collector c cs")
  case None
  then show ?thesis
    using find_collector_None[of c cs]
    by (auto simp: UnregisterPromCollector_def split: prod.split)
next
  case (Some i)
  have "c \<in> set cs" using find_collector_None[of c cs] Some by simp
  with find_collector_Some[OF Some] mset_swap_remove[of i cs] Some show ?thesis
    by (auto simp: UnregisterPromCollector_def Let_def split: prod.split)
qed

section \<open>Lifecycle\<close>

lemma sub_all_up:
  "nt_initialised t \<Longrightarrow> fst (sub_all subscribe subjs t) = None \<and>
      nt_subs (snd (sub_all subscribe subjs t)) =
        nt_subs t @ filter (\<lambda>subj. subscribe subj = None) subjs"
proof (induction subjs arbitrary: t)
  case (Cons subj subjs)
  then show ?case by (cases "subscribe subj") (simp_all add: Sub_def)
qed simp

lemma initNats_None: "IsConnected nc st \<Longrightarrow> fst (initNats subscribe st) = None"
  using sub_all_up[of st subscribe initNats_subjects]
  by (cases "sub_all subscribe initNats_subjects st")
    (simp add: initNats_def GetInstance_def IsConnected_def split: if_splits)

text \<open>
  The NATS set-up of the statistics never fails: when the NATS client is connected,
  \<open>initNats\<close> reports success, also if the server refused some or all of the six
  subscriptions; a refused subject is simply missing from the subscribed ones.
\<close>
theorem initNats_reports_success:
  assumes "IsConnected nc st"
  shows "fst (initNats subscribe st) = None \<and>
     nt_subs (snd (snd (initNats subscribe st))) =
       nt_subs st @ filter (\<lambda>subj. subscribe subj = None) initNats_subjects"
proof -
  have up: "nt_initialised st" using assms by (simp add: IsConnected_def split: if_splits)
  from sub_all_up[OF up, of subscribe initNats_subjects] show ?thesis
    using up by (cases "sub_all subscribe initNats_subjects st") (simp add: initNats_def GetInstance_def)
qed

theorem initNats_reports_success_witness:
  "fst (initNats (\<lambda>_. Some (ErrExt ''no responders''))
       (nats_start\<lparr>nt_initialised := True, nt_connected := True\<rparr>)) = None \<and>
   nt_subs (snd (snd (initNats (\<lambda>_. Some (ErrExt ''no responders''))
       (nats_start\<lparr>nt_initialised := True, nt_connected := True\<rparr>)))) = []"
  using initNats_reports_success[of True "nats_start\<lparr>nt_initialised := True, nt_connected := True\<rparr>"
      "\<lambda>_. Some (ErrExt ''no responders'')"]
  by (simp add: IsConnected_def nats_start_def initNats_subjects_def)

lemma stats_Init_flag:
  "\<not> st_initialised (pk_store s) \<Longrightarrow>
   st_initialised (pk_store (snd (stats_Init env s))) \<longleftrightarrow> fst (stats_Init env s) = None"
  by (simp add: stats_Init_def set_proms_def Let_def split: prod.split option.split)

interpretation stats_sub: subsystem "\<lambda>s. st_initialised (pk_store s)" stats_Close
  ErrStatsNotInitialised stats_Init ErrStatsAlreadyInitialised
proof unfold_locales
  fix s :: "'a stats_pkg" and i
  show "st_initialised (pk_store s) \<Longrightarrow> stats_Init i s = (Some ErrStatsAlreadyInitialised, s)"
    by (simp add: stats_Init_def)
  then show "fst (stats_Init i s) = None \<Longrightarrow> st_initialised (pk_store (snd (stats_Init i s)))"
    using stats_Init_flag[of s i] by (cases "st_initialised (pk_store s)") simp_all
  show "\<not> st_initialised (pk_store s) \<Longrightarrow> fst (stats_Init i s) \<noteq> None \<Longrightarrow>
      \<not> st_initialised (pk_store (snd (stats_Init i s)))"
    using stats_Init_flag[of s i] by simp
qed (simp_all add: stats_Close_def)

text \<open>
  What the client library documents: registering fails exactly for a description that is
  registered and otherwise adds it; unregistering removes the description and says whether
  it was there. \<open>has\<close> is the set of registered descriptions.
\<close>

definition prom_laws :: "'r prom \<Rightarrow> ('r \<Rightarrow> metric set) \<Rightarrow> bool" where
  "prom_laws prom has \<longleftrightarrow>
     (\<forall>m r. (fst (pr_register prom m r) = None \<longleftrightarrow> m \<notin> has r) \<and>
            has (snd (pr_register prom m r)) = insert m (has r) \<and>
            has (snd (pr_unregister prom m r)) = has r - {m})"

lemma prom_lawsD:
  assumes "prom_laws prom has"
  shows "fst (pr_register prom m r) = None \<longleftrightarrow> m \<notin> has r"
    "has (snd (pr_register prom m r)) = insert m (has r)"
    "has (snd (pr_unregister prom m r)) = has r - {m}"
  using assms by (simp_all add: prom_laws_def)

lemma RegisterPromCollector_ok:
  assumes "prom_laws prom has" "fst c \<notin> has r"
  shows "\<exists>r'. RegisterPromCollector prom c (cs, r) = (None, cs @ [c], r') \<and> has r' = insert (fst c) (has r)"
  using prom_lawsD[OF assms(1), of "fst c" r] assms(2)
  by (auto simp: RegisterPromCollector_def split: prod.split option.split)

lemma register_all_ok:
  assumes "prom_laws prom has" "distinct (map fst cs)" "fst ` set cs \<inter> has r = {}"
  shows "\<exists>r'. register_all prom cs (ds, r) = (None, ds @ cs, r') \<and> has r' = fst ` set cs \<union> has r"
  using assms(2,3)
proof (induction cs arbitrary: ds r)
  case (Cons c cs)
  obtain r1 where r1: "RegisterPromCollector prom c (ds, r) = (None, ds @ [c], r1)"
      "has r1 = insert (fst c) (has r)"
    using RegisterPromCollector_ok[OF assms(1), of c r ds] Cons.prems(2) by auto
  have "fst ` set cs \<inter> has r1 = {}" using Cons.prems r1(2) by auto
  then obtain r2 where "register_all prom cs (ds @ [c], r1) = (None, (ds @ [c]) @ cs, r2)"
      "has r2 = fst ` set cs \<union> has r1"
    using Cons.IH[of r1 "ds @ [c]"] Cons.prems(1) by auto
  with r1 show ?case by auto
qed simp

lemma unregister_all_has:
  "prom_laws prom has \<Longrightarrow> has (unregister_all prom cs r) = has r - fst ` set cs"
  by (induction cs arbitrary: r) (auto simp: prom_lawsD(3))

definition own_metrics :: "metric set" where
  "own_metrics = set global_metrics \<union> {MFeederDataIn, MFeederDataOut}"

lemma global_own:
  "fst ` set (zip global_metrics [n..<n + length global_metrics]) = set global_metrics"
  "distinct (map fst (zip global_metrics [n..<n + length global_metrics]))"
  "own_metrics = insert MFeederDataOut (insert MFeederDataIn (set global_metrics))"
  "MFeederDataIn \<notin> set global_metrics" "MFeederDataOut \<notin> set global_metrics"
proof -
  have "map fst (zip global_metrics [n..<n + length global_metrics]) = global_metrics" by simp
  moreover have "distinct global_metrics" by (simp add: global_metrics_def)
  ultimately show "distinct (map fst (zip global_metrics [n..<n + length global_metrics]))" by simp
  show "fst ` set (zip global_metrics [n..<n + length global_metrics]) = set global_metrics"
    by (metis \<open>map fst (zip global_metrics [n..<n + length global_metrics]) = global_metrics\<close> set_map)
qed (auto simp: own_metrics_def global_metrics_def)

lemma registerGlobalCollectors_ok:
  assumes "prom_laws prom has" "own_metrics \<inter> has r = {}"
  shows "\<exists>r'. registerGlobalCollectors prom n (cs, r) =
      (None, cs @ zip global_metrics [n..<n + length global_metrics], r') \<and>
      has r' = set global_metrics \<union> has r"
  using register_all_ok[where has = has and prom = prom, OF assms(1) global_own(2), of n r cs] assms(2)
  by (auto simp: registerGlobalCollectors_def global_own(1,3))

lemma registerPerFeeder_ok:
  assumes "prom_laws prom has" "MFeederDataIn \<notin> has r" "MFeederDataOut \<notin> has r"
  shows "\<exists>r'. registerPerFeederCounterVecs prom n (cs, r) =
      (None, cs @ [(MFeederDataIn, n), (MFeederDataOut, n + 1)], r') \<and>
      has r' = insert MFeederDataOut (insert MFeederDataIn (has r))"
proof -
  obtain r1 where r1: "RegisterPromCollector prom (MFeederDataIn, n) (cs, r) = (None, cs @ [(MFeederDataIn, n)], r1)"
      "has r1 = insert MFeederDataIn (has r)"
    using RegisterPromCollector_ok[OF assms(1), of "(MFeederDataIn, n)" r cs] assms(2) by auto
  with RegisterPromCollector_ok[OF assms(1), of "(MFeederDataOut, n + 1)" r1 "cs @ [(MFeederDataIn, n)]"] assms(3)
  show ?thesis by (auto simp: registerPerFeederCounterVecs_def)
qed

text \<open>One start: all ten collectors are new to Prometheus, so everything succeeds.\<close>

lemma stats_Init_ok:
  assumes "prom_laws (se_prom env) has" "own_metrics \<inter> has (pk_registry s) = {}"
    "\<not> st_initialised (pk_store s)"
  shows "\<exists>cs. length cs = 10 \<and> fst ` set cs = own_metrics \<and>
     fst (stats_Init env s) = None \<and>
     promCollectors (snd (stats_Init env s)) = promCollectors s @ cs \<and>
     has (pk_registry (snd (stats_Init env s))) = own_metrics \<union> has (pk_registry s) \<and>
     stats (pk_store (snd (stats_Init env s))) = stats_init"
proof -
  let ?g = "zip global_metrics [pk_next s..<pk_next s + length global_metrics]"
  let ?f = "[(MFeederDataIn, pk_next s + 8), (MFeederDataOut, pk_next s + 8 + 1)]"
  obtain r1 where r1: "registerGlobalCollectors (se_prom env) (pk_next s) (promCollectors s, pk_registry s) =
      (None, promCollectors s @ ?g, r1)" "has r1 = set global_metrics \<union> has (pk_registry s)"
    using registerGlobalCollectors_ok[OF assms(1,2)] by blast
  have "MFeederDataIn \<notin> has r1" "MFeederDataOut \<notin> has r1"
    using assms(2) global_own(4,5) by (auto simp: r1(2) global_own(3))
  from registerPerFeeder_ok[OF assms(1) this] obtain r2 where
    r2: "registerPerFeederCounterVecs (se_prom env) (pk_next s + 8) (promCollectors s @ ?g, r1) =
      (None, (promCollectors s @ ?g) @ ?f, r2)"
      "has r2 = insert MFeederDataOut (insert MFeederDataIn (has r1))"
    by blast
  have nats: "fst (initNats (se_subscribe env) (pk_nats s)) = None"
    if "IsConnected (se_nc_connected env) (pk_nats s)"
    using that by (rule initNats_None)
  have run: "fst (stats_Init env s) = None \<and>
      promCollectors (snd (stats_Init env s)) = promCollectors s @ ?g @ ?f \<and>
      pk_registry (snd (stats_Init env s)) = r2 \<and> stats (pk_store (snd (stats_Init env s))) = stats_init"
  proof (cases "IsConnected (se_nc_connected env) (pk_nats s)")
    case True
    obtain inst nt where "initNats (se_subscribe env) (pk_nats s) = (None, inst, nt)"
      using nats[OF True] by (cases "initNats (se_subscribe env) (pk_nats s)") auto
    with True assms(3) show ?thesis
      by (simp add: stats_Init_def r1(1) r2(1) set_proms_def Let_def)
  qed (use assms(3) in \<open>simp add: stats_Init_def r1(1) r2(1) set_proms_def Let_def\<close>)
  have "length (?g @ ?f) = 10" by (simp add: global_metrics_def)
  moreover have "fst ` set (?g @ ?f) = own_metrics"
    by (simp only: set_append image_Un global_own(1,3)) auto
  moreover have "has r2 = own_metrics \<union> has (pk_registry s)"
    unfolding r2(2) r1(2) global_own(3) by blast
  ultimately show ?thesis using run by (intro exI[of _ "?g @ ?f"]) simp
qed

text \<open>\<open>n\<close> starts and stops.\<close>

fun rounds :: "'r stats_env \<Rightarrow> nat \<Rightarrow> 'r stats_pkg \<Rightarrow> 'r stats_pkg" where
  "rounds env 0 s = s"
| "rounds env (Suc n) s = snd (stats_Close (se_prom env) (snd (stats_Init env (rounds env n s))))"

lemma rounds_inv:
  assumes "prom_laws (se_prom env) has" "own_metrics \<inter> has (pk_registry s) = {}"
    "\<not> st_initialised (pk_store s)"
  shows "own_metrics \<inter> has (pk_registry (rounds env n s)) = {} \<and>
     \<not> st_initialised (pk_store (rounds env n s)) \<and>
     length (promCollectors (rounds env n s)) = length (promCollectors s) + 10 * n"
proof (induction n)
  case (Suc n)
  let ?t = "rounds env n s" and ?i = "snd (stats_Init env (rounds env n s))"
  obtain cs where cs: "length cs = 10" "fst ` set cs = own_metrics" "fst (stats_Init env ?t) = None"
      "promCollectors ?i = promCollectors ?t @ cs"
      "has (pk_registry ?i) = own_metrics \<union> has (pk_registry ?t)"
    using stats_Init_ok[OF assms(1) conjunct1[OF Suc] conjunct1[OF conjunct2[OF Suc]]]
    by (elim exE conjE) (rule that)
  have up: "st_initialised (pk_store ?i)" by (rule stats_sub.init_ok[OF cs(3)])
  have "promCollectors (rounds env (Suc n) s) = promCollectors ?i"
    "pk_registry (rounds env (Suc n) s) = unregister_all (se_prom env) (promCollectors ?i) (pk_registry ?i)"
    "\<not> st_initialised (pk_store (rounds env (Suc n) s))"
    using up by (simp_all add: stats_Close_def)
  moreover have "own_metrics \<inter> (has (pk_registry ?i) - fst ` set (promCollectors ?i)) = {}"
    using cs(2,4) by auto
  ultimately show ?case
    using Suc cs(1,4) by (simp add: unregister_all_has[OF assms(1)])
qed (use assms(2,3) in simp)

text \<open>
  C33. The statistics can be restarted, and leak: starting from a state that is down, where
  Prometheus knows none of the package's ten metrics, any number of rounds of \<open>Init\<close> and
  \<open>Close\<close> leaves a state in which \<open>Init\<close> succeeds again with an empty store, because \<open>Close\<close>
  unregisters every collector; but each round leaves its ten collectors in the package's
  list, which \<open>Close\<close> never empties.
\<close>
theorem stats_restarts_and_leaks:
  assumes "prom_laws (se_prom env) has" "own_metrics \<inter> has (pk_registry s) = {}"
    "\<not> st_initialised (pk_store s)"
  shows "fst (stats_Init env (rounds env n s)) = None \<and>
     stats (pk_store (snd (stats_Init env (rounds env n s)))) = stats_init \<and>
     own_metrics \<inter> has (pk_registry (rounds env n s)) = {} \<and>
     length (promCollectors (rounds env n s)) = length (promCollectors s) + 10 * n"
proof -
  note r = rounds_inv[OF assms, of n]
  from r have t: "own_metrics \<inter> has (pk_registry (rounds env n s)) = {}"
    "\<not> st_initialised (pk_store (rounds env n s))" by simp_all
  show ?thesis using stats_Init_ok[OF assms(1) t] r by (elim exE conjE) simp
qed

text \<open>A registry that keeps the set of descriptions, and the package before its first start.\<close>

definition set_prom :: "metric set prom" where
  "set_prom = \<lparr>pr_register = (\<lambda>m r. (if m \<in> r then Some (ErrExt ''duplicate metrics collector registration attempted'')
                                    else None, insert m r)),
               pr_unregister = (\<lambda>m r. (m \<in> r, r - {m}))\<rparr>"

definition pkg_start :: "metric set stats_pkg" where
  "pkg_start = \<lparr>pk_store = started\<lparr>st_initialised := False\<rparr>, promCollectors = [], pk_registry = {},
     pk_next = 0, pk_evictor = False, pk_server = False, natsInstance = [], pk_nats = nats_start\<rparr>"

theorem stats_restarts_and_leaks_witness:
  "fst (stats_Init \<lparr>se_prom = set_prom, se_nc_connected = True, se_subscribe = \<lambda>_. None\<rparr>
      (rounds \<lparr>se_prom = set_prom, se_nc_connected = True, se_subscribe = \<lambda>_. None\<rparr> 3 pkg_start)) = None \<and>
   length (promCollectors (rounds \<lparr>se_prom = set_prom, se_nc_connected = True, se_subscribe = \<lambda>_. None\<rparr>
      3 pkg_start)) = 30"
  using stats_restarts_and_leaks[of "\<lparr>se_prom = set_prom, se_nc_connected = True, se_subscribe = \<lambda>_. None\<rparr>"
      id pkg_start 3]
  by (simp add: prom_laws_def set_prom_def pkg_start_def)

end
