(* ===== verification/ErrText.thy ===== *)
theory ErrText
  imports GoText
begin

text \<open>
  The texts of the errors, \<open>err.Error()\<close>: the variables and functions \<open>Err...\<close> of the packages. The
  text of an error of other code is its argument; the errors of the standard library that are kept
  apart have their texts from a parameter, but for \<open>io.EOF\<close>.
\<close>

definition feedproxy_err_text :: "go_err \<Rightarrow> string option" where
  "feedproxy_err_text e = (case e of
      ErrFeedproxyNotInitialised \<Rightarrow> Some ''feedproxy not initialised''
    | ErrFeedproxyAlreadyInitialised \<Rightarrow> Some ''feedproxy already initialised''
    | ErrDNSReturnsNoResults \<Rightarrow> Some ''DNS lookup returned no IPv4 address(es)''
    | ErrTLSHandshakeIncomplete \<Rightarrow> Some ''TLS handshake incomplete''
    | ErrClientSentInvalidAPIKey \<Rightarrow> Some ''client sent invalid API key''
    | ErrConnectionLimitExceeded \<Rightarrow> Some ''connection limit exceeded''
    | ErrUnsupportedProtocol \<Rightarrow> Some ''unsupported protocol''
    | ErrFeederNotFound \<Rightarrow> Some ''feeder not found''
    | ErrFeederNoLongerValid \<Rightarrow> Some ''feeder no longer valid''
    | ErrConnectingTooFrequently n s \<Rightarrow>
        Some (''client connecting too frequently: more than '' @ itoa_nat n @
              '' connections from src within a '' @ itoa_nat s @ '' second period'')
    | _ \<Rightarrow> None)"

definition feedprotocol_err_text :: "go_err \<Rightarrow> string option" where
  "feedprotocol_err_text e = (case e of ErrUnknownProtocol p \<Rightarrow> Some (''unknown protocol: '' @ p) | _ \<Rightarrow> None)"

definition stats_err_text :: "go_err \<Rightarrow> string option" where
  "stats_err_text e = (case e of
      ErrAPIKeyNotFound \<Rightarrow> Some ''client API key not found''
    | ErrStatsNotInitialised \<Rightarrow> Some ''stats not initialised''
    | ErrStatsAlreadyInitialised \<Rightarrow> Some ''stats already initialised''
    | ErrProtoNotFound \<Rightarrow> Some ''protocol not found''
    | ErrConnNumNotFound \<Rightarrow> Some ''connection number not found''
    | _ \<Rightarrow> None)"

definition prom_err_text :: "go_err \<Rightarrow> string option" where
  "prom_err_text e = (case e of
      ErrPromCounterDidNotUnregister \<Rightarrow> Some ''prometheus metric did not unregister''
    | ErrPromCouldNotFindCounter \<Rightarrow> Some ''could not find counter in promCollectors''
    | _ \<Rightarrow> None)"

definition containers_err_text :: "go_err \<Rightarrow> string option" where
  "containers_err_text e = (case e of
      ErrContainersNotInitialised \<Rightarrow> Some ''container manager not initialised''
    | ErrContainersAlreadyInitialised \<Rightarrow> Some ''container manager already initialised''
    | ErrContextCancelled \<Rightarrow> Some ''context cancelled''
    | ErrTimeoutContainerStartReq \<Rightarrow> Some ''timeout waiting to submit container start request''
    | ErrTimeoutContainerStartResp \<Rightarrow> Some ''timeout waiting for container start response''
    | ErrMultipleContainersFound \<Rightarrow> Some ''multiple containers found''
    | ErrContainerNotFound \<Rightarrow> Some ''container not found''
    | _ \<Rightarrow> None)"

definition nats_err_text :: "go_err \<Rightarrow> string option" where
  "nats_err_text e = (case e of ErrNatsNotInitialised \<Rightarrow> Some ''nats not initialised'' | _ \<Rightarrow> None)"

definition atc_err_text :: "go_err \<Rightarrow> string option" where
  "atc_err_text e = (case e of
      ErrNoAuthToken \<Rightarrow> Some ''No authorization token returned''
    | ErrUnsupportedResponse c \<Rightarrow> Some (''Unsupported response code: '' @ go_itoa c)
    | ErrRequestFailed \<Rightarrow> Some ''Request failed''
    | _ \<Rightarrow> None)"

definition library_err_text :: "(go_err \<Rightarrow> string) \<Rightarrow> go_err \<Rightarrow> string" where
  "library_err_text lib e = (case e of ErrExt s \<Rightarrow> s | ErrEOF \<Rightarrow> ''EOF'' | _ \<Rightarrow> lib e)"

fun first_text :: "string option list \<Rightarrow> string \<Rightarrow> string" where
  "first_text [] d = d"
| "first_text (None # ts) d = first_text ts d"
| "first_text (Some t # ts) d = t"

definition err_text :: "(go_err \<Rightarrow> string) \<Rightarrow> go_err \<Rightarrow> string" where
  "err_text lib e =
     first_text [feedproxy_err_text e, feedprotocol_err_text e, stats_err_text e, prom_err_text e, containers_err_text e,
        nats_err_text e, atc_err_text e] (library_err_text lib e)"

lemmas err_text_defs = feedproxy_err_text_def feedprotocol_err_text_def stats_err_text_def prom_err_text_def
  containers_err_text_def nats_err_text_def atc_err_text_def library_err_text_def

text \<open>The errors of the repository; each has a text from exactly one package.\<close>

definition own_error :: "go_err \<Rightarrow> bool" where
  "own_error e \<longleftrightarrow> (case e of ErrSyntax \<Rightarrow> False | ErrDeadline \<Rightarrow> False | ErrEOF \<Rightarrow> False | ErrNetClosed \<Rightarrow> False
     | ErrExt s \<Rightarrow> False | _ \<Rightarrow> True)"

lemma own_error_text:
  "own_error e \<longleftrightarrow> (\<exists>t. [x \<leftarrow> [feedproxy_err_text e, feedprotocol_err_text e, stats_err_text e, prom_err_text e,
     containers_err_text e, nats_err_text e, atc_err_text e]. x \<noteq> None] = [Some t])"
  by (cases e) (simp_all add: err_text_defs own_error_def)

text \<open>No error of the repository reads as the end of a stream, which the copying loops look for by its text.\<close>

lemma own_error_not_eof: "own_error e \<Longrightarrow> err_text lib e \<noteq> ''EOF''"
  by (cases e) (simp_all add: err_text_def err_text_defs own_error_def)

lemma err_text_ext: "err_text lib (ErrExt s) = s"
  by (simp add: err_text_def err_text_defs)

lemma err_text_containers_down: "err_text lib ErrContainersNotInitialised = ''container manager not initialised''"
  by (simp add: err_text_def err_text_defs)

end
