(* ===== verification/Containers.thy ===== *)
theory Containers
  imports StatsProm Atc ErrText
begin

text \<open>
  The feed-in container operations of \<open>lib/containers\<close>: \<open>create.go\<close> (\<open>startFeederContainers\<close>),
  \<open>check.go\<close>, \<open>kick.go\<close>, \<open>rebuild.go\<close> and the gauges of \<open>prom.go\<close>.

  The Docker client is a parameter: the calls the code makes, acting on a host state of its
  own. The UUID library's printer and parser, the tar and build calls and the JSON reader
  of the build log are parameters too. A \<open>%f\<close> in a text keeps the number it prints.
\<close>

record dk_container =
  ct_ID :: string
  ct_Image :: string
  ct_Names :: "string list"

record dk_filter =
  fl_name :: string
  fl_status :: "string option"
  fl_label :: "(string \<times> uuid) option"
  fl_all :: bool

datatype env_value = EText string | EFloat float64 | EUuid uuid

record dk_config =
  dc_Image :: string
  dc_Env :: "(string \<times> env_value) list"
  dc_Labels :: "(string \<times> env_value) list"
  dc_AutoRemove :: bool
  dc_Tmpfs :: "(string \<times> string) list"
  dc_Network :: string

record 'd docker =
  dk_client :: error
  dk_list :: "dk_filter \<Rightarrow> 'd \<Rightarrow> dk_container list \<times> error"
  dk_create :: "string \<Rightarrow> dk_config \<Rightarrow> 'd \<Rightarrow> (go_err + string) \<times> 'd"
  dk_start :: "string \<Rightarrow> 'd \<Rightarrow> error \<times> 'd"
  dk_remove :: "string \<Rightarrow> 'd \<Rightarrow> error \<times> 'd"

section \<open>Starting a container\<close>

record FeedInContainer =
  fic_Lat :: float64
  fic_Lon :: float64
  fic_Label :: string
  fic_ApiKey :: uuid
  fic_FeederCode :: string
  fic_Addr :: ip

record startContainerResponse =
  sr_Err :: error
  sr_ContainerStartDelay :: bool
  sr_ContainerName :: string
  sr_ContainerID :: string

definition zero_response :: startContainerResponse where
  "zero_response = \<lparr>sr_Err = None, sr_ContainerStartDelay = False, sr_ContainerName = [], sr_ContainerID = []\<rparr>"

record startFeederContainersConfig =
  sc_feedInImageName :: string
  sc_feedInContainerPrefix :: string
  sc_feedInContainerNetwork :: string
  sc_pwIngestSink :: string

text \<open>\<open>getFeedInContainerName\<close>; the prefix is a package variable.\<close>

definition getFeedInContainerName :: "(uuid \<Rightarrow> string) \<Rightarrow> string \<Rightarrow> uuid \<Rightarrow> string" where
  "getFeedInContainerName uuidString feedInContainerPrefix apiKey = feedInContainerPrefix @ uuidString apiKey"

definition container_config :: "startFeederContainersConfig \<Rightarrow> FeedInContainer \<Rightarrow> dk_config" where
  "container_config conf c =
     \<lparr>dc_Image = sc_feedInImageName conf,
      dc_Env =
        [(''FEEDER_LAT'', EFloat (fic_Lat c)), (''FEEDER_LON'', EFloat (fic_Lon c)),
         (''FEEDER_UUID'', EUuid (fic_ApiKey c)), (''FEEDER_TAG'', EText (fic_FeederCode c)),
         (''PW_INGEST_PUBLISH'', EText ''location-updates''), (''PW_INGEST_INPUT_MODE'', EText ''listen''),
         (''PW_INGEST_INPUT_PROTO'', EText ''beast''), (''PW_INGEST_INPUT_ADDR'', EText ''0.0.0.0''),
         (''PW_INGEST_INPUT_PORT'', EText ''12345''), (''PW_INGEST_SINK'', EText (sc_pwIngestSink conf))],
      dc_Labels =
        [(''plane.watch.label'', EText (fic_Label c)), (''plane.watch.feedercode'', EText (fic_FeederCode c)),
         (''plane.watch.lat'', EFloat (fic_Lat c)), (''plane.watch.lon'', EFloat (fic_Lon c)),
         (''plane.watch.uuid'', EUuid (fic_ApiKey c))],
      dc_AutoRemove = True,
      dc_Tmpfs = [(''/run'', ''exec,size=64M''), (''/var/log'', [])],
      dc_Network = sc_feedInContainerNetwork conf\<rparr>"

text \<open>
  The error of the list call is only logged; it is the outer \<open>err\<close>, which the last line
  returns, while the calls in the \<open>else\<close> branch declare their own.
\<close>

definition startFeederContainers ::
    "'d docker \<Rightarrow> (uuid \<Rightarrow> string) \<Rightarrow> string \<Rightarrow> startFeederContainersConfig \<Rightarrow> FeedInContainer \<Rightarrow> 'd \<Rightarrow>
     (startContainerResponse \<times> error) \<times> 'd" where
  "startFeederContainers dk uuidString feedInContainerPrefix conf containerToStart d =
     (case dk_client dk of
        Some e \<Rightarrow> ((zero_response, Some e), d)
      | None \<Rightarrow>
          let response = zero_response\<lparr>sr_ContainerName :=
                 getFeedInContainerName uuidString feedInContainerPrefix (fic_ApiKey containerToStart)\<rparr>;
              (containers, err) = dk_list dk
                 \<lparr>fl_name = sr_ContainerName response, fl_status = Some ''running'', fl_label = None, fl_all = False\<rparr> d
          in if length containers > 0 then ((response, err), d)
             else
               let response = response\<lparr>sr_ContainerStartDelay := True\<rparr> in
               (case dk_create dk (sr_ContainerName response) (container_config conf containerToStart) d of
                  (Inl e, d1) \<Rightarrow> ((zero_response, Some e), d1)
                | (Inr respID, d1) \<Rightarrow>
                    let response = response\<lparr>sr_ContainerID := respID\<rparr> in
                    (case dk_start dk respID d1 of
                       (Some e, d2) \<Rightarrow> ((zero_response, Some e), d2)
                     | (None, d2) \<Rightarrow> ((response, err), d2))))"

section \<open>Checking the containers\<close>

record checkFeederContainersConfig =
  cc_feedInImageName :: string
  cc_feedInContainerPrefix :: string

text \<open>
  The loop over the containers: whether one was removed. The log context takes \<open>c.Names[0][1:]\<close>.
\<close>

fun check_loop :: "'d docker \<Rightarrow> string \<Rightarrow> dk_container list \<Rightarrow> 'd \<Rightarrow> (bool \<times> 'd) go" where
  "check_loop dk img [] d = Ret (False, d)"
| "check_loop dk img (c # cs) d =
     (if ct_Image c \<noteq> img then
        (case ct_Names c of
           [] \<Rightarrow> Panic ''index out of range''
         | nm # nms \<Rightarrow>
             if nm = [] then Panic ''slice bounds out of range''
             else (case dk_remove dk (ct_ID c) d of
                     (Some e, d1) \<Rightarrow> check_loop dk img cs d1
                   | (None, d1) \<Rightarrow> Ret (True, d1)))
      else check_loop dk img cs d)"

definition checkFeederContainers ::
    "'d docker \<Rightarrow> checkFeederContainersConfig \<Rightarrow> 'd \<Rightarrow> ((duration \<times> error) \<times> 'd) go" where
  "checkFeederContainers dk conf d =
     (case dk_client dk of
        Some e \<Rightarrow> Ret ((second, Some e), d)
      | None \<Rightarrow>
          (case dk_list dk \<lparr>fl_name = cc_feedInContainerPrefix conf @ ''*'', fl_status = None,
                            fl_label = None, fl_all = False\<rparr> d of
             (containers, Some e) \<Rightarrow> Ret ((second, Some e), d)
           | (containers, None) \<Rightarrow>
               go_bind (check_loop dk (cc_feedInImageName conf) containers d)
                 (\<lambda>(containerRemoved, d1).
                    Ret ((if containerRemoved then 30 * second else 300 * second, None), d1))))"

section \<open>Kicking a feeder\<close>

definition KickFeeder ::
    "'d docker \<Rightarrow> (uuid \<Rightarrow> string) \<Rightarrow> string \<Rightarrow> uuid \<Rightarrow> 'd \<Rightarrow> (error \<times> 'd) go" where
  "KickFeeder dk uuidString feedInContainerPrefix apiKey d =
     (case dk_client dk of
        Some e \<Rightarrow> Ret (Some e, d)
      | None \<Rightarrow>
          let containerName = getFeedInContainerName uuidString feedInContainerPrefix apiKey;
              (containers, err) = dk_list dk \<lparr>fl_name = containerName, fl_status = None,
                 fl_label = Some (''plane.watch.uuid'', apiKey), fl_all = True\<rparr> d
          in if length containers \<le> 0 then Ret (Some ErrContainerNotFound, d)
             else if length containers > 1 then Ret (Some ErrMultipleContainersFound, d)
             else if ct_Names (containers ! 0) = [] then Panic ''index out of range''
             else (case dk_remove dk (ct_ID (containers ! 0)) d of
                     (Some e, d1) \<Rightarrow> Ret (Some e, d1)
                   | (None, d1) \<Rightarrow> Ret (None, d1)))"

datatype msg_action = Term | Ack | NoAction

definition KickFeederHandler ::
    "(string \<Rightarrow> go_err + uuid) \<Rightarrow> 'd docker \<Rightarrow> (uuid \<Rightarrow> string) \<Rightarrow> string \<Rightarrow> nats_msg \<Rightarrow> 'd \<Rightarrow>
     (msg_action \<times> 'd) go" where
  "KickFeederHandler parseUUID dk uuidString feedInContainerPrefix msg d =
     (case parseUUID (m_Data msg) of
        Inl e \<Rightarrow> Ret (Term, d)
      | Inr apiKey \<Rightarrow>
          go_bind (KickFeeder dk uuidString feedInContainerPrefix apiKey d)
            (\<lambda>(err, d1). case err of Some e \<Rightarrow> Ret (NoAction, d1) | None \<Rightarrow> Ret (Ack, d1)))"

section \<open>Rebuilding the image\<close>

text \<open>
  What the surroundings answer: the client, the archive, the build with the bytes of its log that
  arrive before the connection ends or breaks, and the \<open>error\<close> field of a line read as JSON, empty if
  it has none; and, when the signal is sent, the number of signals that are in the channel
  already and whether the checker takes one of them after that.
\<close>

record rebuild_env =
  rb_client :: error
  rb_tar :: error
  rb_build :: "go_err + string"
  rb_error_field :: "string \<Rightarrow> string"
  rb_queued :: nat
  rb_taken :: bool

definition chanSkipDelay_capacity :: nat where "chanSkipDelay_capacity = 1"

text \<open>
  The result, and whether the signal to skip the recreation delay was sent. The send blocks while
  the channel is full: \<open>None\<close> is a call that does not return.
\<close>

definition RebuildFeedInImage :: "bool \<Rightarrow> rebuild_env \<Rightarrow> ((string \<times> error) \<times> bool) option" where
  "RebuildFeedInImage initialised env =
     (if \<not> initialised then Some (([], Some ErrContainersNotInitialised), False)
      else (case rb_client env of
        Some e \<Rightarrow> Some (([], Some e), False)
      | None \<Rightarrow>
        (case rb_tar env of
           Some e \<Rightarrow> Some (([], Some e), False)
         | None \<Rightarrow>
           (case rb_build env of
              Inl e \<Rightarrow> Some (([], Some e), False)
            | Inr body \<Rightarrow>
                let lines = scan_lines body;
                    lastLine = (if lines = [] then [] else last lines);
                    err = rb_error_field env lastLine
                in if err \<noteq> [] then Some ((lastLine, Some (ErrExt err)), False)
                   else if rb_queued env < chanSkipDelay_capacity \<or> rb_taken env
                   then Some ((lastLine, None), True)
                   else None))))"

text \<open>The parameter \<open>lib\<close> gives the texts of the errors of the standard library.\<close>

record rebuild_reply =
  rr_Subject :: string
  rr_instance :: string
  rr_result :: string
  rr_Data :: string

definition RebuildFeedInImageHandler ::
    "(go_err \<Rightarrow> string) \<Rightarrow> (string \<Rightarrow> string \<Rightarrow> bool \<times> error) \<Rightarrow> nats_state \<Rightarrow> bool \<Rightarrow> rebuild_env \<Rightarrow> nats_msg \<Rightarrow>
     (rebuild_reply option \<times> bool) option" where
  "RebuildFeedInImageHandler lib matchString nt initialised env msg =
     (let (forUs, inst, err) = ThisInstance matchString (m_Data msg) nt in
      if \<not> forUs then Some (None, False)
      else
        (case RebuildFeedInImage initialised env of
           None \<Rightarrow> None
         | Some ((lastLine, err), sig) \<Rightarrow>
             let reply = (case err of
                 Some e \<Rightarrow> \<lparr>rr_Subject = m_Subject msg, rr_instance = inst, rr_result = ''error'', rr_Data = err_text lib e\<rparr>
               | None \<Rightarrow> \<lparr>rr_Subject = m_Subject msg, rr_instance = inst, rr_result = ''ok'', rr_Data = lastLine\<rparr>)
             in Some (Some reply, sig)))"

section \<open>Gauges\<close>

definition list_feed_in :: "'d docker \<Rightarrow> string \<Rightarrow> 'd \<Rightarrow> dk_container list go" where
  "list_feed_in dk feedInContainerPrefix d =
     (case dk_client dk of
        Some e \<Rightarrow> Panic ''docker client''
      | None \<Rightarrow>
          (case dk_list dk \<lparr>fl_name = feedInContainerPrefix @ ''*'', fl_status = None, fl_label = None,
                            fl_all = False\<rparr> d of
             (containers, Some e) \<Rightarrow> Panic ''container list''
           | (containers, None) \<Rightarrow> Ret containers))"

definition promMetricFeederContainersImageCurrentGaugeFunc ::
    "'d docker \<Rightarrow> string \<Rightarrow> string \<Rightarrow> 'd \<Rightarrow> nat go" where
  "promMetricFeederContainersImageCurrentGaugeFunc dk feedInImage feedInContainerPrefix d =
     go_bind (list_feed_in dk feedInContainerPrefix d)
       (\<lambda>cs. Ret (foldl (\<lambda>n c. if ct_Image c = feedInImage then n + 1 else n) 0 cs))"

definition promMetricFeederContainersImageNotCurrentGaugeFunc ::
    "'d docker \<Rightarrow> string \<Rightarrow> string \<Rightarrow> 'd \<Rightarrow> nat go" where
  "promMetricFeederContainersImageNotCurrentGaugeFunc dk feedInImage feedInContainerPrefix d =
     go_bind (list_feed_in dk feedInContainerPrefix d)
       (\<lambda>cs. Ret (foldl (\<lambda>n c. if ct_Image c \<noteq> feedInImage then n + 1 else n) 0 cs))"

section \<open>Starting: outcomes\<close>

text \<open>The filter a start looks for its container with.\<close>

definition start_filter :: "(uuid \<Rightarrow> string) \<Rightarrow> string \<Rightarrow> FeedInContainer \<Rightarrow> dk_filter" where
  "start_filter us prefix c =
     \<lparr>fl_name = getFeedInContainerName us prefix (fic_ApiKey c), fl_status = Some ''running'',
      fl_label = None, fl_all = False\<rparr>"

text \<open>
  What Docker documents of running containers, \<open>running\<close> with their names and configurations: the
  search for running containers finds one exactly if the name of some running container
  contains the name looked for, and a container that was created and then started runs under
  its name with its configuration.
\<close>

definition start_laws :: "'d docker \<Rightarrow> ('d \<Rightarrow> (string \<times> dk_config) list) \<Rightarrow> bool" where
  "start_laws dk running \<longleftrightarrow>
     (\<forall>nm d cs. dk_list dk \<lparr>fl_name = nm, fl_status = Some ''running'', fl_label = None, fl_all = False\<rparr> d = (cs, None) \<longrightarrow>
        (cs \<noteq> [] \<longleftrightarrow> (\<exists>r \<in> set (running d). \<exists>a b. fst r = a @ nm @ b))) \<and>
     (\<forall>nm cfg d i d1 d2. dk_create dk nm cfg d = (Inr i, d1) \<longrightarrow> dk_start dk i d1 = (None, d2) \<longrightarrow>
        (nm, cfg) \<in> set (running d2))"

lemma start_success_iff:
  "startFeederContainers dk us prefix conf c d = ((resp, None), d') \<longleftrightarrow>
     dk_client dk = None \<and>
     (\<exists>cs. dk_list dk (start_filter us prefix c) d = (cs, None) \<and>
        (if cs \<noteq> [] then d' = d \<and> resp = zero_response\<lparr>sr_ContainerName := getFeedInContainerName us prefix (fic_ApiKey c)\<rparr>
         else \<exists>i d1. dk_create dk (getFeedInContainerName us prefix (fic_ApiKey c)) (container_config conf c) d = (Inr i, d1) \<and>
           dk_start dk i d1 = (None, d') \<and>
           resp = zero_response\<lparr>sr_ContainerName := getFeedInContainerName us prefix (fic_ApiKey c),
                                sr_ContainerStartDelay := True, sr_ContainerID := i\<rparr>))"
  by (auto simp: startFeederContainers_def start_filter_def Let_def zero_response_def
      split: option.splits prod.splits sum.splits if_splits)

lemma start_means_running:
  assumes laws: "start_laws dk running" and config: "container_config conf c = config"
    and name: "getFeedInContainerName us prefix (fic_ApiKey c) = name"
  shows "(startFeederContainers dk us prefix conf c d = ((resp, None), d') \<longleftrightarrow>
      dk_client dk = None \<and>
      (\<exists>cs. dk_list dk \<lparr>fl_name = name, fl_status = Some ''running'', fl_label = None, fl_all = False\<rparr> d = (cs, None) \<and>
         (if cs \<noteq> []
          then d' = d \<and> resp = \<lparr>sr_Err = None, sr_ContainerStartDelay = False, sr_ContainerName = name, sr_ContainerID = []\<rparr>
          else \<exists>i d1. dk_create dk name config d = (Inr i, d1) \<and> dk_start dk i d1 = (None, d') \<and>
             resp = \<lparr>sr_Err = None, sr_ContainerStartDelay = True, sr_ContainerName = name, sr_ContainerID = i\<rparr>))) \<and>
     (startFeederContainers dk us prefix conf c d = ((resp, None), d') \<longrightarrow>
        (\<exists>r \<in> set (running d'). \<exists>a b. fst r = a @ name @ b) \<and>
        (sr_ContainerStartDelay resp \<longrightarrow> (name, config) \<in> set (running d')))"
proof -
  note iff = start_success_iff[of dk us prefix conf c d resp d', unfolded config name start_filter_def zero_response_def]
  have "(\<exists>r \<in> set (running d'). \<exists>a b. fst r = a @ name @ b) \<and> (sr_ContainerStartDelay resp \<longrightarrow> (name, config) \<in> set (running d'))"
    if "startFeederContainers dk us prefix conf c d = ((resp, None), d')"
  proof -
    from that iff obtain cs where
      l: "dk_list dk \<lparr>fl_name = name, fl_status = Some ''running'', fl_label = None, fl_all = False\<rparr> d = (cs, None)"
      and r: "if cs \<noteq> [] then d' = d \<and> \<not> sr_ContainerStartDelay resp
        else \<exists>i d1. dk_create dk name config d = (Inr i, d1) \<and> dk_start dk i d1 = (None, d')"
      by (auto split: if_splits)
    show ?thesis
    proof (cases "cs = []")
      case True
      then have "(name, config) \<in> set (running d')" using r laws unfolding start_laws_def by auto
      then show ?thesis by (auto intro!: bexI[of _ "(name, config)"] exI[of _ "[]"])
    next
      case False
      then show ?thesis using l r laws unfolding start_laws_def by auto
    qed
  qed
  then show ?thesis unfolding iff by (auto split: if_splits)
qed

text \<open>
  C21. A start succeeds exactly if Docker can be reached, the search for running containers
  of the feeder's name succeeds, and either it finds one, and then nothing is changed, no
  delay is asked for and the identifier is empty, or a container is created under the feeder's
  name with the configuration that is written out here, from the request and the manager's
  settings, and started, and then the delay is asked for and the identifier is the created
  one. If Docker keeps its contract, after a success a container whose name contains the
  feeder's is running, and with the delay it has exactly that name and that configuration.
\<close>
theorem start_success_means_running:
  assumes "start_laws dk running"
  shows "let name = prefix @ us (fic_ApiKey c);
      config =
      \<lparr>dc_Image = sc_feedInImageName conf,
       dc_Env = [(''FEEDER_LAT'', EFloat (fic_Lat c)), (''FEEDER_LON'', EFloat (fic_Lon c)),
         (''FEEDER_UUID'', EUuid (fic_ApiKey c)), (''FEEDER_TAG'', EText (fic_FeederCode c)),
         (''PW_INGEST_PUBLISH'', EText ''location-updates''), (''PW_INGEST_INPUT_MODE'', EText ''listen''),
         (''PW_INGEST_INPUT_PROTO'', EText ''beast''), (''PW_INGEST_INPUT_ADDR'', EText ''0.0.0.0''),
         (''PW_INGEST_INPUT_PORT'', EText ''12345''), (''PW_INGEST_SINK'', EText (sc_pwIngestSink conf))],
       dc_Labels = [(''plane.watch.label'', EText (fic_Label c)), (''plane.watch.feedercode'', EText (fic_FeederCode c)),
         (''plane.watch.lat'', EFloat (fic_Lat c)), (''plane.watch.lon'', EFloat (fic_Lon c)),
         (''plane.watch.uuid'', EUuid (fic_ApiKey c))],
       dc_AutoRemove = True, dc_Tmpfs = [(''/run'', ''exec,size=64M''), (''/var/log'', [])],
       dc_Network = sc_feedInContainerNetwork conf\<rparr> in
     (startFeederContainers dk us prefix conf c d = ((resp, None), d') \<longleftrightarrow>
      dk_client dk = None \<and>
      (\<exists>cs. dk_list dk \<lparr>fl_name = name, fl_status = Some ''running'', fl_label = None, fl_all = False\<rparr> d = (cs, None) \<and>
         (if cs \<noteq> []
          then d' = d \<and> resp = \<lparr>sr_Err = None, sr_ContainerStartDelay = False, sr_ContainerName = name, sr_ContainerID = []\<rparr>
          else \<exists>i d1. dk_create dk name config d = (Inr i, d1) \<and> dk_start dk i d1 = (None, d') \<and>
             resp = \<lparr>sr_Err = None, sr_ContainerStartDelay = True, sr_ContainerName = name, sr_ContainerID = i\<rparr>))) \<and>
     (startFeederContainers dk us prefix conf c d = ((resp, None), d') \<longrightarrow>
        (\<exists>r \<in> set (running d'). \<exists>a b. fst r = a @ name @ b) \<and>
        (sr_ContainerStartDelay resp \<longrightarrow> (name, config) \<in> set (running d')))"
  unfolding Let_def
  by (rule start_means_running[OF assms]) (simp_all add: container_config_def getFeedInContainerName_def)

text \<open>
  A start can report an error for a container it has started: if the search fails with
  nothing found and creating and starting succeed, the container runs, and the error of the
  search is returned.
\<close>
theorem start_reports_search_error:
  assumes "dk_client dk = None" "dk_list dk (start_filter us prefix c) d = ([], Some e)"
    "dk_create dk (getFeedInContainerName us prefix (fic_ApiKey c)) (container_config conf c) d = (Inr i, d1)"
    "dk_start dk i d1 = (None, d2)"
  shows "\<exists>resp. startFeederContainers dk us prefix conf c d = ((resp, Some e), d2) \<and> sr_ContainerID resp = i"
  using assms by (simp add: startFeederContainers_def start_filter_def Let_def zero_response_def)

section \<open>Checking: one stale container at a time\<close>

text \<open>
  What Docker documents, for the hosts a check meets: \<open>hosted\<close> is the list of feed-in
  containers the search finds when it does not fail, a removal takes away no other container
  than that of its identifier, and that one if it succeeds, and every container has a name. The
  client, the search and any removal may fail, and a removal that fails may yet have taken the
  container away.
\<close>

abbreviation check_filter :: "checkFeederContainersConfig \<Rightarrow> dk_filter" where
  "check_filter conf \<equiv> \<lparr>fl_name = cc_feedInContainerPrefix conf @ ''*'', fl_status = None,
     fl_label = None, fl_all = False\<rparr>"

definition check_laws :: "'d docker \<Rightarrow> checkFeederContainersConfig \<Rightarrow> ('d \<Rightarrow> dk_container list) \<Rightarrow> bool" where
  "check_laws dk conf hosted \<longleftrightarrow>
     (\<forall>d. snd (dk_list dk (check_filter conf) d) = None \<longrightarrow> fst (dk_list dk (check_filter conf) d) = hosted d) \<and>
     (\<forall>d i. hosted (snd (dk_remove dk i d)) = filter (\<lambda>c. ct_ID c \<noteq> i) (hosted d) \<or>
        fst (dk_remove dk i d) \<noteq> None \<and> hosted (snd (dk_remove dk i d)) = hosted d) \<and>
     (\<forall>d. \<forall>c \<in> set (hosted d). ct_Names c \<noteq> [] \<and> hd (ct_Names c) \<noteq> [])"

text \<open>Docker can be reached, and removes every container but those of \<open>stuck\<close>.\<close>

definition able :: "checkFeederContainersConfig \<Rightarrow> string set \<Rightarrow> 'd docker \<Rightarrow> bool" where
  "able conf stuck dk \<longleftrightarrow> dk_client dk = None \<and> (\<forall>d. snd (dk_list dk (check_filter conf) d) = None) \<and>
     (\<forall>i d. i \<notin> stuck \<longrightarrow> fst (dk_remove dk i d) = None)"

definition stale :: "string \<Rightarrow> dk_container list \<Rightarrow> dk_container list" where
  "stale img = filter (\<lambda>c. ct_Image c \<noteq> img)"

lemma stale_Cons [simp]:
  "stale img (c # cs) = (if ct_Image c = img then stale img cs else c # stale img cs)"
  by (simp add: stale_def)

text \<open>
  What a run of the loop leaves: the containers of the identifiers \<open>G\<close> are gone, all of another
  image; they are those of failed removals and, if the loop ended by a removal that succeeded,
  that one.
\<close>

definition fails :: "'d docker \<Rightarrow> string \<Rightarrow> bool" where
  "fails dk i \<longleftrightarrow> (\<exists>d. fst (dk_remove dk i d) \<noteq> None)"

definition loop_post ::
    "'d docker \<Rightarrow> ('d \<Rightarrow> dk_container list) \<Rightarrow> string \<Rightarrow> dk_container list \<Rightarrow> 'd \<Rightarrow> bool \<Rightarrow> 'd \<Rightarrow> bool" where
  "loop_post dk hosted img cs d b d' \<longleftrightarrow>
     (\<exists>G. G \<subseteq> ct_ID ` set (stale img cs) \<and> hosted d' = filter (\<lambda>x. ct_ID x \<notin> G) (hosted d) \<and>
        (if b then \<exists>c \<in> set (stale img cs). ct_ID c \<in> G \<and> (\<forall>i \<in> G - {ct_ID c}. fails dk i)
         else \<forall>c \<in> set (stale img cs). fails dk (ct_ID c)))"

lemma loop_post_skip:
  "loop_post dk hosted img cs d b d' \<Longrightarrow> ct_Image c = img \<Longrightarrow> loop_post dk hosted img (c # cs) d b d'"
  by (simp only: loop_post_def stale_Cons if_True simp_thms)

lemma loop_post_fail:
  assumes "loop_post dk hosted img cs d1 b d'" "ct_Image c \<noteq> img" "fails dk (ct_ID c)"
    "hosted d1 = filter (\<lambda>x. ct_ID x \<noteq> ct_ID c) (hosted d) \<or> hosted d1 = hosted d"
  shows "loop_post dk hosted img (c # cs) d b d'"
proof -
  obtain G where G: "G \<subseteq> ct_ID ` set (stale img cs)" "hosted d' = filter (\<lambda>x. ct_ID x \<notin> G) (hosted d1)"
    "if b then \<exists>c \<in> set (stale img cs). ct_ID c \<in> G \<and> (\<forall>i \<in> G - {ct_ID c}. fails dk i)
     else \<forall>c \<in> set (stale img cs). fails dk (ct_ID c)"
    using assms(1) unfolding loop_post_def by blast
  from assms(4) show ?thesis
  proof
    assume "hosted d1 = filter (\<lambda>x. ct_ID x \<noteq> ct_ID c) (hosted d)"
    then have "hosted d' = filter (\<lambda>x. ct_ID x \<notin> insert (ct_ID c) G) (hosted d)"
      using G(2) by (simp add: conj_commute)
    then show ?thesis
      unfolding loop_post_def using G(1,3) assms(2,3)
      by (intro exI[of _ "insert (ct_ID c) G"]) (auto split: if_splits)
  next
    assume "hosted d1 = hosted d"
    then show ?thesis
      unfolding loop_post_def using G assms(2,3)
      by (intro exI[of _ G]) (auto split: if_splits)
  qed
qed

lemma check_loop_result:
  assumes "check_laws dk conf hosted" "\<forall>c \<in> set cs. ct_Names c \<noteq> [] \<and> hd (ct_Names c) \<noteq> []"
  shows "\<exists>b d'. check_loop dk img cs d = Ret (b, d') \<and> loop_post dk hosted img cs d b d'"
  using assms(2)
proof (induction cs arbitrary: d)
  case Nil
  show ?case by (intro exI[of _ False] exI[of _ d]) (simp add: loop_post_def stale_def)
next
  case (Cons c cs)
  obtain x xs where ne: "ct_Names c = x # xs" "x \<noteq> []" using Cons.prems by (cases "ct_Names c") auto
  have rem: "hosted (snd (dk_remove dk (ct_ID c) d)) = filter (\<lambda>x. ct_ID x \<noteq> ct_ID c) (hosted d) \<or>
      fst (dk_remove dk (ct_ID c) d) \<noteq> None \<and> hosted (snd (dk_remove dk (ct_ID c) d)) = hosted d"
    using assms(1) unfolding check_laws_def by blast
  have IH: "\<exists>b d'. check_loop dk img cs e = Ret (b, d') \<and> loop_post dk hosted img cs e b d'" for e
    using Cons.IH Cons.prems by simp
  show ?case
  proof (cases "ct_Image c = img")
    case True
    obtain b d' where "check_loop dk img cs d = Ret (b, d')" "loop_post dk hosted img cs d b d'"
      using IH by blast
    with True loop_post_skip show ?thesis by (intro exI[of _ b] exI[of _ d']) simp
  next
    case False
    obtain r d1 where r: "dk_remove dk (ct_ID c) d = (r, d1)" by (cases "dk_remove dk (ct_ID c) d")
    show ?thesis
    proof (cases r)
      case None
      with r rem have "hosted d1 = filter (\<lambda>x. ct_ID x \<notin> {ct_ID c}) (hosted d)" by simp
      then have "loop_post dk hosted img (c # cs) d True d1"
        unfolding loop_post_def using False by (intro exI[of _ "{ct_ID c}"]) (simp add: stale_def)
      with False ne r None show ?thesis by (intro exI[of _ True] exI[of _ d1]) simp
    next
      case (Some e)
      obtain b d' where b: "check_loop dk img cs d1 = Ret (b, d')" "loop_post dk hosted img cs d1 b d'"
        using IH by blast
      have "fails dk (ct_ID c)" unfolding fails_def using r Some by (intro exI[of _ d]) simp
      then have "loop_post dk hosted img (c # cs) d b d'"
        using loop_post_fail[OF b(2) False] r rem by auto
      with False ne r Some b(1) show ?thesis by simp
    qed
  qed
qed

text \<open>
  A check removes outdated containers one at a time and never a current one. It returns, and
  either it has removed one container, of another image than the configured one, and asks to
  be run again in 30 seconds; or every removal it tried has failed, of every container of
  another image, and it asks for 300 seconds; or Docker could not be reached or searched, and
  it asks for one second and reports the error. Besides that one container nothing has gone
  but what a failed removal has taken away.
\<close>
theorem check_removes_one_stale:
  assumes laws: "check_laws dk conf hosted"
  shows "\<exists>t err d' G. checkFeederContainers dk conf d = Ret ((t, err), d') \<and>
     G \<subseteq> ct_ID ` set (stale (cc_feedInImageName conf) (hosted d)) \<and>
     hosted d' = filter (\<lambda>x. ct_ID x \<notin> G) (hosted d) \<and>
     ((t = 30 * second \<and> err = None \<and> (\<exists>c \<in> set (stale (cc_feedInImageName conf) (hosted d)).
          ct_ID c \<in> G \<and> (\<forall>i \<in> G - {ct_ID c}. fails dk i))) \<or>
      (t = 300 * second \<and> err = None \<and> (\<forall>c \<in> set (stale (cc_feedInImageName conf) (hosted d)). fails dk (ct_ID c))) \<or>
      (t = second \<and> err \<noteq> None \<and> d' = d \<and>
         (dk_client dk \<noteq> None \<or> snd (dk_list dk (check_filter conf) d) \<noteq> None)))"
proof (cases "dk_client dk")
  case (Some e)
  then show ?thesis by (intro exI[of _ second] exI[of _ "Some e"] exI[of _ d] exI[of _ "{}"]) (simp add: checkFeederContainers_def)
next
  case None
  obtain cs err where l: "dk_list dk (check_filter conf) d = (cs, err)" by (cases "dk_list dk (check_filter conf) d")
  show ?thesis
  proof (cases err)
    case (Some e)
    with None l show ?thesis
      by (intro exI[of _ second] exI[of _ "Some e"] exI[of _ d] exI[of _ "{}"]) (simp add: checkFeederContainers_def)
  next
    case found: None
    have "snd (dk_list dk (check_filter conf) d) = None \<longrightarrow> fst (dk_list dk (check_filter conf) d) = hosted d"
      using laws unfolding check_laws_def by blast
    then have cs: "cs = hosted d" using l found by simp
    have "\<forall>c \<in> set (hosted d). ct_Names c \<noteq> [] \<and> hd (ct_Names c) \<noteq> []"
      using laws by (simp add: check_laws_def)
    from check_loop_result[OF laws this] obtain b d' where
      r: "check_loop dk (cc_feedInImageName conf) (hosted d) d = Ret (b, d')"
        "loop_post dk hosted (cc_feedInImageName conf) (hosted d) d b d'"
      by blast
    have c: "checkFeederContainers dk conf d = Ret ((if b then 30 * second else 300 * second, None), d')"
      using None l found cs r(1) by (simp add: checkFeederContainers_def)
    from r(2) obtain G where "G \<subseteq> ct_ID ` set (stale (cc_feedInImageName conf) (hosted d))"
      "hosted d' = filter (\<lambda>x. ct_ID x \<notin> G) (hosted d)"
      "if b then \<exists>c \<in> set (stale (cc_feedInImageName conf) (hosted d)). ct_ID c \<in> G \<and> (\<forall>i \<in> G - {ct_ID c}. fails dk i)
       else \<forall>c \<in> set (stale (cc_feedInImageName conf) (hosted d)). fails dk (ct_ID c)"
      unfolding loop_post_def by blast
    with c show ?thesis
      by (intro exI[of _ "if b then 30 * second else 300 * second"] exI[of _ None] exI[of _ d'] exI[of _ G])
         (simp split: if_splits)
  qed
qed

text \<open>What taking away containers of another image does to the two kinds.\<close>

lemma remove_stale:
  assumes dist: "distinct (map ct_ID xs)" and G: "G \<subseteq> ct_ID ` set (stale img xs)"
    and ys: "ys = filter (\<lambda>x. ct_ID x \<notin> G) xs"
  shows "distinct (map ct_ID ys)" "filter (\<lambda>c. ct_Image c = img) ys = filter (\<lambda>c. ct_Image c = img) xs"
    "set (stale img ys) \<subseteq> set (stale img xs)" "G \<noteq> {} \<Longrightarrow> length (stale img ys) < length (stale img xs)"
proof -
  have old: "ct_Image x \<noteq> img" if "x \<in> set xs" "ct_ID x \<in> G" for x
  proof -
    note x = that
    obtain c where c: "c \<in> set xs" "ct_Image c \<noteq> img" "ct_ID c = ct_ID x" using G x(2) by (auto simp: stale_def)
    then have "c = x" using dist x(1) by (simp add: distinct_map inj_on_def)
    with c(2) show ?thesis by simp
  qed
  show "distinct (map ct_ID ys)" unfolding ys using dist by (simp add: distinct_map inj_on_def)
  show "filter (\<lambda>c. ct_Image c = img) ys = filter (\<lambda>c. ct_Image c = img) xs"
    unfolding ys filter_filter using old by (intro filter_cong) auto
  have s: "stale img ys = filter (\<lambda>x. ct_ID x \<notin> G) (stale img xs)"
    unfolding ys stale_def filter_filter by (intro filter_cong) auto
  then show "set (stale img ys) \<subseteq> set (stale img xs)" by auto
  show "length (stale img ys) < length (stale img xs)" if "G \<noteq> {}"
  proof -
    note ne = that
    obtain c where "c \<in> set (stale img xs)" "ct_ID c \<in> G" using G ne by blast
    then show ?thesis unfolding s using length_filter_less[of c "stale img xs" "\<lambda>x. ct_ID x \<notin> G"] by simp
  qed
qed

text \<open>A host that is its list of containers, where removing always succeeds.\<close>

definition named :: "dk_container list \<Rightarrow> dk_container list" where
  "named = filter (\<lambda>c. ct_Names c \<noteq> [] \<and> hd (ct_Names c) \<noteq> [])"

definition list_docker :: "dk_container list docker" where
  "list_docker = \<lparr>dk_client = None, dk_list = (\<lambda>f d. (named d, None)),
     dk_create = (\<lambda>nm cfg d. (Inr nm, \<lparr>ct_ID = nm, ct_Image = dc_Image cfg, ct_Names = [''/'' @ nm]\<rparr> # d)),
     dk_start = (\<lambda>i d. (None, d)), dk_remove = (\<lambda>i d. (None, filter (\<lambda>c. ct_ID c \<noteq> i) d))\<rparr>"

definition three_containers :: "dk_container list" where
  "three_containers =
     [\<lparr>ct_ID = ''a'', ct_Image = ''feed-in:1'', ct_Names = [''/feed-in-a'']\<rparr>,
      \<lparr>ct_ID = ''b'', ct_Image = ''feed-in:2'', ct_Names = [''/feed-in-b'']\<rparr>,
      \<lparr>ct_ID = ''c'', ct_Image = ''feed-in:1'', ct_Names = [''/feed-in-c'']\<rparr>]"

definition check_conf :: checkFeederContainersConfig where
  "check_conf = \<lparr>cc_feedInImageName = ''feed-in:2'', cc_feedInContainerPrefix = ''feed-in-''\<rparr>"

lemma list_docker_laws: "check_laws list_docker conf named"
proof -
  have "named (filter P d) = filter P (named d)" for P d
    unfolding named_def filter_filter by (rule filter_cong) auto
  then show ?thesis by (simp add: check_laws_def list_docker_def) (simp add: named_def)
qed

theorem check_removes_one_stale_witness:
  "\<exists>d'. checkFeederContainers list_docker check_conf three_containers = Ret ((30 * second, None), d') \<and>
     (\<exists>c \<in> set (named three_containers). ct_Image c \<noteq> ''feed-in:2'' \<and>
          named d' = filter (\<lambda>x. ct_ID x \<noteq> ct_ID c) (named three_containers))"
proof -
  have img: "cc_feedInImageName check_conf = ''feed-in:2''" by (simp add: check_conf_def)
  have "\<exists>d'. checkFeederContainers list_docker check_conf three_containers = Ret ((30 * second, None), d')"
    by (simp add: checkFeederContainers_def list_docker_def check_conf_def three_containers_def named_def)
  then obtain d' where d': "checkFeederContainers list_docker check_conf three_containers = Ret ((30 * second, None), d')"
    by blast
  have ok: "\<not> fails list_docker i" for i by (simp add: fails_def list_docker_def)
  obtain t err d'' G where r: "checkFeederContainers list_docker check_conf three_containers = Ret ((t, err), d'')"
    and G: "named d'' = filter (\<lambda>x. ct_ID x \<notin> G) (named three_containers)"
    and c: "t = 30 * second \<and> err = None \<and> (\<exists>c \<in> set (stale ''feed-in:2'' (named three_containers)).
          ct_ID c \<in> G \<and> (\<forall>i \<in> G - {ct_ID c}. fails list_docker i)) \<or> t = 300 * second \<or> t = second"
    using check_removes_one_stale[OF list_docker_laws, of check_conf three_containers] unfolding img
    by (elim exE conjE) (rule that, assumption, assumption, blast)
  have "t = 30 * second" "d'' = d'" using r d' by simp_all
  then have e: "d'' = d'" "\<exists>c \<in> set (stale ''feed-in:2'' (named three_containers)).
      ct_ID c \<in> G \<and> (\<forall>i \<in> G - {ct_ID c}. fails list_docker i)"
    using c by (simp_all add: second_def)
  with ok obtain c where
    g: "named d' = filter (\<lambda>x. ct_ID x \<notin> G) (named three_containers)"
      "c \<in> set (stale ''feed-in:2'' (named three_containers))" "ct_ID c \<in> G" "G - {ct_ID c} = {}"
    using G by blast
  then have "G = {ct_ID c}" by blast
  with g d' show ?thesis by (auto simp: stale_def)
qed

definition fic0 :: FeedInContainer where
  "fic0 = \<lparr>fic_Lat = 1, fic_Lon = 2, fic_Label = ''home'', fic_ApiKey = 7, fic_FeederCode = ''YPPH-1'',
     fic_Addr = IPv4 10 0 0 1\<rparr>"

definition start_conf :: startFeederContainersConfig where
  "start_conf = \<lparr>sc_feedInImageName = ''feed-in:2'', sc_feedInContainerPrefix = ''feed-in-'',
     sc_feedInContainerNetwork = ''net'', sc_pwIngestSink = ''nats://x''\<rparr>"

text \<open>A host that keeps the configurations of its containers and whether they run.\<close>

definition run_docker :: "(string \<times> dk_config \<times> bool) list docker" where
  "run_docker = \<lparr>dk_client = None,
     dk_list = (\<lambda>f d. (map (\<lambda>(nm, cfg, r). \<lparr>ct_ID = nm, ct_Image = dc_Image cfg, ct_Names = [''/'' @ nm]\<rparr>)
       (filter (\<lambda>(nm, cfg, r). r \<and> list_ex (\<lambda>i. take (length (fl_name f)) (drop i nm) = fl_name f) [0 ..< Suc (length nm)]) d), None)),
     dk_create = (\<lambda>nm cfg d. if nm \<in> fst ` set d then (Inl (ErrExt ''conflict''), d) else (Inr nm, (nm, cfg, False) # d)),
     dk_start = (\<lambda>i d. (None, map (\<lambda>(nm, cfg, r). (nm, cfg, r \<or> nm = i)) d)),
     dk_remove = (\<lambda>i d. (None, filter (\<lambda>(nm, cfg, r). nm \<noteq> i) d))\<rparr>"

definition running_of :: "(string \<times> dk_config \<times> bool) list \<Rightarrow> (string \<times> dk_config) list" where
  "running_of d = map (\<lambda>(nm, cfg, r). (nm, cfg)) (filter (\<lambda>(nm, cfg, r). r) d)"

lemma any_running:
  "(\<exists>y \<in> set d. case y of (x, cfg, r) \<Rightarrow> r \<and> Q x) \<longleftrightarrow> (\<exists>x cfg. (x, cfg, True) \<in> set d \<and> Q x)"
  "(\<exists>r \<in> set (running_of d). Q (fst r)) \<longleftrightarrow> (\<exists>x cfg. (x, cfg, True) \<in> set d \<and> Q x)"
  by (induction d) (auto simp: running_of_def split: prod.splits)

lemma run_docker_laws: "start_laws run_docker running_of"
proof -
  have sub: "(\<exists>i. i < Suc (length nm) \<and> take (length x) (drop i nm) = x) \<longleftrightarrow> (\<exists>a b. nm = a @ x @ b)" for nm x :: string
  proof
    assume "\<exists>i. i < Suc (length nm) \<and> take (length x) (drop i nm) = x"
    then obtain i where "take (length x) (drop i nm) = x" by blast
    then have "nm = take i nm @ x @ drop (length x) (drop i nm)" by (metis append_take_drop_id)
    then show "\<exists>a b. nm = a @ x @ b" by blast
  next
    assume "\<exists>a b. nm = a @ x @ b"
    then obtain a b where "nm = a @ x @ b" by blast
    then show "\<exists>i. i < Suc (length nm) \<and> take (length x) (drop i nm) = x" by (intro exI[of _ "length a"]) simp
  qed
  have "(nm, cfg) \<in> set (running_of d2)"
    if "dk_create run_docker nm cfg d = (Inr i, d1)" "dk_start run_docker i d1 = (None, d2)" for nm cfg d i d1 d2
    using that
    by (auto simp: run_docker_def running_of_def split: if_splits intro!: image_eqI[of _ _ "(nm, cfg, True)"])
  moreover have "cs \<noteq> [] \<longleftrightarrow> (\<exists>r \<in> set (running_of d). \<exists>a b. fst r = a @ nm @ b)"
    if "dk_list run_docker \<lparr>fl_name = nm, fl_status = Some ''running'', fl_label = None, fl_all = False\<rparr> d = (cs, None)"
    for nm d cs
  proof -
    have "list_ex (\<lambda>i. take (length nm) (drop i x) = nm) [0 ..< Suc (length x)] \<longleftrightarrow> (\<exists>a b. x = a @ nm @ b)" for x
      unfolding sub[symmetric] list_ex_iff by (auto simp del: upt_Suc)
    then have "cs = map (\<lambda>(nm, cfg, r). \<lparr>ct_ID = nm, ct_Image = dc_Image cfg, ct_Names = [''/'' @ nm]\<rparr>)
        (filter (\<lambda>(x, cfg, r). r \<and> (\<exists>a b. x = a @ nm @ b)) d)"
      using that by (simp add: run_docker_def del: upt_Suc)
    then have "cs \<noteq> [] \<longleftrightarrow> (\<exists>y \<in> set d. case y of (x, cfg, r) \<Rightarrow> r \<and> (\<exists>a b. x = a @ nm @ b))"
      by (simp add: filter_empty_conv)
    also have "\<dots> \<longleftrightarrow> (\<exists>x cfg. (x, cfg, True) \<in> set d \<and> (\<exists>a b. x = a @ nm @ b))"
      by (rule any_running(1)[of d "\<lambda>x. \<exists>a b. x = a @ nm @ b"])
    also have "\<dots> \<longleftrightarrow> (\<exists>r \<in> set (running_of d). \<exists>a b. fst r = a @ nm @ b)"
      by (rule any_running(2)[of d "\<lambda>x. \<exists>a b. x = a @ nm @ b", symmetric])
    finally show ?thesis .
  qed
  ultimately show ?thesis unfolding start_laws_def by blast
qed

theorem start_success_means_running_witness:
  "\<exists>resp d'. startFeederContainers run_docker (\<lambda>k. ''7'') ''feed-in-'' start_conf fic0 [] = ((resp, None), d') \<and>
     sr_ContainerID resp = ''feed-in-7'' \<and>
     (\<exists>cfg. (''feed-in-7'', cfg) \<in> set (running_of d') \<and> dc_Env cfg ! 0 = (''FEEDER_LAT'', EFloat 1) \<and>
        dc_Env cfg ! 3 = (''FEEDER_TAG'', EText ''YPPH-1''))"
proof -
  obtain resp d' where r: "startFeederContainers run_docker (\<lambda>k. ''7'') ''feed-in-'' start_conf fic0 [] = ((resp, None), d')"
    "sr_ContainerStartDelay resp" "sr_ContainerID resp = ''feed-in-7''"
    by (simp add: startFeederContainers_def run_docker_def Let_def getFeedInContainerName_def fic0_def)
  show ?thesis
    using start_success_means_running[OF run_docker_laws, of "''feed-in-''" "\<lambda>k. ''7''" fic0 start_conf "[]" resp d'] r
    by (auto simp: Let_def fic0_def)
qed

text \<open>A host whose search fails.\<close>

definition blind_docker :: "dk_container list docker" where
  "blind_docker = list_docker\<lparr>dk_list := (\<lambda>f d. ([], Some (ErrExt ''timeout'')))\<rparr>"

theorem start_reports_search_error_witness:
  "\<exists>resp. startFeederContainers blind_docker (\<lambda>k. ''7'') ''feed-in-'' start_conf fic0 [] =
     ((resp, Some (ErrExt ''timeout'')), [\<lparr>ct_ID = ''feed-in-7'', ct_Image = ''feed-in:2'', ct_Names = [''/feed-in-7'']\<rparr>]) \<and>
     sr_ContainerID resp = ''feed-in-7''"
  by (rule start_reports_search_error)
     (simp_all add: blind_docker_def list_docker_def getFeedInContainerName_def container_config_def start_conf_def)

section \<open>Kicking and rebuilding\<close>

definition kick_filter :: "(uuid \<Rightarrow> string) \<Rightarrow> string \<Rightarrow> uuid \<Rightarrow> dk_filter" where
  "kick_filter us prefix k = \<lparr>fl_name = getFeedInContainerName us prefix k, fl_status = None,
     fl_label = Some (''plane.watch.uuid'', k), fl_all = True\<rparr>"

text \<open>
  An acknowledged kick removed the feeder's container: for a message whose data is a UUID
  the handler acknowledges exactly if Docker can be reached, the search for that feeder finds
  exactly one container and its removal succeeds, and gives no answer otherwise; if the
  search does not find exactly one container, nothing is changed.
\<close>
theorem kick_acknowledged_iff:
  assumes "\<forall>c \<in> set (fst (dk_list dk (kick_filter us prefix k) d)). ct_Names c \<noteq> []"
    "parse (m_Data msg) = Inr k"
  shows "\<exists>act d'. KickFeederHandler parse dk us prefix msg d = Ret (act, d') \<and>
     (act = Ack \<longleftrightarrow> dk_client dk = None \<and>
        (\<exists>c. fst (dk_list dk (kick_filter us prefix k) d) = [c] \<and> dk_remove dk (ct_ID c) d = (None, d'))) \<and>
     (act = Ack \<or> act = NoAction) \<and>
     (length (fst (dk_list dk (kick_filter us prefix k) d)) \<noteq> 1 \<longrightarrow> d' = d)"
proof -
  obtain cs err where l: "dk_list dk (kick_filter us prefix k) d = (cs, err)"
    by (cases "dk_list dk (kick_filter us prefix k) d")
  show ?thesis
  proof (cases "dk_client dk")
    case (Some e)
    then show ?thesis using assms(2) by (simp add: KickFeederHandler_def KickFeeder_def)
  next
    case None
    show ?thesis
    proof (cases "length cs = 1")
      case True
      then obtain c where c: "cs = [c]" by (cases cs) auto
      obtain r d1 where "dk_remove dk (ct_ID c) d = (r, d1)" by (cases "dk_remove dk (ct_ID c) d")
      with None l c assms show ?thesis
        by (cases r) (auto simp: KickFeederHandler_def KickFeeder_def kick_filter_def Let_def)
    next
      case False
      with None l assms(2) show ?thesis
        by (cases cs) (auto simp: KickFeederHandler_def KickFeeder_def kick_filter_def Let_def)
    qed
  qed
qed

theorem kick_acknowledged_iff_witness:
  "\<exists>act d'. KickFeederHandler (\<lambda>_. Inr 7) list_docker (\<lambda>k. ''b'') ''feed-in-''
        \<lparr>m_Subject = ''s'', m_Data = ''7''\<rparr> [three_containers ! 1] = Ret (act, d') \<and> (act = Ack \<longleftrightarrow> d' = [])"
proof -
  have "\<forall>c \<in> set (fst (dk_list list_docker f d)). ct_Names c \<noteq> []" for f d
    by (simp add: list_docker_def named_def)
  from kick_acknowledged_iff[OF this, of "\<lambda>_. Inr 7" "\<lparr>m_Subject = ''s'', m_Data = ''7''\<rparr>" 7
      "\<lambda>k. ''b''" "''feed-in-''" "[three_containers ! 1]"]
  show ?thesis by (auto simp: list_docker_def named_def three_containers_def)
qed

text \<open>The last line of a build log that was read, empty if none was.\<close>

definition last_line :: "string \<Rightarrow> string" where
  "last_line body = (if scan_lines body = [] then [] else last (scan_lines body))"

text \<open>
  C39. The reply to a rebuild request. An instance is addressed exactly if it is connected and
  the request is a star, its own name or a pattern that matches it; one that is not addressed does not
  reply and does nothing. The build is accepted exactly if the manager is running, Docker, the
  archive and the build give no error, and the last line that was read of the build log carries
  none. An addressed instance wakes the checker, once, exactly if the build is accepted, and it
  replies on the subject of the request and under its own name: ok with that line if the
  build is accepted, and otherwise an error with the text of the first obstacle. The only
  exception is an accepted build when a signal is in the channel already that the checker never
  takes: then the handler does not return and never replies.
\<close>
theorem rebuild_reply_truthful:
  "let addressed = (nt_initialised nt \<and> (m_Data msg = ''*'' \<or> m_Data msg = Instance (natsConfig nt) \<or>
         fst (mt (m_Data msg) (Instance (natsConfig nt)))));
       accepted = (up \<and> rb_client env = None \<and> rb_tar env = None \<and>
         (\<exists>body. rb_build env = Inr body \<and> rb_error_field env (last_line body) = []))
   in case RebuildFeedInImageHandler lib mt nt up env msg of
        None \<Rightarrow> addressed \<and> accepted \<and> 1 \<le> rb_queued env \<and> \<not> rb_taken env
      | Some (reply, woken) \<Rightarrow>
          (woken \<longleftrightarrow> addressed \<and> accepted) \<and> (woken \<longrightarrow> rb_queued env = 0 \<or> rb_taken env) \<and>
          (case reply of
             None \<Rightarrow> \<not> addressed
           | Some r \<Rightarrow> addressed \<and> rr_Subject r = m_Subject msg \<and> rr_instance r = Instance (natsConfig nt) \<and>
               rr_result r = (if accepted then ''ok'' else ''error'') \<and>
               rr_Data r =
                 (if \<not> up then ''container manager not initialised''
                  else case rb_client env of Some e \<Rightarrow> err_text lib e
                  | None \<Rightarrow> (case rb_tar env of Some e \<Rightarrow> err_text lib e
                  | None \<Rightarrow> (case rb_build env of Inl e \<Rightarrow> err_text lib e
                  | Inr body \<Rightarrow> if accepted then last_line body else rb_error_field env (last_line body)))))"
proof -
  obtain forUs inst err where t: "ThisInstance mt (m_Data msg) nt = (forUs, inst, err)"
    by (cases "ThisInstance mt (m_Data msg) nt")
  have addr: "forUs \<longleftrightarrow> nt_initialised nt \<and> (m_Data msg = ''*'' \<or> m_Data msg = Instance (natsConfig nt) \<or>
      fst (mt (m_Data msg) (Instance (natsConfig nt))))"
    and inst: "forUs \<Longrightarrow> inst = Instance (natsConfig nt)"
    using t by (auto simp: ThisInstance_def Let_def split: if_splits prod.splits)
  show ?thesis
    unfolding Let_def addr[symmetric]
    using t inst
    by (auto simp: RebuildFeedInImageHandler_def RebuildFeedInImage_def Let_def last_line_def err_text_ext
        err_text_containers_down chanSkipDelay_capacity_def split: option.splits sum.splits prod.splits)
qed

text \<open>A build that is accepted, with the channel empty, and with a signal in it that nobody takes.\<close>

definition built :: "nat \<Rightarrow> rebuild_env" where
  "built queued = \<lparr>rb_client = None, rb_tar = None, rb_build = Inr ''a\<newline>ok'', rb_error_field = (\<lambda>l. []),
     rb_queued = queued, rb_taken = False\<rparr>"

definition nats_up :: nats_state where
  "nats_up = \<lparr>nt_initialised = True, natsConfig = zero_NatsConfig\<lparr>Instance := ''pw1''\<rparr>, nt_connected = True,
     nt_subs = [], nt_cancelled = False\<rparr>"

definition rebuild_req :: "string \<Rightarrow> nats_msg" where
  "rebuild_req dat = \<lparr>m_Subject = ''pw_bordercontrol.feedinimage.rebuild'', m_Data = dat\<rparr>"

theorem rebuild_reply_truthful_witness:
  "\<exists>r. RebuildFeedInImageHandler (\<lambda>e. []) (\<lambda>p i. (False, None)) nats_up True (built 0) (rebuild_req ''pw1'') =
       Some (Some r, True) \<and> rr_result r = ''ok'' \<and> rr_instance r = ''pw1'' \<and> rr_Data r = last_line ''a\<newline>ok'' \<and>
     RebuildFeedInImageHandler (\<lambda>e. []) (\<lambda>p i. (False, None)) nats_up True (built 1) (rebuild_req ''*'') = None \<and>
     RebuildFeedInImageHandler (\<lambda>e. []) (\<lambda>p i. (False, None)) nats_up True (built 0) (rebuild_req ''pw2'') = Some (None, False)"
proof -
  let ?h = "RebuildFeedInImageHandler (\<lambda>e. []) (\<lambda>p i. (False, None)) nats_up True"
  have "?h (built 1) (rebuild_req ''*'') = None" "?h (built 0) (rebuild_req ''pw2'') = Some (None, False)"
    by (simp_all add: RebuildFeedInImageHandler_def RebuildFeedInImage_def ThisInstance_def nats_up_def built_def
        rebuild_req_def zero_NatsConfig_def chanSkipDelay_capacity_def)
  moreover obtain reply where r: "?h (built 0) (rebuild_req ''pw1'') = Some (reply, True)"
    by (simp add: RebuildFeedInImageHandler_def RebuildFeedInImage_def ThisInstance_def nats_up_def built_def
        rebuild_req_def zero_NatsConfig_def chanSkipDelay_capacity_def Let_def)
  moreover have "\<exists>x. reply = Some x \<and> rr_result x = ''ok'' \<and> rr_instance x = ''pw1'' \<and> rr_Data x = last_line ''a\<newline>ok''"
    using rebuild_reply_truthful[of nats_up "rebuild_req ''pw1''" "\<lambda>p i. (False, None)" True "built 0" "\<lambda>e. []"] r
    by (cases reply) (simp_all add: nats_up_def built_def rebuild_req_def zero_NatsConfig_def)
  ultimately show ?thesis by blast
qed

text \<open>
  A line of 65536 bytes or more ends the reading of the build log, and nobody asks the scanner for its error: whatever
  follows it, also a line that says that the build failed, the outcome is the one of the lines before.
\<close>
theorem rebuild_ignores_after_long_line:
  assumes "\<forall>l\<in>set ls. CHR 0x0A \<notin> set l" "CHR 0x0A \<notin> set l" "65536 \<le> length l" "rest = [] \<or> hd rest = CHR 0x0A"
  shows "RebuildFeedInImage up (env\<lparr>rb_build := Inr (unlines ls @ l @ rest)\<rparr>) =
     RebuildFeedInImage up (env\<lparr>rb_build := Inr (unlines ls)\<rparr>)"
  by (simp add: RebuildFeedInImage_def scan_lines_overlong[OF assms] Let_def cong: option.case_cong)

text \<open>The two gauges split the containers found.\<close>

lemma gauges_split:
  "promMetricFeederContainersImageCurrentGaugeFunc dk img prefix d = Ret n \<Longrightarrow>
   promMetricFeederContainersImageNotCurrentGaugeFunc dk img prefix d = Ret m \<Longrightarrow>
   \<exists>cs. list_feed_in dk prefix d = Ret cs \<and> n + m = length cs \<and> m = length (stale img cs)"
proof -
  assume n: "promMetricFeederContainersImageCurrentGaugeFunc dk img prefix d = Ret n"
    and m: "promMetricFeederContainersImageNotCurrentGaugeFunc dk img prefix d = Ret m"
  have cur: "foldl (\<lambda>n c. if ct_Image c = img then n + 1 else n) a cs = a + length (filter (\<lambda>c. ct_Image c = img) cs)"
    for a :: nat and cs by (induction cs arbitrary: a) simp_all
  have old: "foldl (\<lambda>n c. if ct_Image c \<noteq> img then n + 1 else n) a cs = a + length (stale img cs)"
    for a :: nat and cs by (induction cs arbitrary: a) (simp_all add: stale_def)
  obtain cs where cs: "list_feed_in dk prefix d = Ret cs"
    using n by (cases "list_feed_in dk prefix d")
      (simp_all add: promMetricFeederContainersImageCurrentGaugeFunc_def)
  have "n = length (filter (\<lambda>c. ct_Image c = img) cs)" "m = length (stale img cs)"
    using n m cur[of 0 cs] old[of 0 cs]
    by (simp_all add: promMetricFeederContainersImageCurrentGaugeFunc_def
        promMetricFeederContainersImageNotCurrentGaugeFunc_def cs)
  then show ?thesis using cs sum_length_filter_compl[of "\<lambda>c. ct_Image c = img" cs]
    by (simp add: stale_def)
qed

end
