(* ===== verification/ProxyStart.thy ===== *)
theory ProxyStart
  imports ProxyLoop Containers
begin

text \<open>
  \<open>ProxyConnection.Start\<close> and \<open>Stop\<close> of \<open>lib/feedproxy/feedproxy_connections.go\<close>: the whole life of one
  proxied connection, with the order of its effects, and the limit of connections per feeder
  and protocol when several connections are started at the same time.

  \<open>start_env\<close> holds what the surroundings answer. The effects outside the package's state are
  recorded as events, in order; deferred calls run where the function returns. While the
  connection is served other goroutines use the statistics too: \<open>pe_meanwhile\<close> is what the store
  becomes.
\<close>

record ProxyConnection =
  px_ConnectionProtocol :: protocol
  px_ConnectionNumber :: u64
  px_InnerConnectionPort :: int
  px_FeedInContainerPrefix :: string
  px_FeederValidityCheckInterval :: duration

record start_env =
  pe_remoteAddr :: string
  pe_check_now :: time
  pe_read :: "string \<times> error"
  pe_auth :: auth_env
  pe_lastAuthCheck :: time
  pe_startContainer :: "FeedInContainer \<Rightarrow> string \<times> error"
  pe_uuidString :: "uuid \<Rightarrow> string"
  pe_lookupIP :: "string \<Rightarrow> go_err + ip list"
  pe_dial :: "tcp_addr \<Rightarrow> error"
  pe_keepalive :: error
  pe_keepalive_period :: error
  pe_write :: error
  pe_dstAddr :: string
  pe_connected :: time
  pe_registered :: time
  pe_c2s_start :: time
  pe_s2c_start :: time
  pe_rounds :: "(proxyDirection \<times> round_env) list"
  pe_meanwhile :: "stats_state \<Rightarrow> stats_state"
  pe_unregistered :: time

datatype proxy_event =
    EvStartContainer FeedInContainer
  | EvDialled tcp_addr
  | EvWrite string
  | EvRegister Connection
  | EvServe pair_state
  | EvUnregister Connection
  | EvCloseOut
  | EvCloseClient

text \<open>The package's variables that \<open>Start\<close> uses.\<close>

record fp_state =
  fp_initialised :: bool
  fp_tracker :: incomingConnectionTracker
  fp_stats :: stats_state

type_synonym start_outcome = "(error \<times> proxy_event list \<times> fp_state) go"

section \<open>Start\<close>

text \<open>Start the feed-in container (an error is only logged) and connect, by protocol.\<close>

definition connect_part ::
    "start_env \<Rightarrow> ProxyConnection \<Rightarrow> feederClient \<Rightarrow> ip \<Rightarrow> (tcp_addr option \<times> error) \<times> proxy_event list" where
  "connect_part env c clientDetails remoteIP =
     (if px_ConnectionProtocol c = BEAST then
        let fic = \<lparr>fic_Lat = refLat clientDetails, fic_Lon = refLon clientDetails, fic_Label = label clientDetails,
                   fic_ApiKey = clientApiKey clientDetails, fic_FeederCode = feederCode clientDetails,
                   fic_Addr = remoteIP\<rparr>;
            (_, _) = pe_startContainer env fic
        in (dialContainerTCP (pe_lookupIP env) (pe_dial env)
              (px_FeedInContainerPrefix c @ pe_uuidString env (clientApiKey clientDetails)) (px_InnerConnectionPort c),
            [EvStartContainer fic])
      else if px_ConnectionProtocol c = MLAT then
        (dialContainerTCP (pe_lookupIP env) (pe_dial env) (mux clientDetails) (px_InnerConnectionPort c), [])
      else ((None, Some ErrUnsupportedProtocol), []))"

definition conn_record :: "start_env \<Rightarrow> ProxyConnection \<Rightarrow> feederClient \<Rightarrow> Connection" where
  "conn_record env c clientDetails =
     \<lparr>cn_ApiKey = clientApiKey clientDetails, cn_SrcAddr = pe_remoteAddr env, cn_DstAddr = pe_dstAddr env,
      cn_Proto = px_ConnectionProtocol c, cn_FeederCode = feederCode clientDetails,
      cn_ConnNum = px_ConnectionNumber c\<rparr>"

text \<open>
  From the open connection on: keep-alive, the data read before, the registration, the two
  directions until they have ended, and the deferred removal and closes.
\<close>

definition serve_part ::
    "start_env \<Rightarrow> ProxyConnection \<Rightarrow> feederClient \<Rightarrow> string \<Rightarrow> proxy_event list \<Rightarrow> fp_state \<Rightarrow> start_outcome" where
  "serve_part env c clientDetails dat evs st =
     (let closes = [EvCloseOut, EvCloseClient]; conn = conn_record env c clientDetails in
      case pe_keepalive env of
        Some e \<Rightarrow> Ret (Some e, evs @ closes, st)
      | None \<Rightarrow>
      case pe_keepalive_period env of
        Some e \<Rightarrow> Ret (Some e, evs @ closes, st)
      | None \<Rightarrow>
      case pe_write env of
        Some e \<Rightarrow> Ret (Some e, evs @ [EvWrite dat] @ closes, st)
      | None \<Rightarrow>
      go_bind (RegisterConnection conn (pe_connected env) (pe_registered env) (fp_stats st))
        (\<lambda>(err, s1).
          case err of
            Some e \<Rightarrow> Ret (Some e, evs @ [EvWrite dat] @ closes, st\<lparr>fp_stats := s1\<rparr>)
          | None \<Rightarrow>
              let ps = pair_run \<lparr>pc_clientApiKey = clientApiKey clientDetails, pc_connNum = px_ConnectionNumber c,
                         pc_proto = px_ConnectionProtocol c, pc_interval = px_FeederValidityCheckInterval c\<rparr>
                         (pe_rounds env)
                         (pair_start (px_ConnectionProtocol c) (pe_lastAuthCheck env) (pe_c2s_start env) (pe_s2c_start env));
                  s2 = pe_meanwhile env s1
              in go_bind (UnregisterConnection conn (pe_unregistered env) s2)
                   (\<lambda>(_, s3). Ret (None,
                      evs @ [EvWrite dat, EvRegister conn, EvServe ps, EvUnregister conn] @ closes,
                      st\<lparr>fp_stats := s3\<rparr>))))"

definition ProxyConnection_Start :: "start_env \<Rightarrow> ProxyConnection \<Rightarrow> fp_state \<Rightarrow> start_outcome" where
  "ProxyConnection_Start env c st =
     (if \<not> fp_initialised st then Ret (Some ErrFeedproxyNotInitialised, [], st)
      else
        let remoteIP = host_ip (pe_remoteAddr env);
            (err, t1) = check (pe_check_now env) remoteIP (px_ConnectionNumber c) (fp_tracker st);
            st1 = st\<lparr>fp_tracker := t1\<rparr>
        in case err of
          Some e \<Rightarrow> Ret (Some e, [EvCloseClient], st1)
        | None \<Rightarrow>
          let ((dat, rerr), closed) = readFromClient (pe_read env);
              evs = (if closed then [EvCloseClient] else [])
          in if rerr = Some ErrDeadline then Ret (rerr, evs @ [EvCloseClient], st1)
             else
               let ((clientDetails, aerr), s1) = authenticateFeeder (pe_auth env) (fp_stats st1);
                   st2 = st1\<lparr>fp_stats := s1\<rparr>
               in case aerr of
                 Some e \<Rightarrow> Ret (Some e, evs @ [EvCloseClient], st2)
               | None \<Rightarrow>
                 let (numConnections, nerr) = GetNumConnections (clientApiKey clientDetails) (px_ConnectionProtocol c) (fp_stats st2)
                 in case nerr of
                   Some e \<Rightarrow> Ret (Some e, evs @ [EvCloseClient], st2)
                 | None \<Rightarrow>
                   if numConnections \<ge> int maxConnectionsPerProto
                   then Ret (Some ErrConnectionLimitExceeded, evs @ [EvCloseClient], st2)
                   else
                     (case connect_part env c clientDetails remoteIP of
                        ((addr, Some e), evs1) \<Rightarrow> Ret (Some e, evs @ evs1 @ [EvCloseClient], st2)
                      | ((None, None), evs1) \<Rightarrow> Panic ''nil pointer dereference''
                      | ((Some addr, None), evs1) \<Rightarrow>
                          serve_part env c clientDetails dat (evs @ evs1 @ [EvDialled addr]) st2))"

text \<open>\<open>Stop\<close> cancels the connection's context, which the rounds see as done.\<close>

definition ProxyConnection_Stop :: "fp_state \<Rightarrow> error \<times> bool" where
  "ProxyConnection_Stop st =
     (if \<not> fp_initialised st then (Some ErrFeedproxyNotInitialised, False) else (None, True))"

section \<open>What a start guarantees\<close>

text \<open>Why a connection may be served: the guards of \<open>Start\<close>, in order.\<close>

definition admitted :: "start_env \<Rightarrow> ProxyConnection \<Rightarrow> fp_state \<Rightarrow> feederClient \<Rightarrow> bool" where
  "admitted env c st d \<longleftrightarrow> fp_initialised st \<and>
     check_count (host_ip (pe_remoteAddr env)) (fp_tracker st) = None \<and>
     snd (pe_read env) \<noteq> Some ErrDeadline \<and>
     (\<exists>s1. authenticateFeeder (pe_auth env) (fp_stats st) = ((d, None), s1) \<and>
        fst (GetNumConnections (clientApiKey d) (px_ConnectionProtocol c) s1) < int maxConnectionsPerProto) \<and>
     IsValid (px_ConnectionProtocol c)"

definition balanced :: "proxy_event list \<Rightarrow> bool" where
  "balanced evs \<longleftrightarrow> last evs = EvCloseClient \<and>
     length (filter (\<lambda>e. case e of EvDialled a \<Rightarrow> True | _ \<Rightarrow> False) evs) = length (filter (\<lambda>e. e = EvCloseOut) evs) \<and>
     (\<forall>conn. length (filter (\<lambda>e. e = EvRegister conn) evs) = length (filter (\<lambda>e. e = EvUnregister conn) evs))"

text \<open>The events of the served part: it fails before or after the first write, or it serves.\<close>

definition serve_tail :: "start_env \<Rightarrow> ProxyConnection \<Rightarrow> feederClient \<Rightarrow> string \<Rightarrow> proxy_event list \<Rightarrow> bool \<Rightarrow> bool" where
  "serve_tail env c d dat tail ok \<longleftrightarrow>
     (if ok then \<exists>ps. tail = [EvWrite dat, EvRegister (conn_record env c d), EvServe ps,
                              EvUnregister (conn_record env c d), EvCloseOut, EvCloseClient]
      else tail = [EvCloseOut, EvCloseClient] \<or> tail = [EvWrite dat, EvCloseOut, EvCloseClient])"

lemma serve_part_events:
  assumes "serve_part env c d dat evs st = Ret (err, evs', st')"
  shows "\<exists>tail. evs' = evs @ tail \<and> serve_tail env c d dat tail (err = None)"
proof (cases "pe_keepalive env = None \<and> pe_keepalive_period env = None \<and> pe_write env = None")
  case False
  with assms show ?thesis
    by (cases "pe_keepalive env"; cases "pe_keepalive_period env"; cases "pe_write env")
       (auto simp: serve_part_def serve_tail_def Let_def)
next
  case True
  let ?conn = "conn_record env c d"
  obtain e s1 where reg: "RegisterConnection ?conn (pe_connected env) (pe_registered env) (fp_stats st) = Ret (e, s1)"
    using assms True
    by (cases "RegisterConnection ?conn (pe_connected env) (pe_registered env) (fp_stats st)")
       (auto simp: serve_part_def Let_def)
  show ?thesis
  proof (cases e)
    case (Some err1)
    with assms True reg show ?thesis
      by (auto simp: serve_part_def serve_tail_def Let_def)
  next
    case None
    obtain e3 s3 where unreg: "UnregisterConnection ?conn (pe_unregistered env) (pe_meanwhile env s1) = Ret (e3, s3)"
      using assms True reg None
      by (cases "UnregisterConnection ?conn (pe_unregistered env) (pe_meanwhile env s1)")
         (auto simp: serve_part_def Let_def)
    with assms True reg None show ?thesis
      by (auto simp: serve_part_def serve_tail_def Let_def)
  qed
qed

lemma connect_part_events:
  assumes "connect_part env c d ip = ((addr, err), evs)"
  shows "set evs \<subseteq> range EvStartContainer \<and> (err = None \<longrightarrow> IsValid (px_ConnectionProtocol c) \<and> addr \<noteq> None)"
proof -
  have dial: "a \<noteq> None" if "dialContainerTCP l d h n = (a, None)" for l d h n a
    using that by (auto simp: dialContainerTCP_def lookupContainerTCP_def lookup_loop_last Let_def
        split: sum.splits option.splits prod.splits if_splits)
  show ?thesis
    using assms by (auto simp: connect_part_def Let_def split: if_splits prod.splits dest: dial)
qed

text \<open>
  What the events of a started connection look like: refused early, refused by the connect,
  or connected and then served or not.
\<close>

lemma start_cases:
  assumes init: "fp_initialised st" and run: "ProxyConnection_Start env c st = Ret (err, evs, st')"
  obtains (refused) pre where "evs = pre @ [EvCloseClient]" "err \<noteq> None"
      "set pre \<subseteq> {EvCloseClient} \<union> range EvStartContainer"
    | (connected) pre addr d dat tail where "evs = pre @ EvDialled addr # tail"
      "set pre \<subseteq> {EvCloseClient} \<union> range EvStartContainer"
      "serve_tail env c d dat tail (err = None)" "admitted env c st d" "dat = fst (pe_read env)"
proof -
  let ?ip = "host_ip (pe_remoteAddr env)"
  show thesis
  proof (cases "check_count ?ip (fp_tracker st)")
    case (Some e)
    have "ProxyConnection_Start env c st = Ret (Some e, [EvCloseClient], st)"
      using init by (simp add: ProxyConnection_Start_def check_def Some Let_def)
    then show thesis using run by (intro refused[of "[]"]) simp_all
  next
    case None
    obtain dat rerr where rd: "pe_read env = (dat, rerr)" by (cases "pe_read env")
    define evs0 where "evs0 = (if rerr = None then [] else [EvCloseClient])"
    have evs0: "set evs0 \<subseteq> {EvCloseClient}" by (simp add: evs0_def)
    have rfc: "readFromClient (pe_read env) = ((dat, rerr), rerr \<noteq> None)"
      by (simp add: readFromClient_def rd split: option.split)
    obtain d aerr s1 where au: "authenticateFeeder (pe_auth env) (fp_stats st) = ((d, aerr), s1)"
      by (cases "authenticateFeeder (pe_auth env) (fp_stats st)") auto
    obtain num nerr where nu: "GetNumConnections (clientApiKey d) (px_ConnectionProtocol c) s1 = (num, nerr)"
      by (cases "GetNumConnections (clientApiKey d) (px_ConnectionProtocol c) s1")
    obtain addr cerr evs1 where co: "connect_part env c d ?ip = ((addr, cerr), evs1)"
      by (cases "connect_part env c d ?ip") auto
    have evs1: "set evs1 \<subseteq> range EvStartContainer"
        "cerr = None \<longrightarrow> IsValid (px_ConnectionProtocol c) \<and> addr \<noteq> None"
      using connect_part_events[OF co] by simp_all
    define st2 where "st2 = st\<lparr>fp_tracker := check_append (pe_check_now env) ?ip (px_ConnectionNumber c) (fp_tracker st),
        fp_stats := s1\<rparr>"
    note d = ProxyConnection_Start_def check_def Let_def rfc None au nu co
    have closed: "(if rerr \<noteq> None then [EvCloseClient] else []) = evs0" by (simp add: evs0_def)
    show thesis
    proof (cases "rerr = Some ErrDeadline")
      case True
      then show thesis using init run evs0 by (intro refused[of evs0]) (auto simp: d evs0_def)
    next
      case rd_ok: False
      show thesis
      proof (cases aerr)
        case (Some e)
        then show thesis using init run evs0 rd_ok by (intro refused[of evs0]) (auto simp: d evs0_def)
      next
        case au_ok: None
        show thesis
        proof (cases nerr)
          case (Some e)
          then show thesis using init run evs0 rd_ok au_ok by (intro refused[of evs0]) (auto simp: d evs0_def)
        next
          case nu_ok: None
          show thesis
          proof (cases "num \<ge> int maxConnectionsPerProto")
            case True
            then show thesis using init run evs0 rd_ok au_ok nu_ok by (intro refused[of evs0]) (auto simp: d evs0_def)
          next
            case below: False
            show thesis
            proof (cases cerr)
              case (Some e)
              then show thesis using init run evs0 evs1(1) rd_ok au_ok nu_ok below
                by (intro refused[of "evs0 @ evs1"]) (auto simp: d evs0_def split: option.splits)
            next
              case co_ok: None
              obtain a where a: "addr = Some a" using evs1(2) co_ok by blast
              have "serve_part env c d dat (evs0 @ evs1 @ [EvDialled a]) st2 = Ret (err, evs, st')"
                using init run rd_ok au_ok nu_ok below co_ok a by (auto simp: d evs0_def st2_def)
              from serve_part_events[OF this] obtain tail where
                t: "evs = (evs0 @ evs1 @ [EvDialled a]) @ tail" "serve_tail env c d dat tail (err = None)"
                by blast
              have "admitted env c st d"
                using init None rd rd_ok au au_ok nu below evs1(2) co_ok by (simp add: admitted_def)
              then show thesis
                using t evs0 evs1(1) rd by (intro connected[of "evs0 @ evs1" a tail d dat]) auto
            qed
          qed
        qed
      qed
    qed
  qed
qed

lemma start_balanced:
  assumes "fp_initialised st" "ProxyConnection_Start env c st = Ret (err, evs, st')"
  shows "balanced evs \<and> evs \<noteq> []"
proof (rule start_cases[OF assms])
  fix pre
  assume "evs = pre @ [EvCloseClient]" and p: "set pre \<subseteq> {EvCloseClient} \<union> range EvStartContainer"
  moreover have "filter (\<lambda>e. case e of EvDialled a \<Rightarrow> True | _ \<Rightarrow> False) pre = []"
    "filter (\<lambda>e. e = EvCloseOut) pre = []" "filter (\<lambda>e. e = EvRegister conn) pre = []"
    "filter (\<lambda>e. e = EvUnregister conn) pre = []" for conn
    using p by (auto simp: filter_empty_conv)
  ultimately show "balanced evs \<and> evs \<noteq> []" by (simp add: balanced_def)
next
  fix pre addr d dat tail
  assume e: "evs = pre @ EvDialled addr # tail" and p: "set pre \<subseteq> {EvCloseClient} \<union> range EvStartContainer"
    and t: "serve_tail env c d dat tail (err = None)"
  have "filter (\<lambda>e. case e of EvDialled a \<Rightarrow> True | _ \<Rightarrow> False) pre = []"
    "filter (\<lambda>e. e = EvCloseOut) pre = []" "filter (\<lambda>e. e = EvRegister conn) pre = []"
    "filter (\<lambda>e. e = EvUnregister conn) pre = []" for conn
    using p by (auto simp: filter_empty_conv)
  with e t show "balanced evs \<and> evs \<noteq> []" by (auto simp: balanced_def serve_tail_def split: if_splits)
qed

text \<open>
  C6. A start cleans up after itself: whenever \<open>Start\<close> of an initialised proxy returns, on
  every path, its last effect is to close the client's connection, every connection it opened
  to a container or server has been closed, and every registration with the statistics
  has been undone. Of a proxy that is not initialised it returns its error with no effect at
  all: the test stands before the deferred close, so the client's connection stays open.
\<close>
theorem start_releases_everything:
  assumes start: "ProxyConnection_Start env c st = Ret (err, evs, st')"
  shows "if fp_initialised st
     then last evs = EvCloseClient \<and> evs \<noteq> [] \<and> balanced evs
     else err = Some ErrFeedproxyNotInitialised \<and> evs = [] \<and> st' = st"
proof (cases "fp_initialised st")
  case True
  then show ?thesis using start_balanced[OF _ start] by (auto simp: balanced_def)
next
  case False
  then show ?thesis using start by (auto simp: ProxyConnection_Start_def)
qed

text \<open>
  C1. No data for strangers: if \<open>Start\<close> opened a connection to a container or server, or wrote
  to it, or registered the client, then the client's source was below its rate limit, the
  client did not run into the read deadline, the TLS handshake was complete, the SNI was the
  key of a valid feeder, the statistics knew fewer connections of that feeder and protocol
  than the limit, and the protocol is valid; and what was written first is what was read.
\<close>
theorem start_serves_admitted_only:
  assumes "fp_initialised st" "ProxyConnection_Start env c st = Ret (err, evs, st')"
    "EvDialled addr \<in> set evs \<or> EvWrite w \<in> set evs \<or> EvRegister conn \<in> set evs"
  shows "\<exists>d. admitted env c st d \<and>
     ae_handshakeComplete (pe_auth env) \<and> snd (ae_uuidFromSNI (pe_auth env)) = None \<and>
     clientApiKey d = fst (ae_uuidFromSNI (pe_auth env)) \<and>
     isValidApiKey (ae_valid (pe_auth env)) (clientApiKey d) \<and>
     (EvWrite w \<in> set evs \<longrightarrow> w = fst (pe_read env)) \<and>
     (EvRegister conn \<in> set evs \<longrightarrow> conn = conn_record env c d)"
proof (rule start_cases[OF assms(1,2)])
  fix pre
  assume "evs = pre @ [EvCloseClient]" "set pre \<subseteq> {EvCloseClient} \<union> range EvStartContainer"
  with assms(3) show ?thesis by auto
next
  fix pre addr' d dat tail
  assume e: "evs = pre @ EvDialled addr' # tail" "set pre \<subseteq> {EvCloseClient} \<union> range EvStartContainer"
    "serve_tail env c d dat tail (err = None)" and ad: "admitted env c st d" and dat: "dat = fst (pe_read env)"
  have "EvWrite w \<in> set evs \<longrightarrow> w = fst (pe_read env)" "EvRegister conn \<in> set evs \<longrightarrow> conn = conn_record env c d"
    using e by (auto simp: serve_tail_def dat split: if_splits)
  moreover have "ae_handshakeComplete (pe_auth env) \<and> snd (ae_uuidFromSNI (pe_auth env)) = None \<and>
     clientApiKey d = fst (ae_uuidFromSNI (pe_auth env)) \<and>
     isValidApiKey (ae_valid (pe_auth env)) (clientApiKey d)"
    using ad by (auto simp: admitted_def dest: authenticateFeeder_admits)
  ultimately show ?thesis using ad by blast
qed

text \<open>A BEAST client of a valid feeder, whose container is found.\<close>

definition feeder7 :: atc_feeder where
  "feeder7 = \<lparr>f_Altitude = 0, f_ApiKey = 7, f_FeederCode = ''YPPH-1'', f_FeedDirection = [], f_FeedProtocol = [],
     f_ID = 1, f_Label = ''home'', f_Latitude = 0, f_Longitude = 0, f_MlatEnabled = True, f_Mux = ''mux'', f_User = []\<rparr>"

definition env7 :: start_env where
  "env7 = \<lparr>pe_remoteAddr = ''10.0.0.1:999'', pe_check_now = 5, pe_read = (''abc'', None),
     pe_auth = \<lparr>ae_handshakeComplete = True, ae_uuidFromSNI = (7, None), ae_valid = [feeder7],
                ae_valid_info = [feeder7], ae_now = 6\<rparr>,
     pe_lastAuthCheck = 7, pe_startContainer = (\<lambda>_. ([], None)), pe_uuidString = (\<lambda>_. ''seven''),
     pe_lookupIP = (\<lambda>_. Inr [IPv4 10 0 0 9]), pe_dial = (\<lambda>_. None), pe_keepalive = None,
     pe_keepalive_period = None, pe_write = None, pe_dstAddr = ''10.0.0.9:12345'', pe_connected = 8,
     pe_registered = 8, pe_c2s_start = 9, pe_s2c_start = 9, pe_rounds = [], pe_meanwhile = id,
     pe_unregistered = 10\<rparr>"

definition conn7 :: ProxyConnection where
  "conn7 = \<lparr>px_ConnectionProtocol = BEAST, px_ConnectionNumber = 1, px_InnerConnectionPort = 12345,
     px_FeedInContainerPrefix = ''feed-in-'', px_FeederValidityCheckInterval = 60 * second\<rparr>"

definition fp_started :: fp_state where
  "fp_started = \<lparr>fp_initialised = True, fp_tracker = new_tracker, fp_stats = started\<rparr>"

definition start7_ok :: bool where
  "start7_ok = (case ProxyConnection_Start env7 conn7 fp_started of
     Panic m \<Rightarrow> False
   | Ret (err, evs, st') \<Rightarrow> err = None \<and> length evs = 8 \<and> evs ! 2 = EvWrite ''abc'')"

lemma start7_run: "start7_ok" by code_simp

lemma start7_result:
  obtains evs st' where "ProxyConnection_Start env7 conn7 fp_started = Ret (None, evs, st')" "length evs = 8"
    "EvWrite ''abc'' \<in> set evs"
proof -
  obtain r where r: "ProxyConnection_Start env7 conn7 fp_started = Ret r"
    using start7_run by (cases "ProxyConnection_Start env7 conn7 fp_started") (simp_all add: start7_ok_def)
  obtain err evs st' where rr: "r = (err, evs, st')" by (cases r)
  have "err = None" "length evs = 8" "evs ! 2 = EvWrite ''abc''"
    using start7_run by (simp_all add: start7_ok_def r rr)
  moreover from this have "EvWrite ''abc'' \<in> set evs" using nth_mem[of 2 evs] by simp
  ultimately show thesis using that r rr by simp
qed

theorem start_releases_everything_witness:
  "\<exists>evs st'. ProxyConnection_Start env7 conn7 fp_started = Ret (None, evs, st') \<and> length evs = 8 \<and> balanced evs"
proof (rule start7_result)
  fix evs st'
  assume r: "ProxyConnection_Start env7 conn7 fp_started = Ret (None, evs, st')" "length evs = 8"
  have "balanced evs" using start_releases_everything[OF r(1)] by (simp add: fp_started_def)
  with r show ?thesis by blast
qed

theorem start_serves_admitted_only_witness:
  "\<exists>evs st' d. ProxyConnection_Start env7 conn7 fp_started = Ret (None, evs, st') \<and> EvWrite ''abc'' \<in> set evs \<and>
     admitted env7 conn7 fp_started d \<and> clientApiKey d = 7 \<and> isValidApiKey [feeder7] 7"
proof (rule start7_result)
  fix evs st'
  assume r: "ProxyConnection_Start env7 conn7 fp_started = Ret (None, evs, st')" "EvWrite ''abc'' \<in> set evs"
  have i: "fp_initialised fp_started" by (simp add: fp_started_def)
  have v: "fst (ae_uuidFromSNI (pe_auth env7)) = 7" "ae_valid (pe_auth env7) = [feeder7]" by (simp_all add: env7_def)
  show ?thesis
    using start_serves_admitted_only[OF i r(1), of undefined "''abc''" undefined] r
    unfolding v by (auto simp: feeder7_def)
qed

section \<open>The limit of connections per feeder and protocol\<close>

text \<open>
  \<open>Start\<close> reads the number of connections, then starts the container and connects, and only
  then registers. The step relation keeps the connections that have passed the check and not
  yet registered (\<open>ls_pending\<close>, at most \<open>N\<close> at once) and lets any store operation that concerns
  no connection run in between.
\<close>

record limit_sys =
  ls_store :: stats_state
  ls_pending :: "conn_id list"

fun neutral :: "stats_op \<Rightarrow> bool" where
  "neutral (OpRegister conn connected now) = False"
| "neutral (OpUnregister conn now) = False"
| "neutral op = True"

inductive limit_step :: "nat \<Rightarrow> limit_sys \<Rightarrow> limit_sys \<Rightarrow> bool" for N where
  admit: "length (ls_pending s) < N \<Longrightarrow> IsValid p \<Longrightarrow>
    GetNumConnections k p (ls_store s) = (num, None) \<Longrightarrow> num < int maxConnectionsPerProto \<Longrightarrow>
    limit_step N s (s\<lparr>ls_pending := (k, p, n) # ls_pending s\<rparr>)"
| give_up: "ls_pending s = xs @ i # ys \<Longrightarrow> limit_step N s (s\<lparr>ls_pending := xs @ ys\<rparr>)"
| register: "ls_pending s = xs @ i # ys \<Longrightarrow>
    RegisterConnection (conn_of src dst code i) connected now (ls_store s) = Ret (None, st') \<Longrightarrow>
    limit_step N s \<lparr>ls_store = st', ls_pending = xs @ ys\<rparr>"
| unregister: "UnregisterConnection (conn_of src dst code i) now (ls_store s) = Ret (None, st') \<Longrightarrow>
    limit_step N s (s\<lparr>ls_store := st'\<rparr>)"
| other: "neutral op \<Longrightarrow> stats_step op (ls_store s) = Ret (e, st') \<Longrightarrow>
    limit_step N s (s\<lparr>ls_store := st'\<rparr>)"

inductive limit_reach :: "nat \<Rightarrow> limit_sys \<Rightarrow> bool" for N where
  start: "limit_reach N \<lparr>ls_store = started, ls_pending = []\<rparr>"
| step: "limit_reach N s \<Longrightarrow> limit_step N s t \<Longrightarrow> limit_reach N t"

definition pending_of :: "conn_id list \<Rightarrow> uuid \<Rightarrow> protocol \<Rightarrow> nat" where
  "pending_of xs k p = length (filter (\<lambda>i. fst i = k \<and> fst (snd i) = p) xs)"

definition conns :: "stats_state \<Rightarrow> uuid \<Rightarrow> protocol \<Rightarrow> nat" where
  "conns st k p = card (registered (stats st) k p)"

definition limit_inv :: "nat \<Rightarrow> limit_sys \<Rightarrow> bool" where
  "limit_inv N s \<longleftrightarrow> store_inv (ls_store s) \<and> length (ls_pending s) \<le> N \<and>
     (\<forall>i \<in> set (ls_pending s). IsValid (fst (snd i))) \<and>
     (\<forall>k p. conns (ls_store s) k p + pending_of (ls_pending s) k p \<le> N)"

lemma pending_of_le: "pending_of xs k p \<le> length xs"
  by (simp add: pending_of_def)

lemma conns_members:
  "conns st k p = card {i \<in> store_members st. (fst i, fst (snd i)) = (k, p)}"
  unfolding store_members_key conns_def by (simp add: card_image inj_on_def)

lemma conns_number: "store_inv st \<Longrightarrow> GetNumConnections k p st = (int (conns st k p), None)"
  using count_registered(1)[of "stats st" k p] by (simp add: GetNumConnections_def store_inv_def conns_def)

lemma conns_insert:
  assumes "store_inv st" "store_members st' = insert i (store_members st)"
  shows "conns st' k p \<le> conns st k p + (if fst i = k \<and> fst (snd i) = p then 1 else 0)"
proof -
  let ?S = "{j \<in> store_members st. (fst j, fst (snd j)) = (k, p)}"
  have "{j \<in> store_members st'. (fst j, fst (snd j)) = (k, p)} =
      (if fst i = k \<and> fst (snd i) = p then insert i ?S else ?S)"
    using assms(2) by auto
  moreover have "card (insert i ?S) \<le> card ?S + 1"
    using card_insert_le_m1[of "card ?S + 1" ?S i] by simp
  ultimately show ?thesis unfolding conns_members by simp
qed

lemma conns_delete:
  assumes "store_inv st" "store_members st' = store_members st - {i}"
  shows "conns st' k p \<le> conns st k p"
proof -
  have "finite {j \<in> store_members st. (fst j, fst (snd j)) = (k, p)}"
    by (rule store.finite_members[OF assms(1)])
  then show ?thesis unfolding conns_members using assms(2) by (intro card_mono) auto
qed

lemma neutral_members:
  assumes "store_inv st" "neutral op" "stats_step op st = Ret (e, st')"
  shows "store_inv st' \<and> store_members st' = store_members st"
proof -
  from stats_step_ok[of st op] assms have ok: "step_ok op st e st'"
    unfolding store_inv_def by auto
  then have l: "(e = None, lookup_conn (stats st')) = spec_step op (lookup_conn (stats st))"
    by (simp add: step_ok_def)
  have "store_members st' = store_members st"
    using l assms(2) by (cases op) (auto simp: store_members_def reg_set_def split: option.splits if_splits)
  with ok show ?thesis by (simp add: step_ok_def store_inv_def)
qed

lemma limit_step_inv: "limit_step N s t \<Longrightarrow> limit_inv N s \<Longrightarrow> limit_inv N t"
proof (induction rule: limit_step.induct)
  case (admit s p k num n)
  have "num = int (conns (ls_store s) k p)"
    using conns_number[of "ls_store s" k p] admit by (simp add: limit_inv_def)
  then have c0: "conns (ls_store s) k p = 0" using admit.hyps(4) by (simp add: maxConnectionsPerProto_def)
  have "conns (ls_store s) k' p' + pending_of ((k, p, n) # ls_pending s) k' p' \<le> N" for k' p'
  proof (cases "k' = k \<and> p' = p")
    case True
    then show ?thesis
      using c0 le_less_trans[OF length_filter_le admit.hyps(1)] by (simp add: pending_of_def Suc_le_eq)
  next
    case False
    then have "pending_of ((k, p, n) # ls_pending s) k' p' = pending_of (ls_pending s) k' p'"
      by (auto simp: pending_of_def)
    then show ?thesis using admit.prems by (simp add: limit_inv_def)
  qed
  with admit.hyps(1,2) admit.prems show ?case by (simp add: limit_inv_def del: IsValid_iff)
next
  case (give_up s xs i ys)
  have "pending_of (xs @ ys) k p \<le> pending_of (xs @ i # ys) k p" for k p by (simp add: pending_of_def)
  moreover have "conns (ls_store s) k p + pending_of (xs @ i # ys) k p \<le> N" for k p
    using give_up by (simp add: limit_inv_def)
  ultimately have "conns (ls_store s) k p + pending_of (xs @ ys) k p \<le> N" for k p
    by (meson add_left_mono le_trans)
  with give_up show ?case by (auto simp: limit_inv_def simp del: IsValid_iff)
next
  case (register s xs i ys src dst code connected now st')
  have inv: "store_inv (ls_store s)" and v: "IsValid (fst (snd i))"
    using register by (auto simp: limit_inv_def simp del: IsValid_iff)
  have m: "store_inv st'" "store_members st' = insert i (store_members (ls_store s))"
    using store.register_ok[OF inv v, of src dst code connected now] register.hyps(2) by auto
  have "conns st' k p + pending_of (xs @ ys) k p \<le> N" for k p
  proof -
    have "conns (ls_store s) k p + pending_of (xs @ i # ys) k p \<le> N"
      using register.hyps(1) register.prems by (simp add: limit_inv_def)
    moreover have "pending_of (xs @ i # ys) k p =
        pending_of (xs @ ys) k p + (if fst i = k \<and> fst (snd i) = p then 1 else 0)"
      by (simp add: pending_of_def)
    ultimately show ?thesis using conns_insert[OF inv m(2), of k p] by linarith
  qed
  with register m(1) show ?case by (auto simp: limit_inv_def simp del: IsValid_iff)
next
  case (unregister src dst code i now s st')
  have inv: "store_inv (ls_store s)" using unregister.prems by (simp add: limit_inv_def)
  have m: "store_inv st'" "store_members st' = store_members (ls_store s) - {i}"
    using store_unregister[OF inv, of "conn_of src dst code i" now] unregister.hyps(1)
    by (auto simp: conn_of_def)
  have "conns st' k p + pending_of (ls_pending s) k p \<le> N" for k p
  proof -
    have "conns (ls_store s) k p + pending_of (ls_pending s) k p \<le> N"
      using unregister.prems by (simp add: limit_inv_def)
    then show ?thesis using conns_delete[OF inv m(2), of k p] by linarith
  qed
  with unregister.prems m(1) show ?case by (simp add: limit_inv_def del: IsValid_iff)
next
  case (other op s e st')
  have inv: "store_inv (ls_store s)" using other.prems by (simp add: limit_inv_def)
  note m = neutral_members[OF inv other.hyps(1,2)]
  have "conns st' k p = conns (ls_store s) k p" for k p
    unfolding conns_members using m by simp
  with other.prems m show ?case by (simp add: limit_inv_def del: IsValid_iff)
qed

lemma limit_reach_inv: "limit_reach N s \<Longrightarrow> limit_inv N s"
proof (induction rule: limit_reach.induct)
  case start
  show ?case by (simp add: limit_inv_def store_inv_def pending_of_def conns_def registered_def)
qed (rule limit_step_inv)

text \<open>
  C10. How far the connection limit holds: if at most \<open>N\<close> starts are at once between their check
  and their registration, no feeder ever has more than \<open>N\<close> connections registered for a
  protocol; so the limit of one is kept when starts do not overlap, and only then.
\<close>
theorem overlapping_starts_bound:
  assumes "limit_reach N s"
  shows "\<exists>num. GetNumConnections k p (ls_store s) = (num, None) \<and> num \<le> int N"
proof -
  have inv: "limit_inv N s" by (rule limit_reach_inv[OF assms])
  then have "conns (ls_store s) k p + pending_of (ls_pending s) k p \<le> N" "store_inv (ls_store s)"
    by (simp_all add: limit_inv_def)
  with conns_number[of "ls_store s" k p] show ?thesis by simp
qed

text \<open>Two clients of one feeder pass the check before either registers.\<close>

definition two_registered :: limit_sys where
  "two_registered =
     (case RegisterConnection (conn_of ''a'' ''b'' ''c'' (7, BEAST, 1)) 1 1 started of
        Ret (None, s1) \<Rightarrow>
          (case RegisterConnection (conn_of ''a'' ''b'' ''c'' (7, BEAST, 2)) 2 2 s1 of
             Ret (None, s2) \<Rightarrow> \<lparr>ls_store = s2, ls_pending = []\<rparr>
           | _ \<Rightarrow> \<lparr>ls_store = started, ls_pending = []\<rparr>)
      | _ \<Rightarrow> \<lparr>ls_store = started, ls_pending = []\<rparr>)"

lemma two_registered_reachable:
  "limit_reach 2 two_registered \<and> GetNumConnections 7 BEAST (ls_store two_registered) = (2, None)"
proof -
  have inv: "store_inv started" by (simp add: store_inv_def)
  have v: "IsValid (fst (snd (7 :: uuid, BEAST, n :: u64)))" for n by simp
  obtain s1 where s1: "RegisterConnection (conn_of ''a'' ''b'' ''c'' (7, BEAST, 1)) 1 1 started = Ret (None, s1)"
      "store_inv s1"
    using store.register_ok[OF inv v, of "''a''" "''b''" "''c''" 1 1 1] by blast
  obtain s2 where s2: "RegisterConnection (conn_of ''a'' ''b'' ''c'' (7, BEAST, 2)) 2 2 s1 = Ret (None, s2)"
    using store.register_ok[OF s1(2) v, of "''a''" "''b''" "''c''" 2 2 2] by blast
  have two: "two_registered = \<lparr>ls_store = s2, ls_pending = []\<rparr>"
    by (simp add: two_registered_def s1(1) s2)
  have g: "GetNumConnections 7 BEAST started = (0, None)"
    by (simp add: GetNumConnections_def started_def stats_init_def get_feeder_def)
  let ?s0 = "\<lparr>ls_store = started, ls_pending = []\<rparr>"
  let ?s1 = "\<lparr>ls_store = started, ls_pending = [(7, BEAST, 1)]\<rparr>"
  let ?s2 = "\<lparr>ls_store = started, ls_pending = [(7, BEAST, 2), (7, BEAST, 1)]\<rparr>"
  let ?s3 = "\<lparr>ls_store = s1, ls_pending = [(7, BEAST, 2)]\<rparr>"
  have "limit_step 2 ?s0 ?s1"
    using limit_step.admit[of ?s0 2 BEAST 7 0 1] g by (simp add: maxConnectionsPerProto_def)
  moreover have "limit_step 2 ?s1 ?s2"
    using limit_step.admit[of ?s1 2 BEAST 7 0 2] g by (simp add: maxConnectionsPerProto_def)
  moreover have "limit_step 2 ?s2 ?s3"
    using limit_step.register[of ?s2 "[(7, BEAST, 2)]" "(7, BEAST, 1)" "[]"] s1(1) by simp
  moreover have "limit_step 2 ?s3 two_registered"
    using limit_step.register[of ?s3 "[]" "(7, BEAST, 2)" "[]"] s2 by (simp add: two)
  ultimately have "limit_reach 2 two_registered"
    using limit_reach.intros by metis
  moreover have "GetNumConnections 7 BEAST (ls_store two_registered) = (2, None)" by code_simp
  ultimately show ?thesis by blast
qed

theorem overlapping_starts_bound_witness:
  "limit_reach 2 two_registered \<and> GetNumConnections 7 BEAST (ls_store two_registered) = (2, None) \<and>
   int maxConnectionsPerProto < 2 \<and>
   (\<exists>num. GetNumConnections 7 BEAST (ls_store two_registered) = (num, None) \<and> num \<le> int 2)"
  using two_registered_reachable overlapping_starts_bound[of 2 two_registered 7 BEAST]
  by (simp add: maxConnectionsPerProto_def)

end
