(* ===== verification/Stunnel.thy ===== *)
theory Stunnel
  imports NatsIO
begin

text \<open>
  The TLS termination, \<open>lib/stunnel/stunnel.go\<close>: loading and reloading the certificate, and the
  lifecycle of the server. The parameter \<open>load\<close> is \<open>tls.LoadX509KeyPair\<close> at the time of the
  call; a certificate is a value of a type of its own. The reload goroutine and the signal
  channel are steps.
\<close>

definition NatsSubjReloadCertKey :: string where
  "NatsSubjReloadCertKey = ''pw_bordercontrol.stunnel.reloadcertkey''"

record 'c keypairReloader =
  kpr_cert :: 'c
  kpr_certPath :: string
  kpr_keyPath :: string

text \<open>
  The server: its reloader, the signal channel (how many signals it holds, at most one; whether
  it is closed), the context and the reload goroutine.
\<close>

record 'c stunnel_server =
  sv_kpr :: "'c keypairReloader"
  sv_pending :: bool
  sv_chan_closed :: bool
  sv_cancelled :: bool
  sv_goroutine :: bool

type_synonym 'c load = "string \<Rightarrow> string \<Rightarrow> go_err + 'c"

definition newKeypairReloader :: "'c load \<Rightarrow> string \<Rightarrow> string \<Rightarrow> go_err + 'c keypairReloader" where
  "newKeypairReloader load certPath keyPath =
     (case load certPath keyPath of
        Inl e \<Rightarrow> Inl e
      | Inr cert \<Rightarrow> Inr \<lparr>kpr_cert = cert, kpr_certPath = certPath, kpr_keyPath = keyPath\<rparr>)"

definition NewServerWithContext :: "'c load \<Rightarrow> string \<Rightarrow> string \<Rightarrow> go_err + 'c stunnel_server" where
  "NewServerWithContext load certFile keyFile =
     (case newKeypairReloader load certFile keyFile of
        Inl e \<Rightarrow> Inl e
      | Inr kpr \<Rightarrow> Inr \<lparr>sv_kpr = kpr, sv_pending = False, sv_chan_closed = False, sv_cancelled = False,
                        sv_goroutine = True\<rparr>)"

definition maybeReload :: "'c load \<Rightarrow> 'c keypairReloader \<Rightarrow> error \<times> 'c keypairReloader" where
  "maybeReload load kpr =
     (case load (kpr_certPath kpr) (kpr_keyPath kpr) of
        Inl e \<Rightarrow> (Some e, kpr)
      | Inr newCert \<Rightarrow> (None, kpr\<lparr>kpr_cert := newCert\<rparr>))"

text \<open>The function \<open>getCertificateFunc\<close> gives to the TLS configuration.\<close>

definition getCertificate :: "'c keypairReloader \<Rightarrow> 'c" where
  "getCertificate kpr = kpr_cert kpr"

text \<open>\<open>Close\<close>: the channel first, then the context, then wait for the goroutine.\<close>

definition stunnel_Close :: "'c stunnel_server \<Rightarrow> (error \<times> 'c stunnel_server) go" where
  "stunnel_Close s =
     (if sv_chan_closed s then Panic ''close of closed channel''
      else Ret (None, s\<lparr>sv_chan_closed := True, sv_cancelled := True, sv_goroutine := False\<rparr>))"

definition ReloadCertOnNatsMsg :: "(string \<Rightarrow> error) \<Rightarrow> string \<Rightarrow> nats_state \<Rightarrow> error \<times> nats_state" where
  "ReloadCertOnNatsMsg subscribe natsSubject st = SignalSendOnSubj subscribe natsSubject st"

section \<open>The reload goroutine\<close>

text \<open>
  A signal of the operating system is put into the channel without blocking; on a closed
  channel the runtime panics. The handler of the NATS subject sends, and blocks while the
  channel is full (no step). The goroutine takes a signal and reloads with what \<open>load\<close> answers
  then.
\<close>

datatype 'c stunnel_event = Signal | NatsReload nats_msg | TakeSignal "'c load" | Handshake

fun stunnel_step ::
    "(string \<Rightarrow> string \<Rightarrow> bool \<times> error) \<Rightarrow> nats_state \<Rightarrow> 'c stunnel_event \<Rightarrow> 'c stunnel_server \<Rightarrow> 'c stunnel_server go" where
  "stunnel_step mt nt Signal s =
     (if sv_chan_closed s then Panic ''send on closed channel'' else Ret (s\<lparr>sv_pending := True\<rparr>))"
| "stunnel_step mt nt (NatsReload msg) s =
     (if \<not> signal_handler mt msg nt then Ret s
      else if sv_chan_closed s then Panic ''send on closed channel''
      else Ret (s\<lparr>sv_pending := True\<rparr>))"
| "stunnel_step mt nt (TakeSignal load) s =
     (if sv_goroutine s \<and> sv_pending s
      then Ret (s\<lparr>sv_pending := False, sv_kpr := snd (maybeReload load (sv_kpr s))\<rparr>)
      else Ret s)"
| "stunnel_step mt nt Handshake s = Ret s"

fun stunnel_run ::
    "(string \<Rightarrow> string \<Rightarrow> bool \<times> error) \<Rightarrow> nats_state \<Rightarrow> 'c stunnel_event list \<Rightarrow> 'c stunnel_server \<Rightarrow> 'c stunnel_server go" where
  "stunnel_run mt nt [] s = Ret s"
| "stunnel_run mt nt (e # es) s = go_bind (stunnel_step mt nt e s) (stunnel_run mt nt es)"

text \<open>The certificate by history: that of the last reload that was taken up and succeeded.\<close>

fun cert_history ::
    "(string \<Rightarrow> string \<Rightarrow> bool \<times> error) \<Rightarrow> nats_state \<Rightarrow> string \<Rightarrow> string \<Rightarrow> 'c stunnel_event list \<Rightarrow> bool \<Rightarrow> 'c \<Rightarrow> 'c" where
  "cert_history mt nt cp kp [] pending c = c"
| "cert_history mt nt cp kp (Signal # es) pending c = cert_history mt nt cp kp es True c"
| "cert_history mt nt cp kp (NatsReload msg # es) pending c =
     cert_history mt nt cp kp es (pending \<or> signal_handler mt msg nt) c"
| "cert_history mt nt cp kp (TakeSignal load # es) pending c =
     (if pending then
        cert_history mt nt cp kp es False (case load cp kp of Inr c' \<Rightarrow> c' | Inl _ \<Rightarrow> c)
      else cert_history mt nt cp kp es False c)"
| "cert_history mt nt cp kp (Handshake # es) pending c = cert_history mt nt cp kp es pending c"

lemma stunnel_run_history:
  assumes "\<not> sv_chan_closed s" "sv_goroutine s"
  shows "\<exists>s'. stunnel_run mt nt es s = Ret s' \<and> \<not> sv_chan_closed s' \<and> sv_goroutine s' \<and>
     kpr_cert (sv_kpr s') =
       cert_history mt nt (kpr_certPath (sv_kpr s)) (kpr_keyPath (sv_kpr s)) es (sv_pending s) (kpr_cert (sv_kpr s))"
  using assms
proof (induction es arbitrary: s)
  case (Cons e es)
  show ?case
  proof (cases e)
    case Signal
    then show ?thesis using Cons.IH[of "s\<lparr>sv_pending := True\<rparr>"] Cons.prems by simp
  next
    case (NatsReload msg)
    then show ?thesis
      using Cons.IH[of "s\<lparr>sv_pending := True\<rparr>"] Cons.IH[of s] Cons.prems
      by (cases "signal_handler mt msg nt"; cases "sv_pending s") simp_all
  next
    case (TakeSignal load)
    show ?thesis
    proof (cases "sv_pending s")
      case True
      let ?s = "s\<lparr>sv_pending := False, sv_kpr := snd (maybeReload load (sv_kpr s))\<rparr>"
      have "kpr_certPath (sv_kpr ?s) = kpr_certPath (sv_kpr s)" "kpr_keyPath (sv_kpr ?s) = kpr_keyPath (sv_kpr s)"
        "kpr_cert (sv_kpr ?s) = (case load (kpr_certPath (sv_kpr s)) (kpr_keyPath (sv_kpr s)) of
           Inr c' \<Rightarrow> c' | Inl _ \<Rightarrow> kpr_cert (sv_kpr s))"
        by (simp_all add: maybeReload_def split: sum.split)
      with Cons.IH[of ?s] Cons.prems True show ?thesis by (simp add: TakeSignal)
    next
      case False
      then show ?thesis using Cons.IH[of s] Cons.prems by (simp add: TakeSignal)
    qed
  qed (use Cons in simp)
qed simp

text \<open>
  C31. The certificate that is served: from a server that started, and as long as it is not
  closed, after any sequence of signals, NATS messages, reloads and handshakes the server is
  up and serves the certificate of the last reload that was asked for and succeeded, or the
  one it started with; a reload that fails keeps the certificate in use.
\<close>
theorem served_certificate:
  assumes "NewServerWithContext load certFile keyFile = Inr s"
  shows "\<exists>c s'. load certFile keyFile = Inr c \<and> stunnel_run mt nt es s = Ret s' \<and> sv_goroutine s' \<and>
     getCertificate (sv_kpr s') = cert_history mt nt certFile keyFile es False c"
proof -
  obtain c where c: "load certFile keyFile = Inr c"
      "s = \<lparr>sv_kpr = \<lparr>kpr_cert = c, kpr_certPath = certFile, kpr_keyPath = keyFile\<rparr>, sv_pending = False,
            sv_chan_closed = False, sv_cancelled = False, sv_goroutine = True\<rparr>"
    using assms by (auto simp: NewServerWithContext_def newKeypairReloader_def split: sum.splits)
  then show ?thesis using stunnel_run_history[of s mt nt es] by (auto simp: getCertificate_def)
qed

definition server0 :: "nat stunnel_server" where
  "server0 = \<lparr>sv_kpr = \<lparr>kpr_cert = 1, kpr_certPath = ''c'', kpr_keyPath = ''k''\<rparr>, sv_pending = False,
     sv_chan_closed = False, sv_cancelled = False, sv_goroutine = True\<rparr>"

theorem served_certificate_witness:
  "\<exists>c s'. (\<lambda>c k. Inr (1 :: nat)) ''c'' ''k'' = (Inr c :: go_err + nat) \<and>
     stunnel_run (\<lambda>_ _. (False, None)) nats_start
       [Signal, TakeSignal (\<lambda>c k. Inr 2), Signal, TakeSignal (\<lambda>c k. Inl ErrSyntax)] server0 = Ret s' \<and>
     sv_goroutine s' \<and>
     getCertificate (sv_kpr s') = cert_history (\<lambda>_ _. (False, None)) nats_start ''c'' ''k''
       [Signal, TakeSignal (\<lambda>c k. Inr 2), Signal, TakeSignal (\<lambda>c k. Inl ErrSyntax)] False c"
  by (rule served_certificate) (simp add: NewServerWithContext_def newKeypairReloader_def server0_def)

text \<open>
  A closed server must not be signalled: after \<open>Close\<close> the reload signal of the operating
  system, which stays registered for the channel, panics, and so does a NATS message for this
  instance; and a second \<open>Close\<close> panics.
\<close>
theorem signal_after_close_panics:
  assumes "stunnel_Close s = Ret (err, s')"
  shows "\<not> returns (stunnel_step mt nt Signal s') \<and>
     (\<not> returns (stunnel_step mt nt (NatsReload msg) s') \<longleftrightarrow> signal_handler mt msg nt) \<and>
     \<not> returns (stunnel_Close s')"
  using assms by (auto simp: stunnel_Close_def split: if_splits)

theorem signal_after_close_panics_witness:
  "\<exists>s'. stunnel_Close server0 = Ret (None, s') \<and>
     \<not> returns (stunnel_step (\<lambda>_ _. (False, None)) nats_start Signal s') \<and> \<not> returns (stunnel_Close s')"
proof -
  have "stunnel_Close server0 = Ret (None, server0\<lparr>sv_chan_closed := True, sv_cancelled := True, sv_goroutine := False\<rparr>)"
    by (simp add: stunnel_Close_def server0_def)
  from signal_after_close_panics[OF this] this show ?thesis by blast
qed

end
