(* ===== verification/Listener.thy ===== *)
theory Listener
  imports ProxyStart Stunnel
begin

text \<open>
  The listeners, \<open>lib/listener/listener.go\<close>: the configuration from a listen address, the accept
  loop with the hand-over of every connection to the proxy, and \<open>listenWithContext\<close> of
  \<open>cmd/bordercontrol/main.go\<close>, which keeps a listener running.

  The accept loop sees a list of the results of \<open>Accept\<close>. A connection is the text of its
  remote address. Between two results the proxied connections and the evictor use the tracker
  too: each accepted connection comes with what the tracker becomes until its number is drawn.
  A whole \<open>Run\<close> sees events: what the network gives to \<open>Accept\<close>, the closing of the context, the
  goroutine that waits for it and then closes the listener, and the end of a proxied
  connection, for all of which \<open>Run\<close> waits before it returns.
\<close>

section \<open>The configuration\<close>

record listener =
  Protocol :: protocol
  ListenAddr :: tcp_addr
  ls_FeedInContainerPrefix :: string
  ls_InnerConnectionPort :: int

text \<open>\<open>&listener{}\<close>\<close>

definition zero_listener :: listener where
  "zero_listener = \<lparr>Protocol = 0, ListenAddr = \<lparr>ta_IP = nil_ip, ta_Port = 0\<rparr>,
     ls_FeedInContainerPrefix = [], ls_InnerConnectionPort = 0\<rparr>"

text \<open>The second part of the split is read by its index.\<close>

definition NewListener :: "string \<Rightarrow> protocol \<Rightarrow> string \<Rightarrow> int \<Rightarrow> (listener \<times> error) go" where
  "NewListener listenAddr proto feedInContainerPrefix innerConnectionPort =
     (let ip = host_ip listenAddr;
          ip = (if ip = nil_ip then IPv4 0 0 0 0 else ip)
      in case go_split (CHR '':'') listenAddr of
           _ # p # _ \<Rightarrow>
             (case go_atoi p of
                Inl e \<Rightarrow> Ret (zero_listener, Some e)
              | Inr port \<Rightarrow>
                  Ret (\<lparr>Protocol = proto, ListenAddr = \<lparr>ta_IP = ip, ta_Port = port\<rparr>,
                        ls_FeedInContainerPrefix = feedInContainerPrefix,
                        ls_InnerConnectionPort = innerConnectionPort\<rparr>, None))
         | _ \<Rightarrow> Panic ''index out of range'')"

text \<open>\<open>IP.String\<close> on an IPv4 address, the only kind \<open>NewListener\<close> makes (\<open>NewListener_v4\<close>).\<close>

definition v4_string :: "u8 list \<Rightarrow> string" where
  "v4_string octets = go_join (CHR ''.'') (map (itoa_nat \<circ> unat) octets)"

definition listen_text :: "listener \<Rightarrow> string" where
  "listen_text l =
     (case to4 (ta_IP (ListenAddr l)) of
        Some octets \<Rightarrow> v4_string octets @ '':'' @ go_itoa (ta_Port (ListenAddr l))
      | None \<Rightarrow> ''<nil>:'' @ go_itoa (ta_Port (ListenAddr l)))"

section \<open>The accept loop\<close>

datatype accept_result =
    Accepted string "incomingConnectionTracker \<Rightarrow> incomingConnectionTracker"
  | AcceptError go_err

text \<open>
  What the loop did: the connections it handed over to \<open>Start\<close>, in order, and those it accepted
  and then neither proxied nor closed.
\<close>

record listen_state =
  lt_tracker :: incomingConnectionTracker
  lt_started :: "(string \<times> ProxyConnection) list"
  lt_dropped :: "string list"

definition proxy_config :: "listener \<Rightarrow> u64 \<Rightarrow> ProxyConnection" where
  "proxy_config l cnum =
     \<lparr>px_ConnectionProtocol = Protocol l, px_ConnectionNumber = cnum,
      px_InnerConnectionPort = ls_InnerConnectionPort l, px_FeedInContainerPrefix = ls_FeedInContainerPrefix l,
      px_FeederValidityCheckInterval = second * 60\<rparr>"

text \<open>
  The loop over the results so far; the flag says that it has ended. \<open>None\<close>: drawing a connection
  number does not return, which needs all of them to be in use. \<open>up\<close> is whether the proxy
  package is initialised.
\<close>

fun accept_loop ::
    "bool \<Rightarrow> listener \<Rightarrow> accept_result list \<Rightarrow> listen_state \<Rightarrow> (bool \<times> listen_state) option" where
  "accept_loop up l [] s = Some (False, s)"
| "accept_loop up l (AcceptError err # rs) s =
     (if err = ErrNetClosed then Some (True, s) else accept_loop up l rs s)"
| "accept_loop up l (Accepted conn mw # rs) s =
     (case GetConnectionNumber up (mw (lt_tracker s)) of
        None \<Rightarrow> None
      | Some ((_, Some err), t) \<Rightarrow>
          accept_loop up l rs (s\<lparr>lt_tracker := t, lt_dropped := lt_dropped s @ [conn]\<rparr>)
      | Some ((cnum, None), t) \<Rightarrow>
          accept_loop up l rs (s\<lparr>lt_tracker := t, lt_started := lt_started s @ [(conn, proxy_config l cnum)]\<rparr>))"

text \<open>
  What happens to a listener that runs: an answer of the network to \<open>Accept\<close>, the closing of the
  context, a turn of the goroutine that waits for it, the return of the \<open>Start\<close> of one connection.
\<close>

datatype listen_event = Net accept_result | CtxClosed | CloserRuns | ConnEnded

text \<open>
  The results of \<open>Accept\<close>: once the context is closed the goroutine closes the listener when it
  runs, and by the contract of \<open>net.Listener\<close> the pending \<open>Accept\<close>, or the next one, returns
  \<open>net.ErrClosed\<close>. The flag says that the context is closed.
\<close>

fun accept_results :: "bool \<Rightarrow> listen_event list \<Rightarrow> accept_result list" where
  "accept_results done [] = []"
| "accept_results done (Net r # es) = r # accept_results done es"
| "accept_results done (CtxClosed # es) = accept_results True es"
| "accept_results done (CloserRuns # es) = (if done then [AcceptError ErrNetClosed] else accept_results done es)"
| "accept_results done (ConnEnded # es) = accept_results done es"

definition ended_conns :: "listen_event list \<Rightarrow> nat" where
  "ended_conns es = length (filter (\<lambda>e. e = ConnEnded) es)"

text \<open>
  \<open>Run\<close>; \<open>listen\<close> is what \<open>tls.Listen\<close> answers for an address. The flag says that it has returned:
  the accept loop has ended and the wait group of the connections it started is empty.
\<close>

definition listener_Run ::
    "(string \<Rightarrow> error) \<Rightarrow> bool \<Rightarrow> listener \<Rightarrow> listen_event list \<Rightarrow> listen_state \<Rightarrow>
     ((bool \<times> error) \<times> listen_state) option" where
  "listener_Run listen up l es s =
     (case GetName (Protocol l) of
        Inl e \<Rightarrow> Some ((True, Some e), s)
      | Inr protoName \<Rightarrow>
          (case listen (listen_text l) of
             Some e \<Rightarrow> Some ((True, Some e), s)
           | None \<Rightarrow> (case accept_loop up l (accept_results False es) s of
                        None \<Rightarrow> None
                      | Some (ended, s') \<Rightarrow>
                          let wg = length (lt_started s') - length (lt_started s)
                          in Some ((ended \<and> wg \<le> ended_conns es, None), s'))))"

section \<open>Keeping a listener running\<close>

text \<open>One turn of the loop: its answers, and what happens until the next one.\<close>

record listen_round =
  lr_listen :: "string \<Rightarrow> error"
  lr_up :: bool
  lr_events :: "listen_event list"

definition lr_cancelled :: "listen_round \<Rightarrow> bool" where
  "lr_cancelled r = (CtxClosed \<in> set (lr_events r))"

text \<open>The flag says that the function has returned.\<close>

fun listenWithContext ::
    "string \<Rightarrow> protocol \<Rightarrow> string \<Rightarrow> int \<Rightarrow> listen_round list \<Rightarrow> listen_state \<Rightarrow> (bool \<times> listen_state) option go" where
  "listenWithContext listenAddr proto pre inner [] s = Ret (Some (False, s))"
| "listenWithContext listenAddr proto pre inner (r # rs) s =
     go_bind (NewListener listenAddr proto pre inner) (\<lambda>(l, err).
       case listener_Run (lr_listen r) (lr_up r) l (lr_events r) s of
         None \<Rightarrow> Ret None
       | Some ((ended, err), s1) \<Rightarrow>
           if \<not> ended then Ret (Some (False, s1))
           else if lr_cancelled r then Ret (Some (True, s1))
           else listenWithContext listenAddr proto pre inner rs s1)"

section \<open>Listen addresses\<close>

lemma parse_ip_v4: "parse_ip_no_colon w = nil_ip \<or> (\<exists>a b c d. parse_ip_no_colon w = IPv4 a b c d)"
  unfolding parse_ip_no_colon_def by (auto split: list.split option.split)

lemma to4_IPv4 [simp]: "to4 (IPv4 a b c d) = Some [a, b, c, d]" "IPv4 a b c d \<noteq> nil_ip"
  by (simp_all add: IPv4_def to4_def)

lemma NewListener_v4:
  "NewListener a p f i = Ret (l, None) \<Longrightarrow> \<exists>b. length b = 4 \<and> to4 (ta_IP (ListenAddr l)) = Some b"
  using parse_ip_v4[of "hd (go_split (CHR '':'') a)"]
  by (fastforce simp: NewListener_def host_ip_def Let_def split: list.splits sum.splits if_splits)

lemma itoa_nat_chars: "c \<in> set (itoa_nat n) \<Longrightarrow> is_digit c"
  using itoa_nat_digits[of n] by (simp add: list_all_iff)

lemma itoa_nat_no_sep: "CHR ''.'' \<notin> set (itoa_nat n)" "CHR '':'' \<notin> set (itoa_nat n)"
  using itoa_nat_chars[of "CHR ''.''" n] itoa_nat_chars[of "CHR '':''" n] by (auto simp: is_digit_def)

lemma parse_octet_unat: "parse_octet (itoa_nat (unat (w :: u8))) = Some w"
  using parse_octet_itoa[of "unat w"] unsigned_less[of w] by simp

lemma v4_string_parse:
  "parse_ip_no_colon (v4_string [a, b, c, d]) = IPv4 a b c d"
  by (simp add: parse_ip_no_colon_def v4_string_def go_split_append go_split_single itoa_nat_no_sep
      parse_octet_unat)

lemma v4_string_no_colon: "CHR '':'' \<notin> set (v4_string [a, b, c, d])"
  by (simp add: v4_string_def itoa_nat_no_sep)

lemma go_itoa_no_colon: "CHR '':'' \<notin> set (go_itoa n)"
  by (simp add: go_itoa_def itoa_nat_no_sep)

lemma parse_empty: "parse_ip_no_colon [] = nil_ip"
  by (simp add: parse_ip_no_colon_def parse_octet_def)

lemma NewListener_split:
  assumes "CHR '':'' \<notin> set h"
  shows "NewListener (h @ '':'' @ go_itoa port) p f i =
    (if - (2 ^ 63) \<le> port \<and> port < 2 ^ 63 then
       Ret (\<lparr>Protocol = p, ListenAddr = \<lparr>ta_IP = (if parse_ip_no_colon h = nil_ip then IPv4 0 0 0 0 else parse_ip_no_colon h),
             ta_Port = port\<rparr>, ls_FeedInContainerPrefix = f, ls_InnerConnectionPort = i\<rparr>, None)
     else NewListener (h @ '':'' @ go_itoa port) p f i)"
  using assms colon_host_cut[OF assms, of "go_itoa port"]
  by (simp add: NewListener_def go_split_append go_split_single[OF go_itoa_no_colon] go_atoi_itoa)

text \<open>
  Listen addresses: the text of an IPv4 address and a port, as the command line takes it,
  gives a listener that listens on that very text; without a host it listens on the port of
  every address.
\<close>
theorem listen_address_roundtrip:
  assumes "- (2 ^ 63) \<le> port" "port < 2 ^ 63"
  shows "(\<exists>l. NewListener (v4_string [a, b, c, d] @ '':'' @ go_itoa port) p f i = Ret (l, None) \<and>
       listen_text l = v4_string [a, b, c, d] @ '':'' @ go_itoa port \<and> Protocol l = p) \<and>
     (\<exists>l. NewListener ('':'' @ go_itoa port) p f i = Ret (l, None) \<and>
       listen_text l = ''0.0.0.0:'' @ go_itoa port \<and> Protocol l = p)"
proof
  note n = NewListener_split[OF v4_string_no_colon, of a b c d port p f i]
  show "\<exists>l. NewListener (v4_string [a, b, c, d] @ '':'' @ go_itoa port) p f i = Ret (l, None) \<and>
       listen_text l = v4_string [a, b, c, d] @ '':'' @ go_itoa port \<and> Protocol l = p"
    using assms n by (simp add: v4_string_parse listen_text_def)
  have "v4_string [0, 0, 0, 0] = ''0.0.0.0''" by code_simp
  then show "\<exists>l. NewListener ('':'' @ go_itoa port) p f i = Ret (l, None) \<and>
       listen_text l = ''0.0.0.0:'' @ go_itoa port \<and> Protocol l = p"
    using assms NewListener_split[of "[]" port p f i] by (simp add: parse_empty listen_text_def)
qed

theorem listen_address_roundtrip_witness:
  "(\<exists>l. NewListener (v4_string [10, 0, 0, 1] @ '':'' @ go_itoa 12345) BEAST ''feed-in-'' 12345 = Ret (l, None) \<and>
       listen_text l = v4_string [10, 0, 0, 1] @ '':'' @ go_itoa 12345 \<and> Protocol l = BEAST) \<and>
   (\<exists>l. NewListener ('':'' @ go_itoa 12345) BEAST ''feed-in-'' 12345 = Ret (l, None) \<and>
       listen_text l = ''0.0.0.0:'' @ go_itoa 12345 \<and> Protocol l = BEAST)"
  by (rule listen_address_roundtrip) simp_all

section \<open>A listen address without a port\<close>

lemma zero_listener_Run: "\<exists>e. listener_Run li up zero_listener rs s = Some ((True, Some e), s)"
  by (simp add: listener_Run_def zero_listener_def GetName_def BEAST_def MLAT_def)

text \<open>
  A listen address whose port is not a number: no connection is ever accepted. Every turn
  of the loop fails at once, because the listener \<open>NewListener\<close> returns beside the error has no
  protocol, and the loop goes on every second until the context is closed; the error
  never reaches \<open>runServer\<close>. An address without a colon stops the process at once.
\<close>
theorem bad_port_never_listens:
  assumes "NewListener a p f i = Ret (l, Some e)"
  shows "listenWithContext a p f i rs s = Ret (Some (list_ex lr_cancelled rs, s)) \<and>
     listenWithContext (filter (\<lambda>c. c \<noteq> CHR '':'') a) p f i (r # rs) s = Panic ''index out of range''"
proof
  have l: "l = zero_listener"
    using assms by (auto simp: NewListener_def Let_def split: list.splits sum.splits)
  show "listenWithContext a p f i rs s = Ret (Some (list_ex lr_cancelled rs, s))"
  proof (induction rs)
    case (Cons r rs)
    from zero_listener_Run obtain e' where "listener_Run (lr_listen r) (lr_up r) l (lr_events r) s = Some ((True, Some e'), s)"
      unfolding l by blast
    with Cons show ?case by (simp add: assms)
  qed simp
  have "CHR '':'' \<notin> set (filter (\<lambda>c. c \<noteq> CHR '':'') a)" by simp
  from go_split_single[OF this]
  show "listenWithContext (filter (\<lambda>c. c \<noteq> CHR '':'') a) p f i (r # rs) s = Panic ''index out of range''"
    by (simp add: NewListener_def Let_def)
qed

definition quiet_listen :: listen_round where
  "quiet_listen = \<lparr>lr_listen = (\<lambda>_. None), lr_up = True,
     lr_events = [Net (Accepted ''10.0.0.9:40000'' (\<lambda>t. t))]\<rparr>"

theorem bad_port_never_listens_witness:
  "listenWithContext '':http'' MLAT ''feed-in-'' 12346 [quiet_listen, quiet_listen]
       \<lparr>lt_tracker = new_tracker, lt_started = [], lt_dropped = []\<rparr> =
     Ret (Some (False, \<lparr>lt_tracker = new_tracker, lt_started = [], lt_dropped = []\<rparr>))"
proof -
  have "NewListener '':http'' MLAT ''feed-in-'' 12346 = Ret (zero_listener, Some ErrSyntax)"
    by code_simp
  from bad_port_never_listens[OF this, of "[quiet_listen, quiet_listen]"] show ?thesis
    by (simp add: quiet_listen_def lr_cancelled_def)
qed

section \<open>The accept loop hands over every connection\<close>

lemma getNum_Some:
  "getNum t = Some (n, t') \<Longrightarrow> n \<noteq> 0 \<and> \<not> in_use (connections t) n \<and> t' = t\<lparr>connectionNumber := n\<rparr>"
  by (auto simp: getNum_def dest: getNum_loop_fresh split: option.splits)

lemma getNum_few: "length (connections t) < 2 ^ 64 - 1 \<Longrightarrow> \<exists>n t'. getNum t = Some (n, t')"
proof -
  assume "length (connections t) < 2 ^ 64 - 1"
  then obtain u where "u \<noteq> 0" "\<not> in_use (connections t) u" using fewer_conns_unused by blast
  from getNum_loop_returns[OF this, of "connectionNumber t"] show ?thesis by (auto simp: getNum_def)
qed

text \<open>The connections accepted before the listener is closed.\<close>

fun accepted_conns :: "accept_result list \<Rightarrow> string list" where
  "accepted_conns [] = []"
| "accepted_conns (AcceptError e # rs) = (if e = ErrNetClosed then [] else accepted_conns rs)"
| "accepted_conns (Accepted conn mw # rs) = conn # accepted_conns rs"

lemma accept_loop_idle:
  "accept_loop up l rs s = Some (ended, s') \<Longrightarrow> accepted_conns rs = [] \<Longrightarrow> s' = s"
  by (induction up l rs s rule: accept_loop.induct) (auto split: if_splits)

lemma accept_loop_conns:
  "accept_loop up l rs s = Some (ended, s') \<Longrightarrow>
     (ended \<longleftrightarrow> AcceptError ErrNetClosed \<in> set rs) \<and>
     (if up then lt_dropped s' = lt_dropped s \<and>
        (\<exists>ns. lt_started s' = lt_started s @ map (\<lambda>(c, n). (c, proxy_config l n)) (zip (accepted_conns rs) ns) \<and>
              length ns = length (accepted_conns rs) \<and> 0 \<notin> set ns \<and>
              (ns \<noteq> [] \<longrightarrow> connectionNumber (lt_tracker s') = last ns))
      else lt_started s' = lt_started s \<and> lt_dropped s' = lt_dropped s @ accepted_conns rs)"
proof (induction rs arbitrary: s)
  case (Cons r rs)
  show ?case
  proof (cases r)
    case (AcceptError err)
    with Cons show ?thesis by (cases "err = ErrNetClosed") auto
  next
    case (Accepted conn mw)
    show ?thesis
    proof (cases up)
      case False
      with Cons.prems Cons.IH[of "s\<lparr>lt_tracker := mw (lt_tracker s), lt_dropped := lt_dropped s @ [conn]\<rparr>"] Accepted
      show ?thesis by (simp add: GetConnectionNumber_def)
    next
      case True
      then obtain n t where n: "getNum (mw (lt_tracker s)) = Some (n, t)"
        using Cons.prems Accepted by (cases "getNum (mw (lt_tracker s))") (auto simp: GetConnectionNumber_def)
      from Cons.IH[of "s\<lparr>lt_tracker := t, lt_started := lt_started s @ [(conn, proxy_config l n)]\<rparr>"]
        Cons.prems True Accepted n obtain ns where
        "ended \<longleftrightarrow> AcceptError ErrNetClosed \<in> set rs" "lt_dropped s' = lt_dropped s"
        "lt_started s' = lt_started s @ (conn, proxy_config l n) # map (\<lambda>(c, n). (c, proxy_config l n)) (zip (accepted_conns rs) ns)"
        "length ns = length (accepted_conns rs)" "0 \<notin> set ns" "ns \<noteq> [] \<longrightarrow> connectionNumber (lt_tracker s') = last ns"
        by (auto simp: GetConnectionNumber_def)
      moreover have "ns = [] \<Longrightarrow> connectionNumber (lt_tracker s') = n"
      proof -
        assume "ns = []"
        then have "accepted_conns rs = []" using \<open>length ns = length (accepted_conns rs)\<close> by simp
        moreover have "accept_loop up l rs (s\<lparr>lt_tracker := t, lt_started := lt_started s @ [(conn, proxy_config l n)]\<rparr>) = Some (ended, s')"
          using Cons.prems True Accepted n by (simp add: GetConnectionNumber_def)
        ultimately have "lt_tracker s' = t" using accept_loop_idle by fastforce
        then show ?thesis using getNum_Some[OF n] by simp
      qed
      ultimately show ?thesis using True Accepted getNum_Some[OF n] by (auto intro!: exI[of _ "n # ns"])
    qed
  qed
qed simp

text \<open>
  C22. No accepted connection is lost: while the proxy package is up, the accept loop hands
  every connection it accepts over to the proxy, in the order of the accepts and exactly once,
  with the listener's protocol, inner port and container prefix, a validity check every minute
  and a connection number that is not zero, the one that was drawn for it;
  the loop ends exactly when the listener is closed, and errors in between do not stop it. While
  the package is down, every accepted connection is dropped without being closed.
\<close>
theorem accept_loop_hands_over:
  assumes "accept_loop up l rs s = Some (ended, s')"
  shows "(ended \<longleftrightarrow> AcceptError ErrNetClosed \<in> set rs) \<and>
     (if up then lt_dropped s' = lt_dropped s \<and>
        (\<exists>ns. lt_started s' = lt_started s @
             map (\<lambda>(c, n). (c, \<lparr>px_ConnectionProtocol = Protocol l, px_ConnectionNumber = n,
                                 px_InnerConnectionPort = ls_InnerConnectionPort l,
                                 px_FeedInContainerPrefix = ls_FeedInContainerPrefix l,
                                 px_FeederValidityCheckInterval = 60000000000\<rparr>)) (zip (accepted_conns rs) ns) \<and>
           length ns = length (accepted_conns rs) \<and> 0 \<notin> set ns \<and>
           (ns \<noteq> [] \<longrightarrow> connectionNumber (lt_tracker s') = last ns))
      else lt_started s' = lt_started s \<and> lt_dropped s' = lt_dropped s @ accepted_conns rs)"
proof -
  have minute: "second * 60 = 60000000000" by (simp add: second_def)
  show ?thesis by (rule accept_loop_conns[OF assms, unfolded proxy_config_def minute])
qed

definition mlat_listener :: listener where
  "mlat_listener = \<lparr>Protocol = MLAT, ListenAddr = \<lparr>ta_IP = IPv4 0 0 0 0, ta_Port = 12346\<rparr>,
     ls_FeedInContainerPrefix = ''feed-in-'', ls_InnerConnectionPort = 12346\<rparr>"

definition listen0 :: listen_state where
  "listen0 = \<lparr>lt_tracker = new_tracker, lt_started = [], lt_dropped = []\<rparr>"

text \<open>A failed accept between two connections, then the close.\<close>

definition accepts0 :: "accept_result list" where
  "accepts0 = [Accepted ''10.0.0.9:40000'' (\<lambda>_. new_tracker), AcceptError ErrEOF,
     Accepted ''10.0.0.8:40000'' (\<lambda>_. new_tracker),
     AcceptError ErrNetClosed]"

text \<open>Whatever the tracker becomes, there is a connection number left for the next connection.\<close>

definition numbers_left :: "accept_result list \<Rightarrow> bool" where
  "numbers_left rs \<longleftrightarrow>
     (\<forall>conn mw t. Accepted conn mw \<in> set rs \<longrightarrow> length (connections (mw t)) < 2 ^ 64 - 1)"

lemma accept_loop_returns: "numbers_left rs \<Longrightarrow> \<exists>r. accept_loop up l rs s = Some r"
proof (induction rs arbitrary: s)
  case (Cons r rs)
  then have IH: "\<exists>r. accept_loop up l rs s = Some r" for s
    by (simp add: numbers_left_def)
  show ?case
  proof (cases r)
    case (AcceptError err)
    with IH[of s] show ?thesis by (cases "err = ErrNetClosed") (auto intro: exI[of _ True])
  next
    case (Accepted conn mw)
    then have "length (connections (mw (lt_tracker s))) < 2 ^ 64 - 1"
      using Cons.prems by (simp add: numbers_left_def)
    with getNum_few obtain n t where "getNum (mw (lt_tracker s)) = Some (n, t)" by blast
    with IH Accepted show ?thesis by (cases up) (simp_all add: GetConnectionNumber_def)
  qed
qed auto

text \<open>The connections the network gives to \<open>Accept\<close>.\<close>

definition offered :: "listen_event list \<Rightarrow> string list" where
  "offered es = concat (map (\<lambda>e. case e of Net (Accepted conn mw) \<Rightarrow> [conn] | _ \<Rightarrow> []) es)"

lemma offered_simps [simp]:
  "offered [] = []" "offered (Net (Accepted conn mw) # es) = conn # offered es"
  "offered (Net (AcceptError e) # es) = offered es" "offered (CtxClosed # es) = offered es"
  "offered (CloserRuns # es) = offered es" "offered (ConnEnded # es) = offered es"
  "offered (es @ es') = offered es @ offered es'"
  by (simp_all add: offered_def)

text \<open>The listener is closed by its goroutine only, and when that runs the next result is the end.\<close>

lemma accept_results_closed:
  "Net (AcceptError ErrNetClosed) \<notin> set es \<Longrightarrow>
   accepted_conns (accept_results True (es @ CloserRuns # es')) =
     offered (takeWhile (\<lambda>e. e \<noteq> CloserRuns) (es @ CloserRuns # es')) \<and>
   AcceptError ErrNetClosed \<in> set (accept_results True (es @ CloserRuns # es'))"
proof (induction es)
  case (Cons e es)
  then show ?case
  proof (cases e)
    case (Net r)
    with Cons show ?thesis by (cases r) auto
  qed auto
qed simp

lemma accept_results_open:
  "Net (AcceptError ErrNetClosed) \<notin> set es \<Longrightarrow> CtxClosed \<notin> set es \<Longrightarrow>
   accepted_conns (accept_results False (es @ CtxClosed # es')) = offered es @ accepted_conns (accept_results True es') \<and>
   set (accept_results True es') \<subseteq> set (accept_results False (es @ CtxClosed # es'))"
proof (induction es)
  case (Cons e es)
  then show ?case
  proof (cases e)
    case (Net r)
    with Cons show ?thesis by (cases r) auto
  qed auto
qed simp

text \<open>What \<open>numbers_left\<close> asks, for the answers of the network.\<close>

definition numbers_left_in :: "listen_event list \<Rightarrow> bool" where
  "numbers_left_in es \<longleftrightarrow>
     (\<forall>conn mw t. Net (Accepted conn mw) \<in> set es \<longrightarrow> length (connections (mw t)) < 2 ^ 64 - 1)"

lemma accept_results_net: "Accepted conn mw \<in> set (accept_results done es) \<Longrightarrow> Net (Accepted conn mw) \<in> set es"
  by (induction "done" es rule: accept_results.induct) (auto split: if_splits)

lemma numbers_left_results: "numbers_left_in es \<Longrightarrow> numbers_left (accept_results done es)"
  using accept_results_net unfolding numbers_left_in_def numbers_left_def by blast

text \<open>
  C24. The listener shuts down: take a listener whose address and protocol are valid and whose port
  could be opened, and any events in which the context is closed (\<open>CtxClosed\<close>) and after that the
  goroutine that waits for it runs (\<open>CloserRuns\<close>). Then the accept loop ends, having handed
  over every connection the network gave until the goroutine ran, and no other; and
  \<open>listenWithContext\<close> has returned exactly if all of these connections have ended, and
  otherwise it is waiting for them. The network's \<open>Accept\<close> itself reports \<open>net.ErrClosed\<close> for a
  closed listener only; the loop never hangs on a connection number while fewer than
  \<open>2^64 - 1\<close> connections are tracked.
\<close>
theorem listener_shuts_down:
  assumes "NewListener a p f i = Ret (l, None)" "IsValid p" "lr_listen r (listen_text l) = None" "lr_up r"
    and events: "lr_events r = es1 @ CtxClosed # es2 @ CloserRuns # es3" "CtxClosed \<notin> set es1" "CloserRuns \<notin> set es2"
    and net: "Net (AcceptError ErrNetClosed) \<notin> set (es1 @ es2)" and numbers: "numbers_left_in (lr_events r)"
  shows "\<exists>returned s'. listenWithContext a p f i (r # rs) s = Ret (Some (returned, s')) \<and>
     map fst (lt_started s') = map fst (lt_started s) @ offered (es1 @ es2) \<and>
     (returned \<longleftrightarrow> length (offered (es1 @ es2)) \<le> ended_conns (lr_events r))"
proof -
  let ?as = "accept_results False (lr_events r)"
  have "takeWhile (\<lambda>e. e \<noteq> CloserRuns) (es2 @ CloserRuns # es3) = es2"
    using events(3) by (subst takeWhile_append2) auto
  then have conns: "accepted_conns ?as = offered (es1 @ es2)" and closed: "AcceptError ErrNetClosed \<in> set ?as"
    using accept_results_open[of es1 "es2 @ CloserRuns # es3"] accept_results_closed[of es2 es3] net events(2)
    unfolding events(1) by auto
  obtain ended s' where loop: "accept_loop True l ?as s = Some (ended, s')"
    using accept_loop_returns[OF numbers_left_results[OF numbers], of True l False s] by auto
  note c = accept_loop_conns[OF loop]
  have "Protocol l = p"
    using assms(1) by (auto simp: NewListener_def Let_def split: list.splits sum.splits)
  with assms(2) obtain nm where "GetName (Protocol l) = Inr nm"
    by (auto simp: IsValid_def GetName_def)
  moreover obtain ns where "lt_started s' = lt_started s @ map (\<lambda>(c, n). (c, proxy_config l n)) (zip (accepted_conns ?as) ns)"
      "length ns = length (accepted_conns ?as)"
    using c by auto
  then have started: "map fst (lt_started s') = map fst (lt_started s) @ offered (es1 @ es2)"
    unfolding conns by (simp add: comp_def case_prod_unfold map_fst_zip)
  then have "length (lt_started s') = length (lt_started s) + length (offered (es1 @ es2))"
    using length_map[of fst "lt_started s'"] by (metis length_append length_map)
  ultimately have "listener_Run (lr_listen r) (lr_up r) l (lr_events r) s =
      Some ((length (offered (es1 @ es2)) \<le> ended_conns (lr_events r), None), s')"
    using loop c closed assms(3,4) by (simp add: listener_Run_def)
  moreover have "lr_cancelled r" by (simp add: lr_cancelled_def events(1))
  ultimately have "listenWithContext a p f i (r # rs) s = Ret (Some (length (offered (es1 @ es2)) \<le> ended_conns (lr_events r), s'))"
    using assms(1) by simp
  then show ?thesis using started by (intro exI conjI) simp_all
qed

theorem accept_loop_hands_over_witness:
  "\<exists>s'. accept_loop True mlat_listener accepts0 listen0 = Some (True, s') \<and> lt_dropped s' = [] \<and>
     map fst (lt_started s') = [''10.0.0.9:40000'', ''10.0.0.8:40000'']"
proof -
  have "numbers_left accepts0"
    by (simp add: numbers_left_def accepts0_def new_tracker_def)
  from accept_loop_returns[OF this] obtain ended s' where r: "accept_loop True mlat_listener accepts0 listen0 = Some (ended, s')"
    by (metis surj_pair)
  from accept_loop_hands_over[OF r] r show ?thesis
    by (auto simp: accepts0_def listen0_def comp_def case_prod_unfold map_fst_zip)
qed

text \<open>
  A connection is accepted, the context is closed, another connection comes in before the
  listener is closed. The first ends: the function still waits for the second.
\<close>

definition shut_events :: "listen_event list" where
  "shut_events = [Net (Accepted ''10.0.0.9:40000'' (\<lambda>t. new_tracker)), CtxClosed,
     Net (Accepted ''10.0.0.8:40000'' (\<lambda>t. new_tracker)), CloserRuns,
     Net (Accepted ''10.0.0.7:40000'' (\<lambda>t. new_tracker)), ConnEnded]"

theorem listener_shuts_down_witness:
  "\<forall>more. \<exists>s'. listenWithContext (v4_string [10, 0, 0, 1] @ '':'' @ go_itoa 12345) BEAST ''feed-in-'' 12345
       [quiet_listen\<lparr>lr_events := shut_events @ replicate more ConnEnded\<rparr>] listen0 = Ret (Some (1 \<le> more, s')) \<and>
     map fst (lt_started s') = [''10.0.0.9:40000'', ''10.0.0.8:40000'']"
proof
  fix more
  let ?l = "\<lparr>Protocol = BEAST, ListenAddr = \<lparr>ta_IP = IPv4 10 0 0 1, ta_Port = 12345\<rparr>,
    ls_FeedInContainerPrefix = ''feed-in-'', ls_InnerConnectionPort = 12345\<rparr>"
  let ?r = "quiet_listen\<lparr>lr_events := shut_events @ replicate more ConnEnded\<rparr>"
  let ?e1 = "[Net (Accepted ''10.0.0.9:40000'' (\<lambda>t. new_tracker))]"
  let ?e2 = "[Net (Accepted ''10.0.0.8:40000'' (\<lambda>t. new_tracker))]"
  let ?e3 = "[Net (Accepted ''10.0.0.7:40000'' (\<lambda>t. new_tracker)), ConnEnded] @ replicate more ConnEnded"
  have l: "NewListener (v4_string [10, 0, 0, 1] @ '':'' @ go_itoa 12345) BEAST ''feed-in-'' 12345 = Ret (?l, None)"
    using NewListener_split[OF v4_string_no_colon, of 10 0 0 1 12345] by (simp add: v4_string_parse)
  have v: "IsValid BEAST" by code_simp
  have "filter (\<lambda>e. e = ConnEnded) (replicate more ConnEnded) = replicate more ConnEnded" by simp
  then have n: "ended_conns (lr_events ?r) = Suc more" by (simp add: ended_conns_def shut_events_def)
  have "\<exists>returned s'. listenWithContext (v4_string [10, 0, 0, 1] @ '':'' @ go_itoa 12345) BEAST ''feed-in-'' 12345 [?r] listen0 =
        Ret (Some (returned, s')) \<and> map fst (lt_started s') = map fst (lt_started listen0) @ offered (?e1 @ ?e2) \<and>
      (returned \<longleftrightarrow> length (offered (?e1 @ ?e2)) \<le> ended_conns (lr_events ?r))"
    by (rule listener_shuts_down[OF l v, where ?es1.0 = ?e1 and ?es2.0 = ?e2 and ?es3.0 = ?e3])
       (auto simp: quiet_listen_def shut_events_def numbers_left_in_def new_tracker_def)
  then show "\<exists>s'. listenWithContext (v4_string [10, 0, 0, 1] @ '':'' @ go_itoa 12345) BEAST ''feed-in-'' 12345 [?r] listen0 =
        Ret (Some (1 \<le> more, s')) \<and> map fst (lt_started s') = [''10.0.0.9:40000'', ''10.0.0.8:40000'']"
    unfolding n by (auto simp: listen0_def)
qed

end
