(* ===== verification/ContainerStart.thy ===== *)
theory ContainerStart
  imports Containers
begin

text \<open>
  The start protocol of \<open>lib/containers\<close>: callers of \<open>FeedInContainer.Start\<close> (\<open>create.go\<close>) and
  the one worker goroutine of \<open>ContainerManager.Run\<close> (\<open>containers.go\<close>) meet on two unbuffered
  channels, one for requests and one for responses, with a timeout on each side of the caller
  and none on the worker's, and \<open>Stop\<close> cancels the context, waits for the worker and closes
  the channels.

  A send and its receive are one step. Each \<open>select\<close> has a step per ready case; a timeout may
  fire at any time. A response does not carry the request it answers: any waiting caller may
  receive it, and the caller the worker works for is a ghost of the model.
\<close>

datatype worker =
    WIdle
  | WStarting nat FeedInContainer
  | WResponding nat startContainerResponse
  | WStopped

datatype caller =
    CIdle
  | CRequesting FeedInContainer
  | CWaiting FeedInContainer
  | CReturned FeedInContainer string error

record start_sys =
  ss_up :: bool
  ss_worker :: worker
  ss_caller :: "nat \<Rightarrow> caller"
  ss_cancelled :: bool
  ss_closed :: bool
  ss_panicked :: bool

text \<open>What \<open>Start\<close> returns for a response it has received.\<close>

definition start_result :: "startContainerResponse \<Rightarrow> string \<times> error" where
  "start_result startedContainer =
     (if sr_Err startedContainer \<noteq> None then ([], sr_Err startedContainer)
      else (sr_ContainerID startedContainer, None))"

definition set_caller :: "nat \<Rightarrow> caller \<Rightarrow> start_sys \<Rightarrow> start_sys" where
  "set_caller i c s = s\<lparr>ss_caller := (ss_caller s)(i := c)\<rparr>"

definition return_to :: "nat \<Rightarrow> FeedInContainer \<Rightarrow> string \<times> error \<Rightarrow> start_sys \<Rightarrow> start_sys" where
  "return_to i f r s = set_caller i (CReturned f (fst r) (snd r)) s"

text \<open>
  \<open>starts f resp\<close>: the responses \<open>startFeederContainers\<close> may give for the request \<open>f\<close>, its error
  stored in the response.
\<close>

inductive start_step ::
    "(FeedInContainer \<Rightarrow> startContainerResponse \<Rightarrow> bool) \<Rightarrow> start_sys \<Rightarrow> start_sys \<Rightarrow> bool"
  for starts where
  call: "ss_up s \<Longrightarrow> ss_caller s i = CIdle \<Longrightarrow> start_step starts s (set_caller i (CRequesting f) s)"
| submit: "ss_caller s i = CRequesting f \<Longrightarrow> ss_worker s = WIdle \<Longrightarrow> \<not> ss_closed s \<Longrightarrow>
    start_step starts s (set_caller i (CWaiting f) s\<lparr>ss_worker := WStarting i f\<rparr>)"
| submit_timeout: "ss_caller s i = CRequesting f \<Longrightarrow>
    start_step starts s (return_to i f ([], Some ErrTimeoutContainerStartReq) s)"
| submit_cancelled: "ss_caller s i = CRequesting f \<Longrightarrow> ss_cancelled s \<Longrightarrow>
    start_step starts s (return_to i f ([], Some ErrContextCancelled) s)"
| submit_closed: "ss_caller s i = CRequesting f \<Longrightarrow> ss_closed s \<Longrightarrow>
    start_step starts s (s\<lparr>ss_panicked := True\<rparr>)"
| work: "ss_worker s = WStarting i f \<Longrightarrow> starts f resp \<Longrightarrow>
    start_step starts s (s\<lparr>ss_worker := WResponding i resp\<rparr>)"
| respond: "ss_worker s = WResponding i resp \<Longrightarrow> ss_caller s j = CWaiting f \<Longrightarrow>
    start_step starts s (return_to j f (start_result resp) s\<lparr>ss_worker := WIdle\<rparr>)"
| wait_timeout: "ss_caller s i = CWaiting f \<Longrightarrow>
    start_step starts s (return_to i f ([], Some ErrTimeoutContainerStartResp) s)"
| wait_cancelled: "ss_caller s i = CWaiting f \<Longrightarrow> ss_cancelled s \<Longrightarrow>
    start_step starts s (return_to i f ([], Some ErrContextCancelled) s)"
| wait_closed: "ss_caller s i = CWaiting f \<Longrightarrow> ss_closed s \<Longrightarrow>
    start_step starts s (return_to i f (start_result zero_response) s)"
| stop_cancel: "ss_up s \<Longrightarrow> start_step starts s (s\<lparr>ss_cancelled := True\<rparr>)"
| worker_stops: "ss_worker s = WIdle \<Longrightarrow> ss_cancelled s \<Longrightarrow> start_step starts s (s\<lparr>ss_worker := WStopped\<rparr>)"
| stop_close: "ss_worker s = WStopped \<Longrightarrow> ss_cancelled s \<Longrightarrow> start_step starts s (s\<lparr>ss_closed := True\<rparr>)"
| stop_done: "ss_closed s \<Longrightarrow> start_step starts s (s\<lparr>ss_up := False\<rparr>)"

inductive start_steps ::
    "(FeedInContainer \<Rightarrow> startContainerResponse \<Rightarrow> bool) \<Rightarrow> start_sys \<Rightarrow> start_sys \<Rightarrow> bool"
  for starts where
  refl: "start_steps starts s s"
| step: "start_steps starts s t \<Longrightarrow> start_step starts t u \<Longrightarrow> start_steps starts s u"

text \<open>After \<open>Run\<close>: the worker waits for requests, no caller has called.\<close>

definition start_begin :: start_sys where
  "start_begin = \<lparr>ss_up = True, ss_worker = WIdle, ss_caller = (\<lambda>_. CIdle), ss_cancelled = False,
     ss_closed = False, ss_panicked = False\<rparr>"

text \<open>A call when the manager is not up: \<open>Start\<close> returns before it touches a channel.\<close>

definition Start_refused :: "start_sys \<Rightarrow> (string \<times> error) option" where
  "Start_refused s = (if \<not> ss_up s then Some ([], Some ErrContainersNotInitialised) else None)"

lemma set_caller_simps [simp]:
  "ss_caller (set_caller i c s) = (ss_caller s)(i := c)" "ss_worker (set_caller i c s) = ss_worker s"
  "ss_cancelled (set_caller i c s) = ss_cancelled s" "ss_closed (set_caller i c s) = ss_closed s"
  "ss_up (set_caller i c s) = ss_up s" "ss_panicked (set_caller i c s) = ss_panicked s"
  by (simp_all add: set_caller_def)

lemma return_to_simps [simp]:
  "ss_caller (return_to i f r s) = (ss_caller s)(i := CReturned f (fst r) (snd r))"
  "ss_worker (return_to i f r s) = ss_worker s"
  "ss_cancelled (return_to i f r s) = ss_cancelled s" "ss_closed (return_to i f r s) = ss_closed s"
  "ss_up (return_to i f r s) = ss_up s" "ss_panicked (return_to i f r s) = ss_panicked s"
  by (simp_all add: return_to_def)

section \<open>Responses reach their own caller\<close>

text \<open>The results a call may return: its own response, or one of the three refusals.\<close>

definition own_result :: "(FeedInContainer \<Rightarrow> startContainerResponse \<Rightarrow> bool) \<Rightarrow> FeedInContainer \<Rightarrow> string \<Rightarrow> error \<Rightarrow> bool" where
  "own_result starts f cid err \<longleftrightarrow>
     (cid = [] \<and> err \<in> {Some ErrTimeoutContainerStartReq, Some ErrTimeoutContainerStartResp, Some ErrContextCancelled}) \<or>
     (\<exists>resp. starts f resp \<and> (cid, err) = start_result resp)"

definition serves :: "(FeedInContainer \<Rightarrow> startContainerResponse \<Rightarrow> bool) \<Rightarrow> worker \<Rightarrow> nat \<Rightarrow> FeedInContainer \<Rightarrow> bool" where
  "serves starts w i f \<longleftrightarrow> w = WStarting i f \<or> (\<exists>resp. w = WResponding i resp \<and> starts f resp)"

definition start_inv :: "(FeedInContainer \<Rightarrow> startContainerResponse \<Rightarrow> bool) \<Rightarrow> start_sys \<Rightarrow> bool" where
  "start_inv starts s \<longleftrightarrow>
     (\<forall>i f. ss_caller s i = CWaiting f \<longrightarrow> serves starts (ss_worker s) i f) \<and>
     (\<forall>i f cid err. ss_caller s i = CReturned f cid err \<longrightarrow> own_result starts f cid err) \<and>
     (ss_closed s \<longrightarrow> ss_worker s = WStopped)"

lemma start_inv_waiting:
  "start_inv starts s \<Longrightarrow> ss_caller s i = CWaiting f \<Longrightarrow> serves starts (ss_worker s) i f"
  by (simp add: start_inv_def)

lemma serves_simps [simp]:
  "\<not> serves starts WIdle i f" "\<not> serves starts WStopped i f"
  "serves starts (WStarting j g) i f \<longleftrightarrow> i = j \<and> f = g"
  "serves starts (WResponding j resp) i f \<longleftrightarrow> i = j \<and> starts f resp"
  by (auto simp: serves_def)

lemma own_result_refused [simp]:
  "own_result starts f [] (Some ErrTimeoutContainerStartReq)"
  "own_result starts f [] (Some ErrTimeoutContainerStartResp)"
  "own_result starts f [] (Some ErrContextCancelled)"
  by (simp_all add: own_result_def)

lemma start_step_inv: "start_step starts s t \<Longrightarrow> start_inv starts s \<Longrightarrow> start_inv starts t"
proof (induction rule: start_step.induct)
  case (respond s i resp j f)
  then have j: "j = i" "starts f resp" using start_inv_waiting[of starts s j f] by simp_all
  have "own_result starts f (fst (start_result resp)) (snd (start_result resp))"
    using j(2) unfolding own_result_def by auto
  moreover have "ss_caller s k \<noteq> CWaiting g" if "k \<noteq> j" for k g
    using start_inv_waiting[OF respond.prems, of k g] respond.hyps(1) that j(1) by auto
  ultimately show ?case using respond by (simp add: start_inv_def)
next
  case (wait_closed s i f)
  then have "serves starts WStopped i f" using start_inv_waiting by (force simp: start_inv_def)
  then show ?case by simp
next
  case (submit s i f)
  have "ss_caller s k \<noteq> CWaiting g" for k g
    using start_inv_waiting[OF submit.prems, of k g] submit.hyps(2) by auto
  with submit show ?case by (simp add: start_inv_def)
next
  case (work s i f resp)
  have "k = i \<and> g = f" if "ss_caller s k = CWaiting g" for k g
    using start_inv_waiting[OF work.prems that] work.hyps(1) by simp
  with work show ?case by (auto simp: start_inv_def)
next
  case (worker_stops s)
  have "ss_caller s k \<noteq> CWaiting g" for k g
    using start_inv_waiting[OF worker_stops.prems, of k g] worker_stops.hyps(1) by auto
  with worker_stops show ?case by (simp add: start_inv_def)
qed (auto simp: start_inv_def)

lemma start_steps_inv: "start_steps starts s t \<Longrightarrow> start_inv starts s \<Longrightarrow> start_inv starts t"
  by (induction rule: start_steps.induct) (simp_all add: start_step_inv)

lemma start_begin_inv: "start_inv starts start_begin"
  by (simp add: start_inv_def start_begin_def)

text \<open>
  C18. No caller gets another's container: in every state the protocol can reach, with any
  number of concurrent callers, at most one of them waits for a response, and a call that
  has returned gives the outcome of starting its own container or one of the two timeouts or
  the cancellation with no container; in particular the zero value that a closed response
  channel would give is never taken for a success.
\<close>
theorem start_returns_own_response:
  assumes "start_steps starts start_begin s"
  shows "(ss_caller s i = CReturned f cid err \<longrightarrow> own_result starts f cid err) \<and>
     (ss_caller s i = CWaiting f \<and> ss_caller s j = CWaiting g \<longrightarrow> i = j)"
proof -
  have inv: "start_inv starts s" by (rule start_steps_inv[OF assms start_begin_inv])
  moreover have "i = j" if "ss_caller s i = CWaiting f" "ss_caller s j = CWaiting g"
    using start_inv_waiting[OF inv that(1)] start_inv_waiting[OF inv that(2)]
    by (cases "ss_worker s") simp_all
  ultimately show ?thesis by (simp add: start_inv_def)
qed

section \<open>The abandoned response\<close>

text \<open>The worker sends and nobody waits: the caller it worked for has given up.\<close>

definition abandoned :: "start_sys \<Rightarrow> bool" where
  "abandoned s \<longleftrightarrow> (\<exists>i resp. ss_worker s = WResponding i resp) \<and>
     (\<forall>j f. ss_caller s j \<noteq> CWaiting f) \<and> \<not> ss_closed s"

definition refused :: "caller \<Rightarrow> bool" where
  "refused c \<longleftrightarrow> (\<exists>f err. c = CReturned f [] (Some err) \<and> err \<in> {ErrTimeoutContainerStartReq, ErrContextCancelled})"

lemma abandoned_step:
  assumes "start_step starts s t" "abandoned s"
  shows "abandoned t \<and> ss_worker t = ss_worker s \<and> ss_panicked t = ss_panicked s \<and>
     (ss_caller t i = ss_caller s i \<or> (\<exists>f. ss_caller t i = CRequesting f) \<or> refused (ss_caller t i))"
  using assms by (induction rule: start_step.induct) (auto simp: abandoned_def refused_def)

lemma abandoned_steps:
  assumes "start_steps starts s t" "abandoned s"
  shows "abandoned t \<and> ss_worker t = ss_worker s \<and> ss_panicked t = ss_panicked s \<and>
     (ss_caller t i = ss_caller s i \<or> (\<exists>f. ss_caller t i = CRequesting f) \<or> refused (ss_caller t i))"
  using assms
proof (induction rule: start_steps.induct)
  case (step s t u)
  with abandoned_step[OF step.hyps(2), of i] show ?case by fastforce
qed simp

text \<open>
  C19. One late response stops the manager for good: once the worker offers a response that no
  caller waits for, it stays so in every further run: no later call ever returns a container
  or even a Docker error, only the request timeout or the cancellation, and \<open>Stop\<close> never
  gets to close the channels, because it waits for the worker.
\<close>
theorem abandoned_response_blocks_forever:
  assumes "start_steps starts s t" "abandoned s" "ss_caller s i = CIdle" "ss_caller t i = CReturned f cid err"
  shows "ss_worker t = ss_worker s \<and> \<not> ss_closed t \<and> cid = [] \<and>
     err \<in> {Some ErrTimeoutContainerStartReq, Some ErrContextCancelled}"
  using abandoned_steps[OF assms(1,2), of i] assms(3,4) by (auto simp: abandoned_def refused_def)

text \<open>A run that leads there: one caller, whose wait times out before Docker has answered.\<close>

definition after_timeout :: "FeedInContainer \<Rightarrow> startContainerResponse \<Rightarrow> start_sys" where
  "after_timeout f resp = start_begin\<lparr>ss_worker := WResponding 0 resp,
     ss_caller := (\<lambda>_. CIdle)(0 := CReturned f [] (Some ErrTimeoutContainerStartResp))\<rparr>"

lemma after_timeout_reached:
  assumes "starts f resp"
  shows "start_steps starts start_begin (after_timeout f resp)"
proof -
  define s1 where "s1 = set_caller 0 (CRequesting f) start_begin"
  define s2 where "s2 = set_caller 0 (CWaiting f) s1\<lparr>ss_worker := WStarting 0 f\<rparr>"
  define s3 where "s3 = return_to 0 f ([], Some ErrTimeoutContainerStartResp) s2"
  define s4 where "s4 = s3\<lparr>ss_worker := WResponding 0 resp\<rparr>"
  have "start_step starts start_begin s1"
    unfolding s1_def by (rule start_step.call) (simp_all add: start_begin_def)
  moreover have "start_step starts s1 s2"
    unfolding s2_def by (rule start_step.submit) (simp_all add: s1_def start_begin_def)
  moreover have "start_step starts s2 s3"
    unfolding s3_def by (rule start_step.wait_timeout) (simp add: s2_def set_caller_def)
  moreover have "start_step starts s3 s4"
    unfolding s4_def by (rule start_step.work[where starts = starts and f = f, OF _ assms]) (simp add: s3_def s2_def set_caller_def)
  ultimately have "start_steps starts start_begin s4"
    using start_steps.intros by metis
  moreover have "s4 = after_timeout f resp"
    by (simp add: s4_def s3_def s2_def s1_def after_timeout_def start_begin_def return_to_def set_caller_def)
  ultimately show ?thesis by simp
qed

text \<open>One request after the other, to show that the hypotheses can hold.\<close>

definition any_start :: "FeedInContainer \<Rightarrow> startContainerResponse \<Rightarrow> bool" where
  "any_start f resp \<longleftrightarrow> sr_ContainerName resp = ''feed-in-'' @ fic_FeederCode f"

definition resp0 :: startContainerResponse where
  "resp0 = zero_response\<lparr>sr_ContainerName := ''feed-in-YPPH-1'', sr_ContainerID := ''c1''\<rparr>"

lemma any_start_resp0: "any_start fic0 resp0"
  by (simp add: any_start_def resp0_def fic0_def)

theorem start_returns_own_response_witness:
  "ss_caller (after_timeout fic0 resp0) 0 = CReturned fic0 [] (Some ErrTimeoutContainerStartResp) \<and>
   own_result any_start fic0 [] (Some ErrTimeoutContainerStartResp)"
proof -
  have r: "ss_caller (after_timeout fic0 resp0) 0 = CReturned fic0 [] (Some ErrTimeoutContainerStartResp)"
    by (simp add: after_timeout_def)
  with start_returns_own_response[OF after_timeout_reached[of any_start fic0 resp0, OF any_start_resp0]] show ?thesis
    by blast
qed

definition second_refused :: start_sys where
  "second_refused = return_to 1 fic0 ([], Some ErrTimeoutContainerStartReq)
     (set_caller 1 (CRequesting fic0) (after_timeout fic0 resp0))"

theorem abandoned_response_blocks_forever_witness:
  "start_steps any_start start_begin (after_timeout fic0 resp0) \<and> abandoned (after_timeout fic0 resp0) \<and>
   ss_worker second_refused = ss_worker (after_timeout fic0 resp0) \<and> \<not> ss_closed second_refused \<and>
   ([] :: string) = [] \<and>
   Some ErrTimeoutContainerStartReq \<in> {Some ErrTimeoutContainerStartReq, Some ErrContextCancelled}"
proof -
  have a: "abandoned (after_timeout fic0 resp0)"
    by (auto simp: abandoned_def after_timeout_def start_begin_def)
  have "start_step any_start (after_timeout fic0 resp0) (set_caller 1 (CRequesting fic0) (after_timeout fic0 resp0))"
    by (rule start_step.call) (simp_all add: after_timeout_def start_begin_def)
  moreover have "start_step any_start (set_caller 1 (CRequesting fic0) (after_timeout fic0 resp0)) second_refused"
    unfolding second_refused_def by (rule start_step.submit_timeout) simp
  ultimately have "start_steps any_start (after_timeout fic0 resp0) second_refused"
    using start_steps.intros by metis
  from abandoned_response_blocks_forever[OF this a, of 1 fic0 "[]" "Some ErrTimeoutContainerStartReq"] a
    after_timeout_reached[of any_start fic0 resp0, OF any_start_resp0]
  show ?thesis by (simp add: second_refused_def after_timeout_def start_begin_def)
qed

section \<open>Service\<close>

text \<open>
  An idle worker serves: in any state where the worker is idle and the channels are open,
  a caller that requests can be brought to return exactly what its container's start gives,
  by steps of its own and of the worker only, and the worker is idle again.
\<close>
theorem idle_worker_serves:
  assumes "ss_worker s = WIdle" "\<not> ss_closed s" "ss_caller s i = CRequesting f" "starts f resp"
  shows "\<exists>t. start_steps starts s t \<and> ss_worker t = WIdle \<and>
     ss_caller t = (ss_caller s)(i := CReturned f (fst (start_result resp)) (snd (start_result resp)))"
proof -
  define s1 where "s1 = set_caller i (CWaiting f) s\<lparr>ss_worker := WStarting i f\<rparr>"
  define s2 where "s2 = s1\<lparr>ss_worker := WResponding i resp\<rparr>"
  define s3 where "s3 = return_to i f (start_result resp) s2\<lparr>ss_worker := WIdle\<rparr>"
  have "start_step starts s s1"
    unfolding s1_def by (rule start_step.submit[OF assms(3,1,2)])
  moreover have "start_step starts s1 s2"
    unfolding s2_def by (rule start_step.work[where starts = starts and f = f, OF _ assms(4)])
      (simp add: s1_def set_caller_def)
  moreover have "start_step starts s2 s3"
    unfolding s3_def by (rule start_step.respond[of _ i]) (simp_all add: s2_def s1_def set_caller_def)
  ultimately have "start_steps starts s s3"
    using start_steps.intros by metis
  then show ?thesis
    by (intro exI[of _ s3]) (simp add: s3_def s2_def s1_def return_to_def set_caller_def)
qed

theorem idle_worker_serves_witness:
  "\<exists>t. start_steps any_start (set_caller 3 (CRequesting fic0) start_begin) t \<and> ss_worker t = WIdle \<and>
     ss_caller t = (ss_caller (set_caller 3 (CRequesting fic0) start_begin))
       (3 := CReturned fic0 (fst (start_result resp0)) (snd (start_result resp0)))"
  by (rule idle_worker_serves) (simp_all add: start_begin_def any_start_resp0)

text \<open>
  A call during \<open>Stop\<close> can crash the server: \<open>Stop\<close> resets the flag only after it has
  closed the channels, so a call that passes the flag's test in between reaches a send on a
  closed channel, which may be the case its \<open>select\<close> takes; and it is only then that the
  protocol can panic: in every reachable state that has panicked, the channels are closed.
\<close>
theorem start_panics_only_while_stopping:
  "(\<exists>s. start_steps starts start_begin s \<and> ss_panicked s \<and> ss_up s) \<and>
   (\<forall>s. start_steps starts start_begin s \<longrightarrow> ss_panicked s \<longrightarrow> ss_closed s \<and> ss_cancelled s)"
proof (rule conjI)
  define s1 where "s1 = start_begin\<lparr>ss_cancelled := True\<rparr>"
  define s2 where "s2 = s1\<lparr>ss_worker := WStopped\<rparr>"
  define s3 where "s3 = s2\<lparr>ss_closed := True\<rparr>"
  define s4 where "s4 = set_caller 0 (CRequesting fic0) s3"
  define s5 where "s5 = s4\<lparr>ss_panicked := True\<rparr>"
  have "start_step starts start_begin s1"
    unfolding s1_def by (rule start_step.stop_cancel) (simp add: start_begin_def)
  moreover have "start_step starts s1 s2"
    unfolding s2_def by (rule start_step.worker_stops) (simp_all add: s1_def start_begin_def)
  moreover have "start_step starts s2 s3"
    unfolding s3_def by (rule start_step.stop_close) (simp_all add: s2_def s1_def start_begin_def)
  moreover have "start_step starts s3 s4"
    unfolding s4_def by (rule start_step.call) (simp_all add: s3_def s2_def s1_def start_begin_def)
  moreover have "start_step starts s4 s5"
    unfolding s5_def by (rule start_step.submit_closed[of _ 0 fic0]) (simp_all add: s4_def s3_def)
  ultimately have "start_steps starts start_begin s5"
    using start_steps.intros by metis
  moreover have "ss_panicked s5 \<and> ss_up s5"
    by (simp add: s5_def s4_def s3_def s2_def s1_def start_begin_def)
  ultimately show "\<exists>s. start_steps starts start_begin s \<and> ss_panicked s \<and> ss_up s" by blast
next
  have one: "start_step starts s t \<Longrightarrow> (ss_panicked s \<longrightarrow> ss_closed s) \<and> (ss_closed s \<longrightarrow> ss_cancelled s) \<Longrightarrow>
      (ss_panicked t \<longrightarrow> ss_closed t) \<and> (ss_closed t \<longrightarrow> ss_cancelled t)" for s t
    by (induction rule: start_step.induct) simp_all
  have "start_steps starts s t \<Longrightarrow> s = start_begin \<Longrightarrow>
      (ss_panicked t \<longrightarrow> ss_closed t) \<and> (ss_closed t \<longrightarrow> ss_cancelled t)" for s t
  proof (induction rule: start_steps.induct)
    case (step s t u)
    then show ?case using one by blast
  qed (simp add: start_begin_def)
  then show "\<forall>s. start_steps starts start_begin s \<longrightarrow> ss_panicked s \<longrightarrow> ss_closed s \<and> ss_cancelled s" by blast
qed

theorem start_panics_only_while_stopping_witness:
  "\<exists>s. start_steps any_start start_begin s \<and> ss_panicked s \<and> ss_closed s \<and> ss_cancelled s"
  using start_panics_only_while_stopping[of any_start] by blast

end
