(* ===== verification/ContainerManager.thy ===== *)
theory ContainerManager
  imports ContainerStart
begin

text \<open>
  The lifecycle of the container manager, \<open>Run\<close> and \<open>Stop\<close> of \<open>lib/containers/containers.go\<close>,
  with its NATS subscriptions and its two Prometheus metrics. \<open>promauto\<close> panics where
  \<open>Register\<close> would report an error. \<open>Stop\<close> waits for the worker of theory \<open>ContainerStart\<close> and for
  the checker of theory \<open>ContainerChecker\<close>, and does not return while one of them has not ended.
\<close>

record ContainerManager =
  FeedInImageName :: string
  FeedInImageBuildContext :: string
  FeedInImageBuildContextDockerfile :: string
  FeedInContainerPrefix :: string
  FeedInContainerNetwork :: string
  SignalSkipContainerRecreationDelay :: nat
  PWIngestSink :: string

text \<open>The package's variables.\<close>

record 'r cm_state =
  cm_initialised :: bool
  cm_signalSkip :: nat
  cm_feedInImageName :: string
  cm_buildContext :: string
  cm_dockerfile :: string
  cm_prefix :: string
  cm_registry :: 'r
  cm_nats :: nats_state
  cm_goroutines :: nat
  cm_channels_open :: bool

definition natsSubjFeedInImageRebuild :: string where
  "natsSubjFeedInImageRebuild = ''pw_bordercontrol.feedinimage.rebuild''"

definition natsSubjFeederKick :: string where
  "natsSubjFeederKick = ''pw_bordercontrol.feeder.kick''"

definition containers_initNats :: "bool \<Rightarrow> (string \<Rightarrow> error) \<Rightarrow> nats_state \<Rightarrow> error \<times> nats_state" where
  "containers_initNats nc_connected subscribe st =
     (if IsConnected nc_connected st then
        (case Sub subscribe natsSubjFeedInImageRebuild st of
           (Some e, st1) \<Rightarrow> (Some e, st1)
         | (None, st1) \<Rightarrow>
             (case Sub subscribe natsSubjFeederKick st1 of
                (Some e, st2) \<Rightarrow> (Some e, st2)
              | (None, st2) \<Rightarrow> (None, st2)))
      else (Some ErrNatsNotInitialised, st))"

definition metric_current :: metric where
  "metric_current = MOther ''feedercontainers_image_current''"

definition metric_not_current :: metric where
  "metric_not_current = MOther ''feedercontainers_image_not_current''"

definition auto_register :: "'r prom \<Rightarrow> metric \<Rightarrow> 'r \<Rightarrow> 'r go" where
  "auto_register prom m r =
     (case pr_register prom m r of (Some e, r1) \<Rightarrow> Panic ''promauto'' | (None, r1) \<Rightarrow> Ret r1)"

definition registerPromMetrics :: "'r prom \<Rightarrow> 'r \<Rightarrow> 'r go" where
  "registerPromMetrics prom r =
     go_bind (auto_register prom metric_current r) (auto_register prom metric_not_current)"

definition Run ::
    "'r prom \<Rightarrow> bool \<Rightarrow> (string \<Rightarrow> error) \<Rightarrow> ContainerManager \<Rightarrow> 'r cm_state \<Rightarrow> (error \<times> 'r cm_state) go" where
  "Run prom nc_connected subscribe conf s =
     (if cm_initialised s then Ret (Some ErrContainersAlreadyInitialised, s)
      else
        let s1 = s\<lparr>cm_signalSkip := SignalSkipContainerRecreationDelay conf,
                   cm_feedInImageName := FeedInImageName conf,
                   cm_buildContext := FeedInImageBuildContext conf,
                   cm_dockerfile := FeedInImageBuildContextDockerfile conf,
                   cm_prefix := FeedInContainerPrefix conf\<rparr>;
            (err, nt) = containers_initNats nc_connected subscribe (cm_nats s1);
            s2 = s1\<lparr>cm_nats := nt\<rparr>
        in if err \<noteq> None \<and> err \<noteq> Some ErrNatsNotInitialised then Ret (err, s2)
           else go_bind (registerPromMetrics prom (cm_registry s2))
                  (\<lambda>r. Ret (None, s2\<lparr>cm_registry := r, cm_goroutines := cm_goroutines s2 + 2,
                                     cm_channels_open := True, cm_initialised := True\<rparr>)))"

text \<open>
  \<open>Stop\<close>, with what has become of the two goroutines after the context was cancelled: the state of
  the worker, and whether the checker has returned. \<open>None\<close> is a \<open>Stop\<close> that waits for ever.
\<close>

definition Stop :: "'r prom \<Rightarrow> worker \<Rightarrow> bool \<Rightarrow> 'r cm_state \<Rightarrow> (error \<times> 'r cm_state) option" where
  "Stop prom w checker_ended s =
     (if \<not> cm_initialised s then Some (Some ErrContainersNotInitialised, s)
      else if w \<noteq> WStopped \<or> \<not> checker_ended then None
      else
        let r1 = snd (pr_unregister prom metric_current (cm_registry s));
            r2 = snd (pr_unregister prom metric_not_current r1)
        in Some (None, s\<lparr>cm_goroutines := 0, cm_channels_open := False, cm_registry := r2,
                         cm_initialised := False\<rparr>))"

interpretation manager: closable cm_initialised "\<lambda>prom s. the (Stop prom WStopped True s)" ErrContainersNotInitialised
  by unfold_locales (simp_all add: Stop_def Let_def)

lemma Stop_waits: "Stop prom w e s = None \<longleftrightarrow> cm_initialised s \<and> (w \<noteq> WStopped \<or> \<not> e)"
  by (simp add: Stop_def Let_def)

text \<open>Once the response is abandoned the worker never stops, and neither does \<open>Stop\<close>.\<close>

lemma abandoned_never_stops:
  assumes "start_steps starts p q" "abandoned p" "cm_initialised s"
  shows "Stop prom (ss_worker q) e s = None"
  using abandoned_steps[OF assms(1,2)] assms(2,3) by (auto simp: Stop_waits abandoned_def)

lemma containers_initNats_error:
  "fst (containers_initNats nc sub st) = (if IsConnected nc st then None else Some ErrNatsNotInitialised)"
  by (auto simp: containers_initNats_def Sub_def IsConnected_def split: option.split if_splits)

lemma registerPromMetrics_laws:
  assumes "prom_laws prom has"
  shows "registerPromMetrics prom r =
      (if metric_current \<in> has r \<or> metric_not_current \<in> has r then Panic ''promauto''
       else Ret (snd (pr_register prom metric_not_current (snd (pr_register prom metric_current r)))))"
proof -
  have ne: "metric_current \<noteq> metric_not_current"
    by (simp add: metric_current_def metric_not_current_def)
  note l = prom_lawsD[OF assms]
  obtain e1 r1 where r1: "pr_register prom metric_current r = (e1, r1)"
    by (cases "pr_register prom metric_current r")
  obtain e2 r2 where r2: "pr_register prom metric_not_current r1 = (e2, r2)"
    by (cases "pr_register prom metric_not_current r1")
  show ?thesis
    using l(1)[of metric_current r] l(2)[of metric_current r] l(1)[of metric_not_current r1] ne r1 r2
    by (cases e1; cases e2) (auto simp: registerPromMetrics_def auto_register_def)
qed

lemma Run_down:
  assumes "prom_laws prom has" "\<not> cm_initialised s"
  shows "Run prom nc sub conf s =
     (if metric_current \<in> has (cm_registry s) \<or> metric_not_current \<in> has (cm_registry s)
      then Panic ''promauto'' else Ret (None, s\<lparr>cm_signalSkip := SignalSkipContainerRecreationDelay conf,
        cm_feedInImageName := FeedInImageName conf, cm_buildContext := FeedInImageBuildContext conf,
        cm_dockerfile := FeedInImageBuildContextDockerfile conf, cm_prefix := FeedInContainerPrefix conf,
        cm_nats := snd (containers_initNats nc sub (cm_nats s)),
        cm_registry := snd (pr_register prom metric_not_current (snd (pr_register prom metric_current (cm_registry s)))),
        cm_goroutines := cm_goroutines s + 2, cm_channels_open := True, cm_initialised := True\<rparr>))"
  using assms(2) containers_initNats_error[of nc sub "cm_nats s"] registerPromMetrics_laws[OF assms(1), of "cm_registry s"]
  by (cases "containers_initNats nc sub (cm_nats s)") (auto simp: Run_def Let_def)

text \<open>
  The container manager starts once and can be restarted: from a state that is down, \<open>Run\<close>
  either panics, exactly if one of its two metrics is already registered with Prometheus, or
  succeeds, with or without a NATS connection; then a second \<open>Run\<close> is refused without any
  change, and \<open>Stop\<close> returns exactly if the worker and the checker end; then it succeeds, unregisters
  both metrics and leaves a state from which \<open>Run\<close> succeeds again and in which a second \<open>Stop\<close> is
  refused.
\<close>
theorem manager_run_stop:
  assumes "prom_laws prom has" "\<not> cm_initialised s"
  shows "case Run prom nc sub conf s of
      Panic m \<Rightarrow> metric_current \<in> has (cm_registry s) \<or> metric_not_current \<in> has (cm_registry s)
    | Ret (err, s1) \<Rightarrow>
        metric_current \<notin> has (cm_registry s) \<and> metric_not_current \<notin> has (cm_registry s) \<and>
        err = None \<and> cm_initialised s1 \<and> cm_prefix s1 = FeedInContainerPrefix conf \<and>
        Run prom nc' sub' conf' s1 = Ret (Some ErrContainersAlreadyInitialised, s1) \<and>
        (\<forall>w e. Stop prom w e s1 = None \<longleftrightarrow> w \<noteq> WStopped \<or> \<not> e) \<and>
        (\<exists>s2. Stop prom WStopped True s1 = Some (None, s2) \<and> has (cm_registry s2) = has (cm_registry s) \<and>
           (\<forall>w e. Stop prom w e s2 = Some (Some ErrContainersNotInitialised, s2)) \<and>
           (\<exists>s3. Run prom nc' sub' conf' s2 = Ret (None, s3)))"
proof -
  note l = prom_lawsD[OF assms(1)]
  note run = Run_down[OF assms(1)]
  show ?thesis
  proof (cases "metric_current \<in> has (cm_registry s) \<or> metric_not_current \<in> has (cm_registry s)")
    case True
    then show ?thesis using run[OF assms(2)] by auto
  next
    case False
    then have "insert metric_not_current (insert metric_current (has (cm_registry s))) -
        {metric_current} - {metric_not_current} = has (cm_registry s)"
      by blast
    with False show ?thesis
      using run[OF assms(2), of nc sub conf] by (simp add: Run_def[of _ _ _ _ "_\<lparr>cm_initialised := True\<rparr>"] Stop_def Let_def run l(2,3))
  qed
qed

definition cm_start :: "metric set cm_state" where
  "cm_start = \<lparr>cm_initialised = False, cm_signalSkip = 0, cm_feedInImageName = [], cm_buildContext = [],
     cm_dockerfile = [], cm_prefix = [], cm_registry = {}, cm_nats = nats_start, cm_goroutines = 0,
     cm_channels_open = False\<rparr>"

definition cm_conf :: ContainerManager where
  "cm_conf = \<lparr>FeedInImageName = ''feed-in'', FeedInImageBuildContext = ''.'',
     FeedInImageBuildContextDockerfile = ''Dockerfile.feeder'', FeedInContainerPrefix = ''feed-in-'',
     FeedInContainerNetwork = ''net'', SignalSkipContainerRecreationDelay = 10, PWIngestSink = ''nats://x''\<rparr>"

theorem manager_run_stop_witness:
  "\<exists>s1 s2. Run set_prom True (\<lambda>_. None) cm_conf cm_start = Ret (None, s1) \<and> cm_initialised s1 \<and>
     Stop set_prom WStopped True s1 = Some (None, s2) \<and> cm_registry s2 = {}"
proof -
  have laws: "prom_laws set_prom id" by (simp add: prom_laws_def set_prom_def)
  have down: "\<not> cm_initialised cm_start" by (simp add: cm_start_def)
  have reg: "cm_registry cm_start = {}" by (simp add: cm_start_def)
  note m = manager_run_stop
    [where nc = True and sub = "\<lambda>_. None" and conf = cm_conf
      and nc' = True and sub' = "\<lambda>_. None" and conf' = cm_conf, OF laws down, unfolded reg]
  show ?thesis
  proof (cases "Run set_prom True (\<lambda>_. None) cm_conf cm_start")
    case (Panic msg)
    with m show ?thesis by simp
  next
    case (Ret es)
    with m show ?thesis by (cases es) auto
  qed
qed

end
