(* ===== verification/Cli.thy ===== *)
theory Cli
  imports ContainerManager
begin

text \<open>
  The command line of \<open>cmd/bordercontrol/main.go\<close>: the table of flags of \<open>app\<close>, with their defaults
  and environment variables, and the look-ups of \<open>runServer\<close> that turn the flags into the
  configurations of the subsystems. The parser is third-party (urfave/cli): the context it hands
  to \<open>runServer\<close> is a record of its look-ups, and what it documents about them is \<open>parser_laws\<close>,
  over what is \<open>given\<close> for a flag on the command line or in an environment variable of it. The
  usage texts are left out.

  The lemmas: the names and the environment variables are unambiguous, every flag that is read
  is declared with the type it is read at, and every declared flag reaches exactly one field.
\<close>

datatype flag_value = FString string | FPath string | FInt int | FBool bool

record cli_flag =
  fg_Category :: string
  fg_Name :: string
  fg_Value :: flag_value
  fg_Required :: bool
  fg_EnvVars :: "string list"

definition flag :: "string \<Rightarrow> string \<Rightarrow> flag_value \<Rightarrow> bool \<Rightarrow> string list \<Rightarrow> cli_flag" where
  "flag c n v r es = \<lparr>fg_Category = c, fg_Name = n, fg_Value = v, fg_Required = r, fg_EnvVars = es\<rparr>"

lemma flag_simps [simp]:
  "fg_Name (flag c n v r es) = n" "fg_Value (flag c n v r es) = v" "fg_Required (flag c n v r es) = r"
  "fg_EnvVars (flag c n v r es) = es"
  by (simp_all add: flag_def)

definition app_flags :: "cli_flag list" where
  "app_flags =
    [
     flag ''Network'' ''listenbeast'' (FString '':12345'') False [''BC_LISTEN_BEAST''],
     flag ''Network'' ''listenmlat'' (FString '':12346'') False [''BC_LISTEN_MLAT''],
     flag ''Network'' ''listenapi'' (FString '':8080'') False [''BC_LISTEN_API''],
     flag ''SSL/TLS'' ''cert'' (FString '''') True [''BC_CERT_FILE''],
     flag ''SSL/TLS'' ''key'' (FString '''') True [''BC_KEY_FILE''],
     flag ''ATC API'' ''atcurl'' (FString '''') True [''ATC_URL''],
     flag ''ATC API'' ''atcuser'' (FString '''') True [''ATC_USER''],
     flag ''ATC API'' ''atcpass'' (FString '''') True [''ATC_PASS''],
     flag ''ATC API'' ''atcupdatefreq'' (FInt 1) False [''ATC_UPDATE_FREQ''],
     flag ''Docker Environmemt'' ''feedinimage'' (FString ''feed-in'') False [''FEED_IN_IMAGE''],
     flag ''Docker Environmemt'' ''feedincontainerprefix'' (FString ''feed-in-'') False [''FEED_IN_CONTAINER_PREFIX''],
     flag ''Docker Environmemt'' ''feedincontainernetwork'' (FString ''bordercontrol_feeder'') False [''FEED_IN_CONTAINER_NETWORK''],
     flag ''Docker Environment'' ''feedinimagecontext'' (FPath ''/opt/feed-in/'') False [''FEED_IN_BUILD_CONTEXT''],
     flag ''Docker Environment'' ''feedinimagedockerfile'' (FString ''Dockerfile.feeder'') False [''FEED_IN_BUILD_DOCKERFILE''],
     flag ''NATS'' ''pwingestpublish'' (FString '''') True [''PW_INGEST_SINK''],
     flag ''NATS'' ''natsurl'' (FString '''') False [''NATS''],
     flag ''NATS_INSTANCE'' ''natsinstance'' (FString '''') False [''NATS_INSTANCE''],
     flag ''Logging'' ''verbose'' (FBool False) False [''BC_VERBOSE'']]"

section \<open>The configurations of the subsystems\<close>

text \<open>\<open>String\<close>, \<open>Int\<close> and \<open>Bool\<close> of \<open>cli.Context\<close>.\<close>

record cli_context =
  cx_String :: "string \<Rightarrow> string"
  cx_Int :: "string \<Rightarrow> int"
  cx_Bool :: "string \<Rightarrow> bool"

record cli =
  cli_natsurl :: string
  cli_natsinstance :: string
  cli_cert :: string
  cli_key :: string
  cli_listenapi :: string
  cli_atcupdatefreq :: int
  cli_atcurl :: string
  cli_atcuser :: string
  cli_atcpass :: string
  cli_manager :: ContainerManager
  cli_listenbeast :: string
  cli_listenmlat :: string
  cli_verbose :: bool

definition SIGUSR1 :: nat where
  "SIGUSR1 = 10"

definition cli_from :: "cli_context \<Rightarrow> cli" where
  "cli_from cx = \<lparr>
     cli_natsurl = cx_String cx ''natsurl'',
     cli_natsinstance = cx_String cx ''natsinstance'',
     cli_cert = cx_String cx ''cert'',
     cli_key = cx_String cx ''key'',
     cli_listenapi = cx_String cx ''listenapi'',
     cli_atcupdatefreq = cx_Int cx ''atcupdatefreq'',
     cli_atcurl = cx_String cx ''atcurl'',
     cli_atcuser = cx_String cx ''atcuser'',
     cli_atcpass = cx_String cx ''atcpass'',
     cli_manager = \<lparr>FeedInImageName = cx_String cx ''feedinimage'',
       FeedInImageBuildContext = cx_String cx ''feedinimagecontext'',
       FeedInImageBuildContextDockerfile = cx_String cx ''feedinimagedockerfile'',
       FeedInContainerPrefix = cx_String cx ''feedincontainerprefix'',
       FeedInContainerNetwork = cx_String cx ''feedincontainernetwork'',
       SignalSkipContainerRecreationDelay = SIGUSR1,
       PWIngestSink = cx_String cx ''pwingestpublish''\<rparr>,
     cli_listenbeast = cx_String cx ''listenbeast'',
     cli_listenmlat = cx_String cx ''listenmlat'',
     cli_verbose = cx_Bool cx ''verbose''\<rparr>"

section \<open>The parser\<close>

type_synonym given = "string \<Rightarrow> flag_value option"

fun same_type :: "flag_value \<Rightarrow> flag_value \<Rightarrow> bool" where
  "same_type (FString _) (FString _) = True"
| "same_type (FPath _) (FPath _) = True"
| "same_type (FInt _) (FInt _) = True"
| "same_type (FBool _) (FBool _) = True"
| "same_type _ _ = False"

text \<open>The value of a flag: the one given, or the default of the table.\<close>

definition resolved :: "given \<Rightarrow> cli_flag \<Rightarrow> flag_value" where
  "resolved given f = (case given (fg_Name f) of None \<Rightarrow> fg_Value f | Some v \<Rightarrow> v)"

text \<open>A context read at the type of a flag.\<close>

definition read_flag :: "cli_context \<Rightarrow> cli_flag \<Rightarrow> flag_value" where
  "read_flag cx f =
     (case fg_Value f of
        FString _ \<Rightarrow> FString (cx_String cx (fg_Name f))
      | FPath _ \<Rightarrow> FPath (cx_String cx (fg_Name f))
      | FInt _ \<Rightarrow> FInt (cx_Int cx (fg_Name f))
      | FBool _ \<Rightarrow> FBool (cx_Bool cx (fg_Name f)))"

definition missing_required :: "given \<Rightarrow> string list" where
  "missing_required given = map fg_Name (filter (\<lambda>f. fg_Required f \<and> given (fg_Name f) = None) app_flags)"

text \<open>
  What \<open>app.Run\<close> makes of the command line: an error, which it returns; help or the version,
  printed, and no error; an exit of its own with a code (help on an unknown topic); or a
  context, with which the action is run.
\<close>

datatype cli_outcome = CliError go_err | CliDone | CliExit int | CliAction cli_context

text \<open>
  What urfave/cli documents: without a required flag the action is not run; help and the version
  are printed only when they are asked for (\<open>help\<close>), and then the action is not run; when it is
  run, the look-up of a declared flag, at its type, gives the flag's value. An error may also come
  from an unknown flag or a value that cannot be read.
\<close>

definition parser_laws :: "given \<Rightarrow> bool \<Rightarrow> cli_outcome \<Rightarrow> bool" where
  "parser_laws given help parsed =
     (case parsed of
        CliError e \<Rightarrow> True
      | CliDone \<Rightarrow> help
      | CliExit n \<Rightarrow> help
      | CliAction cx \<Rightarrow> \<not> help \<and> missing_required given = [] \<and> list_all (\<lambda>f. read_flag cx f = resolved given f) app_flags)"

text \<open>A parser that keeps them, on well-typed values.\<close>

definition well_typed :: "given \<Rightarrow> bool" where
  "well_typed given = list_all (\<lambda>f. same_type (resolved given f) (fg_Value f)) app_flags"

definition table_value :: "given \<Rightarrow> string \<Rightarrow> flag_value option" where
  "table_value given name = map_option (resolved given) (find (\<lambda>f. fg_Name f = name) app_flags)"

definition table_context :: "given \<Rightarrow> cli_context" where
  "table_context given =
     \<lparr>cx_String = (\<lambda>name. case table_value given name of Some (FString s) \<Rightarrow> s | Some (FPath s) \<Rightarrow> s | _ \<Rightarrow> []),
      cx_Int = (\<lambda>name. case table_value given name of Some (FInt i) \<Rightarrow> i | _ \<Rightarrow> 0),
      cx_Bool = (\<lambda>name. case table_value given name of Some (FBool b) \<Rightarrow> b | _ \<Rightarrow> False)\<rparr>"

definition table_parser :: "given \<Rightarrow> bool \<Rightarrow> cli_outcome" where
  "table_parser given help =
     (if help then CliDone
      else if missing_required given \<noteq> [] then CliError (ErrExt (concat (missing_required given)))
      else CliAction (table_context given))"

section \<open>The table\<close>

lemma flag_names_distinct: "distinct (map fg_Name app_flags)"
  by (simp add: app_flags_def)

lemma flag_env_vars_distinct: "distinct (concat (map fg_EnvVars app_flags))"
  by (simp add: app_flags_def)

lemma find_by_name: "distinct (map fg_Name fs) \<Longrightarrow> f \<in> set fs \<Longrightarrow> find (\<lambda>g. fg_Name g = fg_Name f) fs = Some f"
  by (induction fs) (auto simp: image_iff)

lemma table_parser_laws:
  assumes "well_typed given"
  shows "parser_laws given help (table_parser given help)"
proof -
  have "read_flag (table_context given) f = resolved given f" if f: "f \<in> set app_flags" for f
  proof -
    have "table_value given (fg_Name f) = Some (resolved given f)"
      by (simp add: table_value_def find_by_name[OF flag_names_distinct f])
    moreover have "same_type (resolved given f) (fg_Value f)"
      using assms f by (simp add: well_typed_def list_all_iff)
    ultimately show ?thesis
      by (cases "resolved given f"; cases "fg_Value f") (simp_all add: read_flag_def table_context_def)
  qed
  then show ?thesis by (simp add: parser_laws_def table_parser_def list_all_iff)
qed

lemma required_flags:
  "map fg_Name (filter fg_Required app_flags) = [''cert'', ''key'', ''atcurl'', ''atcuser'', ''atcpass'', ''pwingestpublish'']"
  by (simp add: app_flags_def)

lemma cli_from_reads:
  "cli_from cx = cli_from cx' \<longleftrightarrow> list_all (\<lambda>f. read_flag cx f = read_flag cx' f) app_flags"
  by (auto simp: cli_from_def app_flags_def read_flag_def)

text \<open>
  The flags and the configuration determine each other: two command lines give the same
  configuration exactly if every declared flag has the same value, given or default. So no flag is
  declared and not read, none is read under a wrong name or at a wrong type, and no two of them
  are mixed up.
\<close>
theorem every_flag_is_used:
  assumes "parser_laws g h (CliAction cx)" "parser_laws g' h' (CliAction cx')"
  shows "cli_from cx = cli_from cx' \<longleftrightarrow> list_all (\<lambda>f. resolved g f = resolved g' f) app_flags"
  using assms by (auto simp: cli_from_reads parser_laws_def list_all_iff)

text \<open>The six flags one must give, and nothing else.\<close>

definition given_min :: given where
  "given_min = map_of (map (\<lambda>n. (n, FString (n @ ''!'')))
     [''cert'', ''key'', ''atcurl'', ''atcuser'', ''atcpass'', ''pwingestpublish''])"

lemma given_min_ok: "missing_required given_min = []" "well_typed given_min"
    "missing_required (given_min(''cert'' := None)) = [''cert'']" "well_typed (given_min(''cert'' := None))"
  by (simp_all add: missing_required_def well_typed_def resolved_def app_flags_def given_min_def)

lemma given_min_laws: "parser_laws given_min False (CliAction (table_context given_min))"
  using table_parser_laws[OF given_min_ok(2), of False] by (simp add: table_parser_def given_min_ok(1))

theorem every_flag_is_used_witness:
  "cli_from (table_context given_min) \<noteq> cli_from (table_context (given_min(''listenmlat'' \<mapsto> FString '':1''))) \<and>
   cli_from (table_context given_min) = cli_from (table_context (given_min(''listenmlat'' \<mapsto> FString '':12346'')))"
proof -
  have p: "parser_laws (given_min(''listenmlat'' \<mapsto> FString s)) False (CliAction (table_context (given_min(''listenmlat'' \<mapsto> FString s))))" for s
  proof -
    have w: "well_typed (given_min(''listenmlat'' \<mapsto> FString s))"
      and m: "missing_required (given_min(''listenmlat'' \<mapsto> FString s)) = []"
      by (simp_all add: missing_required_def well_typed_def resolved_def app_flags_def given_min_def)
    from table_parser_laws[OF w, of False] m show ?thesis by (simp add: table_parser_def)
  qed
  show ?thesis
    unfolding every_flag_is_used[OF given_min_laws p]
    by (simp add: resolved_def app_flags_def given_min_def)
qed

text \<open>Some defaults, where nothing is given.\<close>

lemma given_min_defaults:
  "cli_listenbeast (cli_from (table_context given_min)) = '':12345''"
  "cli_listenmlat (cli_from (table_context given_min)) = '':12346''"
  "cli_listenapi (cli_from (table_context given_min)) = '':8080''"
  by (simp_all add: cli_from_def table_context_def table_value_def resolved_def app_flags_def given_min_def)

end
