(* ===== verification/ProxyLife.thy ===== *)
theory ProxyLife
  imports ProxyStart
begin

text \<open>
  The lifecycle of the proxy, \<open>Init\<close> and \<open>Close\<close> of \<open>lib/feedproxy/feedproxy_init.go\<close>: the package's
  own variables, and the collector it registers through the statistics package. The two
  goroutines \<open>Init\<close> starts (the feeder refresh and the tracker's evictor) are counted.
\<close>

record ProxyConfig =
  UpdateFrequency :: duration
  ATCUrl :: string
  ATCUser :: string
  ATCPass :: string

record fp_life =
  fl_initialised :: bool
  fl_tracker :: incomingConnectionTracker
  fl_validFeeders :: "atc_feeder list"
  fl_atcClient :: "atc_client option"
  fl_goroutines :: nat

definition promCollectorNumFeeders :: collector where
  "promCollectorNumFeeders = (MOther ''feeders'', 0)"

record 'r fp_env =
  fe_prom :: "'r prom"
  fe_url_parse :: "string \<Rightarrow> go_err + string"
  fe_creds :: "string \<Rightarrow> string \<Rightarrow> string"
  fe_conf :: ProxyConfig

definition feedproxy_Init :: "'r fp_env \<Rightarrow> fp_life \<times> 'r stats_pkg \<Rightarrow> error \<times> fp_life \<times> 'r stats_pkg" where
  "feedproxy_Init env s =
     (let (fp, pk) = s in
      if fl_initialised fp then (Some ErrFeedproxyAlreadyInitialised, s)
      else
        let fp1 = fp\<lparr>fl_tracker := new_tracker, fl_validFeeders := []\<rparr>;
            (client, err) = NewClientWithContext (fe_url_parse env) (fe_creds env)
                              (ATCUrl (fe_conf env)) (ATCUser (fe_conf env)) (ATCPass (fe_conf env));
            fp2 = fp1\<lparr>fl_atcClient := Some client\<rparr>
        in case err of
             Some e \<Rightarrow> (Some e, fp2, pk)
           | None \<Rightarrow>
               let fp3 = fp2\<lparr>fl_goroutines := fl_goroutines fp2 + 1\<rparr>;
                   (err, cr) = RegisterPromCollector (fe_prom env) promCollectorNumFeeders
                                 (promCollectors pk, pk_registry pk);
                   pk1 = set_proms cr pk
               in (case err of
                     Some e \<Rightarrow> (Some e, fp3, pk1)
                   | None \<Rightarrow> (None, fp3\<lparr>fl_goroutines := fl_goroutines fp3 + 1, fl_initialised := True\<rparr>, pk1)))"

text \<open>\<open>Close\<close> waits for the goroutines; a failure to unregister is only logged.\<close>

definition feedproxy_Close :: "'r prom \<Rightarrow> fp_life \<times> 'r stats_pkg \<Rightarrow> error \<times> fp_life \<times> 'r stats_pkg" where
  "feedproxy_Close prom s =
     (let (fp, pk) = s in
      if \<not> fl_initialised fp then (Some ErrFeedproxyNotInitialised, s)
      else
        let (err, cr) = UnregisterPromCollector prom promCollectorNumFeeders (promCollectors pk, pk_registry pk)
        in (None, fp\<lparr>fl_goroutines := 0, fl_initialised := False\<rparr>, set_proms cr pk))"

interpretation proxy_sub: subsystem "\<lambda>s. fl_initialised (fst s)" feedproxy_Close ErrFeedproxyNotInitialised
  feedproxy_Init ErrFeedproxyAlreadyInitialised
proof unfold_locales
  fix s :: "fp_life \<times> 'a stats_pkg" and i e
  show "\<not> fl_initialised (fst s) \<Longrightarrow> feedproxy_Close e s = (Some ErrFeedproxyNotInitialised, s)"
    by (cases s) (simp add: feedproxy_Close_def)
  show "fl_initialised (fst s) \<Longrightarrow> \<not> fl_initialised (fst (snd (feedproxy_Close e s)))"
    by (cases s) (simp add: feedproxy_Close_def split: prod.split)
  show up: "fl_initialised (fst s) \<Longrightarrow> feedproxy_Init i s = (Some ErrFeedproxyAlreadyInitialised, s)"
    by (cases s) (simp add: feedproxy_Init_def)
  have "\<not> fl_initialised (fst s) \<Longrightarrow>
      fl_initialised (fst (snd (feedproxy_Init i s))) \<longleftrightarrow> fst (feedproxy_Init i s) = None"
    by (cases s) (simp add: feedproxy_Init_def Let_def split: prod.split option.split)
  then show "fst (feedproxy_Init i s) = None \<Longrightarrow> fl_initialised (fst (snd (feedproxy_Init i s)))"
    and "\<not> fl_initialised (fst s) \<Longrightarrow> fst (feedproxy_Init i s) \<noteq> None \<Longrightarrow>
      \<not> fl_initialised (fst (snd (feedproxy_Init i s)))"
    using up by (cases "fl_initialised (fst s)"; simp)+
qed

text \<open>
  A start that succeeds and the close after it, with Prometheus as documented: the collector
  is registered in between and the list of collectors is as before afterwards.
\<close>

lemma feedproxy_Init_ok:
  assumes laws: "prom_laws (fe_prom env) has" and down: "\<not> fl_initialised fp"
    and url: "fe_url_parse env (ATCUrl (fe_conf env)) = Inr u"
    and fresh: "fst promCollectorNumFeeders \<notin> has (pk_registry pk)"
  shows "\<exists>fp' r'. feedproxy_Init env (fp, pk) =
      (None, fp', pk\<lparr>promCollectors := promCollectors pk @ [promCollectorNumFeeders], pk_registry := r'\<rparr>) \<and>
     has r' = insert (fst promCollectorNumFeeders) (has (pk_registry pk)) \<and>
     fl_initialised fp' \<and> connections (fl_tracker fp') = [] \<and> fl_validFeeders fp' = [] \<and>
     fl_goroutines fp' = fl_goroutines fp + 2"
proof -
  obtain r' where reg: "RegisterPromCollector (fe_prom env) promCollectorNumFeeders (promCollectors pk, pk_registry pk) =
      (None, promCollectors pk @ [promCollectorNumFeeders], r')"
    "has r' = insert (fst promCollectorNumFeeders) (has (pk_registry pk))"
    using RegisterPromCollector_ok[OF laws fresh] by blast
  with down url show ?thesis
    by (intro exI[of _ "fp\<lparr>fl_tracker := new_tracker, fl_validFeeders := [],
           fl_atcClient := Some (fst (NewClientWithContext (fe_url_parse env) (fe_creds env)
             (ATCUrl (fe_conf env)) (ATCUser (fe_conf env)) (ATCPass (fe_conf env)))),
           fl_goroutines := fl_goroutines fp + 2, fl_initialised := True\<rparr>"] exI[of _ r'])
       (simp add: feedproxy_Init_def NewClientWithContext_def Let_def set_proms_def new_tracker_def)
qed

text \<open>
  The proxy starts empty and once: with an ATC URL that parses and its collector new to
  Prometheus, \<open>Init\<close> succeeds, with no tracked connection and no valid feeder until the first
  refresh, so that nobody can authenticate before it; \<open>Init\<close> again is refused without any
  change, and \<open>Close\<close> takes it down and removes the collector.
\<close>
theorem feedproxy_starts_empty:
  assumes "prom_laws (fe_prom env) has" "\<not> fl_initialised fp"
    "fe_url_parse env (ATCUrl (fe_conf env)) = Inr u" "fst promCollectorNumFeeders \<notin> has (pk_registry pk)"
  shows "\<exists>fp' pk'. feedproxy_Init env (fp, pk) = (None, fp', pk') \<and>
     connections (fl_tracker fp') = [] \<and> (\<forall>k. \<not> isValidApiKey (fl_validFeeders fp') k) \<and>
     feedproxy_Init env' (fp', pk') = (Some ErrFeedproxyAlreadyInitialised, fp', pk') \<and>
     (case feedproxy_Close (fe_prom env) (fp', pk') of (err, fp'', pk'') \<Rightarrow>
        err = None \<and> \<not> fl_initialised fp'' \<and> fl_goroutines fp'' = 0 \<and>
        has (pk_registry pk'') = has (pk_registry pk))"
proof -
  obtain fp' r' where "feedproxy_Init env (fp, pk) =
      (None, fp', pk\<lparr>promCollectors := promCollectors pk @ [promCollectorNumFeeders], pk_registry := r'\<rparr>)"
    and r': "has r' = insert (fst promCollectorNumFeeders) (has (pk_registry pk))"
    and fp': "fl_initialised fp'" "connections (fl_tracker fp') = []" "fl_validFeeders fp' = []"
    using feedproxy_Init_ok[OF assms] by blast
  then obtain pk' where i: "feedproxy_Init env (fp, pk) = (None, fp', pk')" and pk': "pk_registry pk' = r'"
    by simp
  have again: "feedproxy_Init env' (fp', pk') = (Some ErrFeedproxyAlreadyInitialised, fp', pk')"
    using proxy_sub.init_up[of "(fp', pk')" env'] fp' by simp
  obtain e cs r2 where un: "UnregisterPromCollector (fe_prom env) promCollectorNumFeeders (promCollectors pk', r') = (e, cs, r2)"
    using prod_cases3 by blast
  have "r2 = snd (pr_unregister (fe_prom env) (fst promCollectorNumFeeders) r')"
    using UnregisterPromCollector_registry[of "fe_prom env" promCollectorNumFeeders "(promCollectors pk', r')"] un
    by simp
  then have "has r2 = has (pk_registry pk)"
    using prom_lawsD(3)[OF assms(1)] r' assms(4) by simp
  with un fp' pk' have "case feedproxy_Close (fe_prom env) (fp', pk') of (err, fp'', pk'') \<Rightarrow>
        err = None \<and> \<not> fl_initialised fp'' \<and> fl_goroutines fp'' = 0 \<and>
        has (pk_registry pk'') = has (pk_registry pk)"
    by (simp add: feedproxy_Close_def Let_def set_proms_def)
  with i again fp' show ?thesis by (intro exI[of _ fp'] exI[of _ pk']) simp
qed

definition fp_life_start :: fp_life where
  "fp_life_start = \<lparr>fl_initialised = False, fl_tracker = new_tracker, fl_validFeeders = [],
     fl_atcClient = None, fl_goroutines = 0\<rparr>"

definition fp_env0 :: "metric set fp_env" where
  "fp_env0 = \<lparr>fe_prom = set_prom, fe_url_parse = Inr, fe_creds = (\<lambda>u p. u @ p),
     fe_conf = \<lparr>UpdateFrequency = minute, ATCUrl = ''http://atc'', ATCUser = ''u'', ATCPass = ''p''\<rparr>\<rparr>"

theorem feedproxy_starts_empty_witness:
  "\<exists>fp' pk'. feedproxy_Init fp_env0 (fp_life_start, pkg_start) = (None, fp', pk') \<and>
     connections (fl_tracker fp') = [] \<and> (\<forall>k. \<not> isValidApiKey (fl_validFeeders fp') k) \<and>
     feedproxy_Init fp_env0 (fp', pk') = (Some ErrFeedproxyAlreadyInitialised, fp', pk') \<and>
     (case feedproxy_Close (fe_prom fp_env0) (fp', pk') of (err, fp'', pk'') \<Rightarrow>
        err = None \<and> \<not> fl_initialised fp'' \<and> fl_goroutines fp'' = 0 \<and>
        id (pk_registry pk'') = id (pk_registry pkg_start))"
  by (rule feedproxy_starts_empty[where u = "''http://atc''"])
     (simp_all add: fp_env0_def prom_laws_def set_prom_def fp_life_start_def pkg_start_def)

end
