(* ===== verification/Server.thy ===== *)
theory Server
  imports Listener Cli ProxyLife
begin

text \<open>
  The program, \<open>cmd/bordercontrol/main.go\<close>: the version text, the start of the subsystems in order,
  serving until the context is closed, the shutdown in order, and the exit code. The packages
  share the Prometheus registry and the NATS client; \<open>sr_pkg\<close> holds both, and the other
  packages are given them and hand them back.
\<close>

section \<open>The version\<close>

text \<open>\<open>getRepoInfo\<close>: the settings of \<open>debug.ReadBuildInfo\<close>, if it knows any; two loops over them.\<close>

fun last_commit :: "(string \<times> string) list \<Rightarrow> string \<Rightarrow> string" where
  "last_commit [] commitHash = commitHash"
| "last_commit ((key, val) # settings) commitHash =
     (if key = ''vcs.revision'' then
        (if 7 \<le> length val then last_commit settings (take 7 val) else last_commit settings commitHash)
      else last_commit settings commitHash)"

fun last_time :: "(string \<times> string) list \<Rightarrow> string \<Rightarrow> string" where
  "last_time [] commitTime = commitTime"
| "last_time ((key, val) # settings) commitTime =
     (if key = ''vcs.time'' then last_time settings val else last_time settings commitTime)"

definition getRepoInfo :: "(string \<times> string) list option \<Rightarrow> string \<times> string" where
  "getRepoInfo info =
     (case info of
        None \<Rightarrow> (''unknown'', ''unknown'')
      | Some settings \<Rightarrow> (last_commit settings ''unknown'', last_time settings ''unknown''))"

definition app_version :: "(string \<times> string) list option \<Rightarrow> string" where
  "app_version info =
     (let (commitHash, commitTime) = getRepoInfo info in ''0.0.3 ('' @ commitHash @ ''), '' @ commitTime)"

section \<open>Starting and stopping the subsystems\<close>

text \<open>
  What the surroundings answer. \<open>en_worker\<close> and \<open>en_checker_ended\<close> say what becomes of the two
  goroutines of the container manager once its context is cancelled, and \<open>en_ended\<close> whether the
  goroutines end that the other three packages wait for when they are closed.
\<close>

datatype wait_group = ProxyTasks | StatsTasks | TlsTask

record ('r, 'c) server_env =
  en_buildinfo :: "(string \<times> string) list option"
  en_startTime :: time
  en_nats :: nats_env
  en_nc_connected :: bool
  en_load :: "'c load"
  en_prom :: "'r prom"
  en_url_parse :: "string \<Rightarrow> go_err + string"
  en_creds :: "string \<Rightarrow> string \<Rightarrow> string"
  en_beast :: "listen_round list"
  en_mlat :: "listen_round list"
  en_meanwhile :: "stats_state \<Rightarrow> stats_state"  \<comment> \<open>the statistics while serving\<close>
  en_worker :: worker
  en_checker_ended :: bool
  en_ended :: "wait_group \<Rightarrow> bool"

record ('r, 'c) server =
  sr_pkg :: "'r stats_pkg"
  sr_fp :: fp_life
  sr_cm :: "'r cm_state"
  sr_tls :: "'c stunnel_server option"

text \<open>The container package on the shared registry and NATS client.\<close>

definition cm_of :: "('r, 'c) server \<Rightarrow> 'r cm_state" where
  "cm_of s = (sr_cm s)\<lparr>cm_registry := pk_registry (sr_pkg s), cm_nats := pk_nats (sr_pkg s)\<rparr>"

definition put_cm :: "'r cm_state \<Rightarrow> ('r, 'c) server \<Rightarrow> ('r, 'c) server" where
  "put_cm c s = s\<lparr>sr_cm := c, sr_pkg := (sr_pkg s)\<lparr>pk_registry := cm_registry c, pk_nats := cm_nats c\<rparr>\<rparr>"

definition nats_conf :: "('r, 'c) server_env \<Rightarrow> cli \<Rightarrow> NatsConfig" where
  "nats_conf env c = \<lparr>Url = cli_natsurl c, Instance = cli_natsinstance c, Version = app_version (en_buildinfo env),
     StartTime = en_startTime env\<rparr>"

definition feedproxy_conf :: "cli \<Rightarrow> ProxyConfig" where
  "feedproxy_conf c = \<lparr>UpdateFrequency = minute * cli_atcupdatefreq c, ATCUrl = cli_atcurl c,
     ATCUser = cli_atcuser c, ATCPass = cli_atcpass c\<rparr>"

definition stats_conf :: "('r, 'c) server_env \<Rightarrow> 'r stats_env" where
  "stats_conf env = \<lparr>se_prom = en_prom env, se_nc_connected = en_nc_connected env,
     se_subscribe = env_subscribe (en_nats env)\<rparr>"

definition fp_conf :: "('r, 'c) server_env \<Rightarrow> cli \<Rightarrow> 'r fp_env" where
  "fp_conf env c = \<lparr>fe_prom = en_prom env, fe_url_parse = en_url_parse env, fe_creds = en_creds env,
     fe_conf = feedproxy_conf c\<rparr>"

text \<open>The first part of \<open>runServer\<close>: the first error ends it, and nothing is taken down.\<close>

definition server_init :: "('r, 'c) server_env \<Rightarrow> cli \<Rightarrow> ('r, 'c) server \<Rightarrow> (error \<times> ('r, 'c) server) go" where
  "server_init env c s =
     (let (err, nt) = nats_Init (en_nats env) (nats_conf env c) (pk_nats (sr_pkg s));
          s1 = s\<lparr>sr_pkg := (sr_pkg s)\<lparr>pk_nats := nt\<rparr>\<rparr>
      in if err \<noteq> None then Ret (err, s1)
      else case NewServerWithContext (en_load env) (cli_cert c) (cli_key c) of
        Inl e \<Rightarrow> Ret (Some e, s1)
      | Inr tls \<Rightarrow>
      let s2 = s1\<lparr>sr_tls := Some tls\<rparr>;
          (err, pk) = stats_Init (stats_conf env) (sr_pkg s2);
          s3 = s2\<lparr>sr_pkg := pk\<rparr>
      in if err \<noteq> None then Ret (err, s3)
      else
      let (err, fp, pk) = feedproxy_Init (fp_conf env c) (sr_fp s3, sr_pkg s3);
          s4 = s3\<lparr>sr_fp := fp, sr_pkg := pk\<rparr>
      in if err \<noteq> None then Ret (err, s4)
      else go_bind (Run (en_prom env) (en_nc_connected env) (env_subscribe (en_nats env)) (cli_manager c) (cm_of s4))
             (\<lambda>(err, cm). Ret (err, put_cm cm s4)))"

text \<open>
  The last part: every subsystem is closed, in this order; an error is only logged. Each of them
  but the last waits for its goroutines; \<open>None\<close> is a wait that does not end.
\<close>

definition server_close :: "('r, 'c) server_env \<Rightarrow> ('r, 'c) server \<Rightarrow> ('r, 'c) server option go" where
  "server_close env s =
     (if fl_initialised (sr_fp s) \<and> \<not> en_ended env ProxyTasks then Ret None
      else
      let (_, fp, pk) = feedproxy_Close (en_prom env) (sr_fp s, sr_pkg s);
          s1 = s\<lparr>sr_fp := fp, sr_pkg := pk\<rparr>
      in case Stop (en_prom env) (en_worker env) (en_checker_ended env) (cm_of s1) of
        None \<Rightarrow> Ret None
      | Some (_, cm) \<Rightarrow>
      let s2 = put_cm cm s1
      in if st_initialised (pk_store (sr_pkg s2)) \<and> \<not> en_ended env StatsTasks then Ret None
      else
      let (_, pk) = stats_Close (en_prom env) (sr_pkg s2);
          s3 = s2\<lparr>sr_pkg := pk\<rparr>
      in case sr_tls s3 of
           None \<Rightarrow> Panic ''close of nil channel''
         | Some tls \<Rightarrow>
             go_bind (stunnel_Close tls) (\<lambda>(_, tls).
               if \<not> en_ended env TlsTask then Ret None
               else
               let s4 = s3\<lparr>sr_tls := Some tls\<rparr>;
                   (_, nt) = nats_Close () (pk_nats (sr_pkg s4))
               in Ret (Some (s4\<lparr>sr_pkg := (sr_pkg s4)\<lparr>pk_nats := nt\<rparr>\<rparr>))))"

text \<open>
  \<open>runServer\<close>; \<open>None\<close> while a listener runs or the shutdown waits. The context is closed by the
  goroutine that waits for SIGTERM, which ends with that, so \<open>wg.Wait\<close> is for the listeners. The two listeners run side by side; what they do to
  the tracker between each other's accepts is in their accept results.
\<close>

definition runServer ::
    "('r, 'c) server_env \<Rightarrow> cli \<Rightarrow> ('r, 'c) server \<Rightarrow> (error \<times> ('r, 'c) server) option go" where
  "runServer env c s =
     go_bind (server_init env c s) (\<lambda>(err, s1).
       if err \<noteq> None then Ret (Some (err, s1))
       else
         let ls = \<lparr>lt_tracker = fl_tracker (sr_fp s1), lt_started = [], lt_dropped = []\<rparr>;
             pre = FeedInContainerPrefix (cli_manager c)
         in go_bind (listenWithContext (cli_listenbeast c) BEAST pre 12345 (en_beast env) ls) (\<lambda>b.
            go_bind (listenWithContext (cli_listenmlat c) MLAT pre 12346 (en_mlat env) ls) (\<lambda>m.
              case (b, m) of
                (Some (True, _), Some (True, _)) \<Rightarrow>
                  let s2 = s1\<lparr>sr_pkg := (sr_pkg s1)\<lparr>pk_store := en_meanwhile env (pk_store (sr_pkg s1))\<rparr>\<rparr>
                  in go_bind (server_close env s2) (\<lambda>closed.
                       case closed of None \<Rightarrow> Ret None | Some s3 \<Rightarrow> Ret (Some (None, s3)))
              | _ \<Rightarrow> Ret None)))"

text \<open>The exit code of \<open>main\<close>, when \<open>runServer\<close> has returned.\<close>

definition exit_code :: "error \<Rightarrow> int" where
  "exit_code err = (if err \<noteq> None then 1 else 0)"

text \<open>
  \<open>main\<close>, with what \<open>app.Run\<close> makes of the command line; \<open>None\<close> is a process that is still running.
  Otherwise there is the exit code, with the state the process has left, or no state (the inner
  \<open>None\<close>) when it ended there and then. That is by a panic, of \<open>runServer\<close> itself or of another
  goroutine, with code 2, or by \<open>log.Fatal\<close> in the goroutine of the web server of the
  statistics, with code 1; \<open>sudden\<close> says, for the address of that server, whether one of the
  other goroutines ends the process and how.
\<close>

datatype sudden_end = WebServerFails | GoroutinePanics

definition bc_main ::
    "('r, 'c) server_env \<Rightarrow> cli_outcome \<Rightarrow> (string \<Rightarrow> sudden_end option) \<Rightarrow> ('r, 'c) server \<Rightarrow>
     (int \<times> ('r, 'c) server option) option" where
  "bc_main env parsed sudden s =
     (case parsed of
        CliError e \<Rightarrow> Some (exit_code (Some e), Some s)
      | CliDone \<Rightarrow> Some (exit_code None, Some s)
      | CliExit n \<Rightarrow> Some (n, Some s)
      | CliAction cliContext \<Rightarrow>
          let c = cli_from cliContext
          in case sudden (cli_listenapi c) of
               Some WebServerFails \<Rightarrow> Some (1, None)
             | Some GoroutinePanics \<Rightarrow> Some (2, None)
             | None \<Rightarrow>
                 (case runServer env c s of
                    Panic msg \<Rightarrow> Some (2, None)
                  | Ret None \<Rightarrow> None
                  | Ret (Some (err, s')) \<Rightarrow> Some (exit_code err, Some s')))"

section \<open>The start, step by step\<close>

definition process_metrics :: "metric set" where
  "process_metrics = own_metrics \<union> {fst promCollectorNumFeeders, metric_current, metric_not_current}"

text \<open>A process that has just started, on a registry that knows none of its metrics.\<close>

definition fresh_server :: "('r \<Rightarrow> metric set) \<Rightarrow> ('r, 'c) server \<Rightarrow> bool" where
  "fresh_server has s \<longleftrightarrow>
     \<not> nt_initialised (pk_nats (sr_pkg s)) \<and> nt_subs (pk_nats (sr_pkg s)) = [] \<and>
     \<not> st_initialised (pk_store (sr_pkg s)) \<and> promCollectors (sr_pkg s) = [] \<and>
     process_metrics \<inter> has (pk_registry (sr_pkg s)) = {} \<and>
     \<not> fl_initialised (sr_fp s) \<and> \<not> cm_initialised (sr_cm s) \<and> sr_tls s = None"

text \<open>The error of the first step that fails, and which subsystems are up then.\<close>

definition nats_error :: "('r, 'c) server_env \<Rightarrow> cli \<Rightarrow> error" where
  "nats_error env c = fst (nats_Init (en_nats env) (nats_conf env c) nats_start)"

definition first_error :: "('r, 'c) server_env \<Rightarrow> cli \<Rightarrow> error" where
  "first_error env c =
     (if nats_error env c \<noteq> None then nats_error env c
      else case en_load env (cli_cert c) (cli_key c) of Inl e \<Rightarrow> Some e
      | Inr _ \<Rightarrow> (case en_url_parse env (cli_atcurl c) of Inl e \<Rightarrow> Some e | Inr _ \<Rightarrow> None))"

definition up_to :: "('r, 'c) server \<Rightarrow> bool \<times> bool \<times> bool \<times> bool" where
  "up_to s = (sr_tls s \<noteq> None, st_initialised (pk_store (sr_pkg s)), fl_initialised (sr_fp s), cm_initialised (sr_cm s))"

lemma nats_Init_error: "fst (nats_Init env conf st) = fst (nats_Init env conf st')"
  by (simp add: nats_Init_def Sub_def Let_def split: sum.split option.split)

lemma feedproxy_Init_bad_url:
  assumes "\<not> fl_initialised fp" "fe_url_parse env (ATCUrl (fe_conf env)) = Inl e"
  shows "\<exists>fp'. feedproxy_Init env (fp, pk) = (Some e, fp', pk) \<and> \<not> fl_initialised fp'"
  using assms by (simp add: feedproxy_Init_def NewClientWithContext_def Let_def)

lemma feedproxy_Init_tracker:
  "\<not> fl_initialised fp \<Longrightarrow> fl_tracker (fst (snd (feedproxy_Init env (fp, pk)))) = new_tracker"
  by (simp add: feedproxy_Init_def Let_def split: prod.split option.split)

lemma metrics_distinct:
  "fst promCollectorNumFeeders \<notin> own_metrics" "metric_current \<notin> own_metrics" "metric_not_current \<notin> own_metrics"
  "fst promCollectorNumFeeders \<noteq> metric_current" "fst promCollectorNumFeeders \<noteq> metric_not_current"
  "metric_current \<noteq> metric_not_current"
  by (auto simp: promCollectorNumFeeders_def metric_current_def metric_not_current_def own_metrics_def global_metrics_def)

text \<open>The start when nothing fails.\<close>

lemma server_init_ok:
  assumes laws: "prom_laws (en_prom env) has" and fresh: "fresh_server has s" and none: "first_error env c = None"
  shows "\<exists>s' tls cs. server_init env c s = Ret (None, s') \<and> up_to s' = (True, True, True, True) \<and>
     sr_tls s' = Some tls \<and> \<not> sv_chan_closed tls \<and> fl_tracker (sr_fp s') = new_tracker \<and>
     promCollectors (sr_pkg s') = cs @ [promCollectorNumFeeders] \<and> fst ` set cs = own_metrics \<and>
     has (pk_registry (sr_pkg s')) = process_metrics \<union> has (pk_registry (sr_pkg s))"
proof -
  obtain nt where nt: "nats_Init (en_nats env) (nats_conf env c) (pk_nats (sr_pkg s)) = (None, nt)"
    using none nats_Init_error[of "en_nats env" "nats_conf env c" "pk_nats (sr_pkg s)" nats_start]
    by (cases "nats_Init (en_nats env) (nats_conf env c) (pk_nats (sr_pkg s))")
       (auto simp: first_error_def nats_error_def split: if_splits)
  obtain cert u where load: "en_load env (cli_cert c) (cli_key c) = Inr cert"
    and url: "en_url_parse env (cli_atcurl c) = Inr u"
    using none by (auto simp: first_error_def split: if_splits sum.splits)
  obtain tls where tls: "NewServerWithContext (en_load env) (cli_cert c) (cli_key c) = Inr tls" "\<not> sv_chan_closed tls"
    using load by (auto simp: NewServerWithContext_def newKeypairReloader_def)
  let ?p1 = "(sr_pkg s)\<lparr>pk_nats := nt\<rparr>"
  have a: "own_metrics \<inter> has (pk_registry ?p1) = {}" "\<not> st_initialised (pk_store ?p1)"
    using fresh by (auto simp: fresh_server_def process_metrics_def)
  have "prom_laws (se_prom (stats_conf env)) has" using laws by (simp add: stats_conf_def)
  from stats_Init_ok[OF this a] obtain cs where cs: "fst ` set cs = own_metrics"
    "fst (stats_Init (stats_conf env) ?p1) = None"
    "promCollectors (snd (stats_Init (stats_conf env) ?p1)) = promCollectors ?p1 @ cs"
    "has (pk_registry (snd (stats_Init (stats_conf env) ?p1))) = own_metrics \<union> has (pk_registry ?p1)"
    by (elim exE conjE) (rule that)
  obtain pk where pk: "stats_Init (stats_conf env) ?p1 = (None, pk)"
    using cs(2) by (cases "stats_Init (stats_conf env) ?p1") auto
  have st: "st_initialised (pk_store pk)"
    using stats_sub.init_ok[of "stats_conf env" ?p1] pk by simp
  have fr: "fst promCollectorNumFeeders \<notin> has (pk_registry pk)"
    using cs(4) fresh metrics_distinct(1) pk by (auto simp: fresh_server_def process_metrics_def)
  obtain fp r' where fp: "feedproxy_Init (fp_conf env c) (sr_fp s, pk) =
      (None, fp, pk\<lparr>promCollectors := promCollectors pk @ [promCollectorNumFeeders], pk_registry := r'\<rparr>)"
    "has r' = insert (fst promCollectorNumFeeders) (has (pk_registry pk))" "fl_initialised fp"
  proof -
    have "prom_laws (fe_prom (fp_conf env c)) has" "\<not> fl_initialised (sr_fp s)"
      "fe_url_parse (fp_conf env c) (ATCUrl (fe_conf (fp_conf env c))) = Inr u"
      using laws fresh url by (simp_all add: fp_conf_def feedproxy_conf_def fresh_server_def)
    from feedproxy_Init_ok[OF this fr] that show thesis by blast
  qed
  have trk: "fl_tracker fp = new_tracker"
    using feedproxy_Init_tracker[of "sr_fp s" "fp_conf env c" pk] fp(1) fresh by (simp add: fresh_server_def)
  let ?s4 = "s\<lparr>sr_tls := Some tls, sr_fp := fp,
    sr_pkg := pk\<lparr>promCollectors := promCollectors pk @ [promCollectorNumFeeders], pk_registry := r'\<rparr>\<rparr>"
  have down: "\<not> cm_initialised (cm_of ?s4)" "metric_current \<notin> has r'" "metric_not_current \<notin> has r'"
    using fresh cs(4) fp(2) metrics_distinct pk by (auto simp: cm_of_def fresh_server_def process_metrics_def)
  obtain cm where cm: "Run (en_prom env) (en_nc_connected env) (env_subscribe (en_nats env)) (cli_manager c) (cm_of ?s4) =
      Ret (None, cm)" "cm_initialised cm"
      "cm_registry cm = snd (pr_register (en_prom env) metric_not_current (snd (pr_register (en_prom env) metric_current r')))"
    using Run_down[OF laws down(1)] down(2,3) by (simp add: cm_of_def)
  have "server_init env c s = Ret (None, put_cm cm ?s4)"
    using cm(1) by (simp add: server_init_def nt tls pk fp)
  moreover have "promCollectors (sr_pkg s) = []" using fresh by (simp add: fresh_server_def)
  moreover have "has (cm_registry cm) = process_metrics \<union> has (pk_registry (sr_pkg s))"
    using cs(4) pk fp(2) by (auto simp: cm(3) prom_lawsD[OF laws] process_metrics_def)
  ultimately show ?thesis
    using st fp(3) cm(2) cs(1,3) pk tls(2) trk
    by (intro exI[of _ "put_cm cm ?s4"] exI[of _ tls] exI[of _ cs]) (simp add: up_to_def put_cm_def)
qed

section \<open>The start and its failures\<close>

lemma server_init_result:
  assumes "prom_laws (en_prom env) has" "fresh_server has s"
  shows "\<exists>s'. server_init env c s = Ret (first_error env c, s') \<and>
     (if nats_error env c \<noteq> None then up_to s' = (False, False, False, False) \<and>
        has (pk_registry (sr_pkg s')) = has (pk_registry (sr_pkg s))
      else case en_load env (cli_cert c) (cli_key c) of
        Inl _ \<Rightarrow> up_to s' = (False, False, False, False) \<and> has (pk_registry (sr_pkg s')) = has (pk_registry (sr_pkg s))
      | Inr _ \<Rightarrow> (case en_url_parse env (cli_atcurl c) of
          Inl _ \<Rightarrow> up_to s' = (True, True, False, False) \<and>
            has (pk_registry (sr_pkg s')) = own_metrics \<union> has (pk_registry (sr_pkg s))
        | Inr _ \<Rightarrow> up_to s' = (True, True, True, True) \<and>
            has (pk_registry (sr_pkg s')) = process_metrics \<union> has (pk_registry (sr_pkg s))))"
proof -
  obtain err nt where nt: "nats_Init (en_nats env) (nats_conf env c) (pk_nats (sr_pkg s)) = (err, nt)"
    "err = nats_error env c"
    using nats_Init_error[of "en_nats env" "nats_conf env c" "pk_nats (sr_pkg s)" nats_start]
    by (cases "nats_Init (en_nats env) (nats_conf env c) (pk_nats (sr_pkg s))") (auto simp: nats_error_def)
  note f = assms(2)[unfolded fresh_server_def]
  consider (nats) "err \<noteq> None" | (cert) e where "err = None" "en_load env (cli_cert c) (cli_key c) = Inl e"
    | (url) cert e where "err = None" "en_load env (cli_cert c) (cli_key c) = Inr cert" "en_url_parse env (cli_atcurl c) = Inl e"
    | (ok) cert u where "err = None" "en_load env (cli_cert c) (cli_key c) = Inr cert" "en_url_parse env (cli_atcurl c) = Inr u"
    by (cases "en_load env (cli_cert c) (cli_key c)"; cases "en_url_parse env (cli_atcurl c)") blast+
  then show ?thesis
  proof cases
    case nats
    with nt f show ?thesis by (simp add: server_init_def first_error_def up_to_def)
  next
    case cert
    with nt f show ?thesis
      by (simp add: server_init_def first_error_def up_to_def NewServerWithContext_def newKeypairReloader_def)
  next
    case url
    let ?p1 = "(sr_pkg s)\<lparr>pk_nats := nt\<rparr>"
    have a: "own_metrics \<inter> has (pk_registry ?p1) = {}" "\<not> st_initialised (pk_store ?p1)"
      using f by (auto simp: process_metrics_def)
    have "prom_laws (se_prom (stats_conf env)) has" using assms(1) by (simp add: stats_conf_def)
    from stats_Init_ok[OF this a] obtain pk where pk: "stats_Init (stats_conf env) ?p1 = (None, pk)"
      "has (pk_registry pk) = own_metrics \<union> has (pk_registry ?p1)"
      by (cases "stats_Init (stats_conf env) ?p1") auto
    have st: "st_initialised (pk_store pk)"
      using stats_sub.init_ok[of "stats_conf env" ?p1] pk by simp
    obtain fp where "feedproxy_Init (fp_conf env c) (sr_fp s, pk) = (Some e, fp, pk)" "\<not> fl_initialised fp"
      using feedproxy_Init_bad_url[of "sr_fp s" "fp_conf env c" e pk] f url by (auto simp: fp_conf_def feedproxy_conf_def)
    with url nt f pk st show ?thesis
      by (simp add: server_init_def first_error_def up_to_def NewServerWithContext_def newKeypairReloader_def)
  next
    case ok
    with nt have none: "first_error env c = None" by (simp add: first_error_def)
    from server_init_ok[OF assms none] none ok nt show ?thesis by auto
  qed
qed

text \<open>
  C26. The start: with Prometheus as documented and a fresh process, \<open>runServer\<close> brings the
  subsystems up in order and stops at the first failure, of the NATS client, of the
  certificate or of the ATC URL, with that error; the subsystems before the failure are left up
  and their metrics registered, those after it are not started.
\<close>
theorem server_init_outcome:
  assumes "prom_laws (en_prom env) has" "fresh_server has s"
  shows "\<exists>s'. server_init env c s = Ret (first_error env c, s') \<and>
     (if nats_error env c \<noteq> None then up_to s' = (False, False, False, False) \<and>
        has (pk_registry (sr_pkg s')) = has (pk_registry (sr_pkg s))
      else case en_load env (cli_cert c) (cli_key c) of
        Inl _ \<Rightarrow> up_to s' = (False, False, False, False) \<and> has (pk_registry (sr_pkg s')) = has (pk_registry (sr_pkg s))
      | Inr _ \<Rightarrow> (case en_url_parse env (cli_atcurl c) of
          Inl _ \<Rightarrow> up_to s' = (True, True, False, False) \<and>
            has (pk_registry (sr_pkg s')) = own_metrics \<union> has (pk_registry (sr_pkg s))
        | Inr _ \<Rightarrow> up_to s' = (True, True, True, True) \<and>
            has (pk_registry (sr_pkg s')) = process_metrics \<union> has (pk_registry (sr_pkg s))))"
  by (rule server_init_result[OF assms])

text \<open>A command line, and surroundings in which everything works.\<close>

definition cli0 :: cli where
  "cli0 = \<lparr>cli_natsurl = ''nats://n:4222'', cli_natsinstance = ''bc1'', cli_cert = ''cert.pem'', cli_key = ''key.pem'', cli_listenapi = '':8080'',
     cli_atcupdatefreq = 1, cli_atcurl = ''http://atc'', cli_atcuser = ''u'', cli_atcpass = ''p'',
     cli_manager = cm_conf, cli_listenbeast = '':'' @ go_itoa 12345, cli_listenmlat = '':'' @ go_itoa 12346,
     cli_verbose = False\<rparr>"

definition closed_round :: listen_round where
  "closed_round = \<lparr>lr_listen = (\<lambda>_. None), lr_up = True, lr_events = [CtxClosed, CloserRuns]\<rparr>"

definition env0 :: "(metric set, nat) server_env" where
  "env0 = \<lparr>en_buildinfo = None, en_startTime = 0,
     en_nats = \<lparr>env_hostname = Inr ''host'', env_connect = (\<lambda>_. None), env_subscribe = (\<lambda>_. None)\<rparr>,
     en_nc_connected = True, en_load = (\<lambda>_ _. Inr 1), en_prom = set_prom, en_url_parse = Inr,
     en_creds = (\<lambda>u p. u @ p), en_beast = [closed_round], en_mlat = [closed_round], en_meanwhile = (\<lambda>st. st),
     en_worker = WStopped, en_checker_ended = True, en_ended = (\<lambda>_. True)\<rparr>"

definition process0 :: "(metric set, nat) server" where
  "process0 = \<lparr>sr_pkg = pkg_start, sr_fp = fp_life_start, sr_cm = cm_start, sr_tls = None\<rparr>"

lemma set_prom_laws: "prom_laws set_prom (\<lambda>r. r)"
  by (simp add: prom_laws_def set_prom_def)

lemma process0_fresh: "fresh_server (\<lambda>r. r) process0"
  by (simp add: fresh_server_def process0_def pkg_start_def fp_life_start_def cm_start_def nats_start_def)

theorem server_init_outcome_witness:
  "\<exists>s'. server_init (env0\<lparr>en_url_parse := \<lambda>u. Inl (ErrExt u)\<rparr>) cli0 process0 = Ret (Some (ErrExt ''http://atc''), s') \<and>
     up_to s' = (True, True, False, False)"
proof -
  have "prom_laws (en_prom (env0\<lparr>en_url_parse := \<lambda>u. Inl (ErrExt u)\<rparr>)) (\<lambda>r. r)"
    using set_prom_laws by (simp add: env0_def)
  from server_init_outcome[OF this process0_fresh, of cli0] show ?thesis
    by (simp add: env0_def cli0_def first_error_def nats_error_def nats_Init_def nats_conf_def Sub_def) blast
qed

section \<open>The whole run\<close>

lemma UnregisterPromCollector_set:
  assumes "UnregisterPromCollector prom c (cs, r) = (e, cs', r')"
  shows "set cs' \<subseteq> set cs \<and> set cs - {c} \<subseteq> set cs'"
proof (cases "find_collector c cs")
  case None
  with assms show ?thesis by (auto simp: UnregisterPromCollector_def split: prod.splits if_splits)
next
  case (Some i)
  let ?t = "take (length cs - 1) (cs[i := cs ! (length cs - 1)])"
  have "mset ?t = mset cs - {#c#}"
    using mset_swap_remove[of i cs] find_collector_Some[OF Some] by simp
  then have mem: "x \<in> set ?t \<longleftrightarrow> x \<in># mset cs - {#c#}" for x
    by (metis set_mset_mset)
  have "set ?t \<subseteq> set cs"
    using mem in_diffD[of _ "mset cs" "{#c#}"] by auto
  moreover have "x \<in> set ?t" if "x \<in> set cs" "x \<noteq> c" for x
    unfolding mem using that by (simp add: in_diff_count count_mset_gt_0)
  moreover from assms Some have "cs' = cs \<or> cs' = ?t"
    by (auto simp: UnregisterPromCollector_def Let_def split: prod.splits if_splits)
  ultimately show ?thesis by blast
qed

text \<open>Whether everything ends that the shutdown waits for.\<close>

definition all_ended :: "('r, 'c) server_env \<Rightarrow> bool" where
  "all_ended env \<longleftrightarrow> en_worker env = WStopped \<and> en_checker_ended env \<and>
     en_ended env ProxyTasks \<and> en_ended env StatsTasks \<and> en_ended env TlsTask"

text \<open>Closing a server that is up on all its parts.\<close>

lemma server_close_up:
  assumes laws: "prom_laws (en_prom env) has"
    and up: "fl_initialised (sr_fp s)" "cm_initialised (sr_cm s)" "st_initialised (pk_store (sr_pkg s))"
    and tls: "sr_tls s = Some tls" "\<not> sv_chan_closed tls"
    and cs: "promCollectors (sr_pkg s) = cs @ [promCollectorNumFeeders]" "fst ` set cs = own_metrics"
  shows "if all_ended env then \<exists>s'. server_close env s = Ret (Some s') \<and> up_to s' = (True, False, False, False) \<and>
     \<not> nt_initialised (pk_nats (sr_pkg s')) \<and> fl_goroutines (sr_fp s') = 0 \<and>
     (\<exists>t. sr_tls s' = Some t \<and> sv_chan_closed t \<and> \<not> sv_goroutine t) \<and>
     has (pk_registry (sr_pkg s')) = has (pk_registry (sr_pkg s)) - process_metrics
   else server_close env s = Ret None"
proof -
  let ?pk = "sr_pkg s"
  obtain e ds r1 where un: "UnregisterPromCollector (en_prom env) promCollectorNumFeeders (promCollectors ?pk, pk_registry ?pk) = (e, ds, r1)"
    using prod_cases3 by blast
  have r1: "has r1 = has (pk_registry ?pk) - {fst promCollectorNumFeeders}"
    using UnregisterPromCollector_registry[of "en_prom env" promCollectorNumFeeders "(promCollectors ?pk, pk_registry ?pk)"]
      un prom_lawsD(3)[OF laws] by simp
  have "promCollectorNumFeeders \<notin> set cs"
    using cs(2) metrics_distinct(1) by (metis image_eqI)
  then have ds: "own_metrics \<subseteq> fst ` set ds" "fst ` set ds \<subseteq> insert (fst promCollectorNumFeeders) own_metrics"
  proof -
    have "set cs \<subseteq> set ds" "set ds \<subseteq> insert promCollectorNumFeeders (set cs)"
      using UnregisterPromCollector_set[OF un] cs(1) \<open>promCollectorNumFeeders \<notin> set cs\<close> by auto
    then show "own_metrics \<subseteq> fst ` set ds" "fst ` set ds \<subseteq> insert (fst promCollectorNumFeeders) own_metrics"
      unfolding cs(2)[symmetric] by blast+
  qed
  let ?fp = "(sr_fp s)\<lparr>fl_goroutines := 0, fl_initialised := False\<rparr>"
  have fp: "feedproxy_Close (en_prom env) (sr_fp s, ?pk) = (None, ?fp, set_proms (ds, r1) ?pk)"
    using up(1) un by (simp add: feedproxy_Close_def)
  let ?s1 = "s\<lparr>sr_fp := ?fp, sr_pkg := set_proms (ds, r1) ?pk\<rparr>"
  have wait: "Stop (en_prom env) (en_worker env) (en_checker_ended env) (cm_of ?s1) = None"
    if "\<not> (en_worker env = WStopped \<and> en_checker_ended env)"
    using up(2) that by (simp add: Stop_waits cm_of_def)
  obtain cm where cm: "Stop (en_prom env) WStopped True (cm_of ?s1) = Some (None, cm)" "\<not> cm_initialised cm"
    "has (cm_registry cm) = has r1 - {metric_current} - {metric_not_current}"
    using up(2) by (simp add: Stop_def cm_of_def set_proms_def Let_def prom_lawsD(3)[OF laws])
  let ?p2 = "set_proms (ds, r1) ?pk\<lparr>pk_registry := cm_registry cm, pk_nats := cm_nats cm\<rparr>"
  obtain pk where pk: "stats_Close (en_prom env) ?p2 = (None, pk)" "\<not> st_initialised (pk_store pk)"
    "pk_registry pk = unregister_all (en_prom env) ds (cm_registry cm)"
    using up(3) by (simp add: stats_Close_def set_proms_def)
  have "has (pk_registry pk) = has (pk_registry ?pk) - process_metrics"
    using ds by (auto simp: pk(3) unregister_all_has[OF laws] cm(3) r1 process_metrics_def)
  moreover have "\<not> nt_initialised (snd (nats_Close () (pk_nats pk)))"
    by (rule nats.close_leaves_down)
  moreover have "st_initialised (pk_store ?p2)" using up(3) by (simp add: set_proms_def)
  ultimately show ?thesis
    using tls cm(2) pk(2) up(1) wait
    by (cases "en_worker env = WStopped \<and> en_checker_ended env")
       (auto simp: server_close_def fp cm(1) pk(1) stunnel_Close_def up_to_def put_cm_def split_def all_ended_def Let_def)
qed

lemma run_ends:
  assumes "prom_laws (en_prom env) has" "fresh_server has s" "first_error env c = None"
    and "listenWithContext (cli_listenbeast c) BEAST (FeedInContainerPrefix (cli_manager c)) 12345 (en_beast env)
           \<lparr>lt_tracker = new_tracker, lt_started = [], lt_dropped = []\<rparr> = Ret (Some (True, lb))"
    and "listenWithContext (cli_listenmlat c) MLAT (FeedInContainerPrefix (cli_manager c)) 12346 (en_mlat env)
           \<lparr>lt_tracker = new_tracker, lt_started = [], lt_dropped = []\<rparr> = Ret (Some (True, lm))"
    and "\<And>st. st_initialised (en_meanwhile env st) = st_initialised st"
  shows "if all_ended env then \<exists>s'. runServer env c s = Ret (Some (None, s')) \<and> up_to s' = (True, False, False, False) \<and>
     \<not> nt_initialised (pk_nats (sr_pkg s')) \<and> fl_goroutines (sr_fp s') = 0 \<and>
     (\<exists>t. sr_tls s' = Some t \<and> sv_chan_closed t \<and> \<not> sv_goroutine t) \<and>
     has (pk_registry (sr_pkg s')) = has (pk_registry (sr_pkg s))
   else runServer env c s = Ret None"
proof -
  obtain s1 tls cs where s1: "server_init env c s = Ret (None, s1)" "up_to s1 = (True, True, True, True)"
    "sr_tls s1 = Some tls" "\<not> sv_chan_closed tls" "fl_tracker (sr_fp s1) = new_tracker"
    "promCollectors (sr_pkg s1) = cs @ [promCollectorNumFeeders]" "fst ` set cs = own_metrics"
    "has (pk_registry (sr_pkg s1)) = process_metrics \<union> has (pk_registry (sr_pkg s))"
    using server_init_ok[OF assms(1-3)] by (elim exE conjE) (rule that)
  let ?s2 = "s1\<lparr>sr_pkg := (sr_pkg s1)\<lparr>pk_store := en_meanwhile env (pk_store (sr_pkg s1))\<rparr>\<rparr>"
  have up: "fl_initialised (sr_fp ?s2)" "cm_initialised (sr_cm ?s2)" "st_initialised (pk_store (sr_pkg ?s2))"
    and tls: "sr_tls ?s2 = Some tls" and cs: "promCollectors (sr_pkg ?s2) = cs @ [promCollectorNumFeeders]"
    using s1(2,3,6) assms(6) by (simp_all add: up_to_def)
  note close = server_close_up[OF assms(1) up tls s1(4) cs s1(7)]
  show ?thesis
  proof (cases "all_ended env")
    case False
    with close show ?thesis by (simp add: runServer_def s1(1,5) assms(4,5) Let_def)
  next
    case True
    with close obtain s' where s': "server_close env ?s2 = Ret (Some s')" "up_to s' = (True, False, False, False)"
      "\<not> nt_initialised (pk_nats (sr_pkg s'))" "fl_goroutines (sr_fp s') = 0"
      "\<exists>t. sr_tls s' = Some t \<and> sv_chan_closed t \<and> \<not> sv_goroutine t"
      "has (pk_registry (sr_pkg s')) = has (pk_registry (sr_pkg ?s2)) - process_metrics"
      by (simp only: if_True) (elim exE conjE, rule that; blast)
    have "runServer env c s = Ret (Some (None, s'))"
      by (simp add: runServer_def s1(1,5) assms(4,5) s'(1) Let_def)
    moreover have "has (pk_registry (sr_pkg s')) = has (pk_registry (sr_pkg s))"
      using s'(6) s1(8) assms(2) by (auto simp: fresh_server_def)
    ultimately show ?thesis using s'(2-5) True by auto
  qed
qed

text \<open>
  C25. How a whole run ends: if the start succeeds and both listeners return after the context
  was closed, then \<open>runServer\<close> returns exactly if every goroutine ends that the packages wait for,
  the container manager's worker and checker among them. It then returns no error, every
  subsystem is down, no goroutine of the proxy or the certificate reloader is left, and
  Prometheus knows exactly the metrics it knew before the process, whatever the connections did
  to the statistics in between. Otherwise it never returns; and this is so in particular
  if the worker has ever been left alone with a response, as in C19.
\<close>
theorem clean_run:
  assumes "prom_laws (en_prom env) has" "fresh_server has s" "first_error env c = None"
    and "listenWithContext (cli_listenbeast c) BEAST (FeedInContainerPrefix (cli_manager c)) 12345 (en_beast env)
           \<lparr>lt_tracker = new_tracker, lt_started = [], lt_dropped = []\<rparr> = Ret (Some (True, lb))"
    and "listenWithContext (cli_listenmlat c) MLAT (FeedInContainerPrefix (cli_manager c)) 12346 (en_mlat env)
           \<lparr>lt_tracker = new_tracker, lt_started = [], lt_dropped = []\<rparr> = Ret (Some (True, lm))"
    and "\<And>st. st_initialised (en_meanwhile env st) = st_initialised st"
  shows "(if en_worker env = WStopped \<and> en_checker_ended env \<and>
        en_ended env ProxyTasks \<and> en_ended env StatsTasks \<and> en_ended env TlsTask
      then \<exists>s'. runServer env c s = Ret (Some (None, s')) \<and> up_to s' = (True, False, False, False) \<and>
         \<not> nt_initialised (pk_nats (sr_pkg s')) \<and> fl_goroutines (sr_fp s') = 0 \<and>
         (\<exists>t. sr_tls s' = Some t \<and> sv_chan_closed t \<and> \<not> sv_goroutine t) \<and>
         has (pk_registry (sr_pkg s')) = has (pk_registry (sr_pkg s))
      else runServer env c s = Ret None) \<and>
     (\<forall>starts p q. start_steps starts p q \<and> abandoned p \<and> en_worker env = ss_worker q \<longrightarrow> runServer env c s = Ret None)"
proof -
  note ends = run_ends[OF assms, unfolded all_ended_def]
  have "runServer env c s = Ret None" if "start_steps starts p q" "abandoned p" "en_worker env = ss_worker q" for starts p q
  proof -
    have "ss_worker q \<noteq> WStopped" using abandoned_steps[OF that(1,2)] that(2) by (auto simp: abandoned_def)
    then show ?thesis using ends that(3) by simp
  qed
  with ends show ?thesis by blast
qed

lemma closed_listener:
  assumes "- (2 ^ 63) \<le> n" "n < 2 ^ 63" "IsValid p"
  shows "listenWithContext ('':'' @ go_itoa n) p pre i [closed_round] ls = Ret (Some (True, ls))"
  using assms NewListener_split[of "[]" n p pre i]
  by (simp add: closed_round_def listener_Run_def GetName_def IsValid_def lr_cancelled_def ended_conns_def split: sum.split)

definition stuck_env :: "(metric set, nat) server_env" where
  "stuck_env = env0\<lparr>en_worker := ss_worker (after_timeout fic0 resp0)\<rparr>"

theorem clean_run_witness:
  "(\<exists>s'. runServer env0 cli0 process0 = Ret (Some (None, s')) \<and>
     up_to s' = (True, False, False, False) \<and> pk_registry (sr_pkg s') = {}) \<and>
   runServer stuck_env cli0 process0 = Ret None"
proof
  let ?ls = "\<lparr>lt_tracker = new_tracker, lt_started = [], lt_dropped = []\<rparr>"
  have env: "env \<in> {env0, stuck_env} \<Longrightarrow> en_prom env = set_prom \<and> first_error env cli0 = None \<and>
      en_beast env = [closed_round] \<and> en_mlat env = [closed_round] \<and> en_meanwhile env = (\<lambda>st. st)" for env
    by (auto simp: env0_def stuck_env_def cli0_def first_error_def nats_error_def nats_Init_def nats_conf_def Sub_def)
  have run: "env \<in> {env0, stuck_env} \<Longrightarrow>
      prom_laws (en_prom env) (\<lambda>r. r) \<and> first_error env cli0 = None \<and>
      listenWithContext (cli_listenbeast cli0) BEAST (FeedInContainerPrefix (cli_manager cli0)) 12345 (en_beast env) ?ls =
        Ret (Some (True, ?ls)) \<and>
      listenWithContext (cli_listenmlat cli0) MLAT (FeedInContainerPrefix (cli_manager cli0)) 12346 (en_mlat env) ?ls =
        Ret (Some (True, ?ls)) \<and> (\<forall>st. st_initialised (en_meanwhile env st) = st_initialised st)" for env
    using env[of env] set_prom_laws closed_listener[of 12345 BEAST] closed_listener[of 12346 MLAT]
    by (simp add: cli0_def IsValid_def)
  note clean = clean_run[OF _ process0_fresh, of env cli0 ?ls ?ls for env]
  show "\<exists>s'. runServer env0 cli0 process0 = Ret (Some (None, s')) \<and>
     up_to s' = (True, False, False, False) \<and> pk_registry (sr_pkg s') = {}"
    using run[of env0] clean[of env0] by (simp add: env0_def process0_def pkg_start_def) blast
  have "abandoned (after_timeout fic0 resp0)" "en_worker stuck_env = ss_worker (after_timeout fic0 resp0)"
    by (auto simp: abandoned_def after_timeout_def start_begin_def stuck_env_def)
  then show "runServer stuck_env cli0 process0 = Ret None"
    using run[of stuck_env] clean[of stuck_env] start_steps.refl[of any_start "after_timeout fic0 resp0"] by blast
qed

section \<open>The exit code\<close>

lemma runServer_returns:
  assumes laws: "prom_laws (en_prom env) has" and fresh: "fresh_server has s" and none: "first_error env c = None"
    and run: "runServer env c s = Ret (Some (err, s'))"
    and k: "\<And>st. st_initialised (en_meanwhile env st) = st_initialised st"
  shows "err = None \<and> up_to s' = (True, False, False, False) \<and>
     has (pk_registry (sr_pkg s')) = has (pk_registry (sr_pkg s))"
proof -
  let ?ls = "\<lparr>lt_tracker = new_tracker, lt_started = [], lt_dropped = []\<rparr>"
  obtain s1 where s1: "server_init env c s = Ret (None, s1)" "fl_tracker (sr_fp s1) = new_tracker"
    using server_init_ok[OF laws fresh none] by blast
  obtain lb where b: "listenWithContext (cli_listenbeast c) BEAST (FeedInContainerPrefix (cli_manager c)) 12345
      (en_beast env) ?ls = Ret lb"
    using run by (cases "listenWithContext (cli_listenbeast c) BEAST (FeedInContainerPrefix (cli_manager c)) 12345
      (en_beast env) ?ls") (simp_all add: runServer_def s1)
  obtain lm where m: "listenWithContext (cli_listenmlat c) MLAT (FeedInContainerPrefix (cli_manager c)) 12346
      (en_mlat env) ?ls = Ret lm"
    using run by (cases "listenWithContext (cli_listenmlat c) MLAT (FeedInContainerPrefix (cli_manager c)) 12346
      (en_mlat env) ?ls") (simp_all add: runServer_def s1 b)
  have "\<exists>l1 l2. lb = Some (True, l1) \<and> lm = Some (True, l2)"
    using run by (auto simp: runServer_def s1 b m split: option.splits prod.splits bool.splits)
  then obtain l1 l2 where l: "lb = Some (True, l1)" "lm = Some (True, l2)" by blast
  note ends = run_ends[OF laws fresh none b[unfolded l] m[unfolded l] k]
  have "all_ended env" using ends run by (cases "all_ended env") simp_all
  then obtain s2 where "runServer env c s = Ret (Some (None, s2))" "up_to s2 = (True, False, False, False)"
    "has (pk_registry (sr_pkg s2)) = has (pk_registry (sr_pkg s))"
    using ends by auto
  with run show ?thesis by simp
qed

text \<open>
  C27. The exit code. A command line without one of the six required flags, unless it asks for help
  or the version, or one that cannot be parsed ends with 1, and a printed help or version with 0,
  all without having touched anything. A process that runs the action has all required flags. It
  ends with 2 exactly by a panic, and with 1 exactly if a subsystem fails to start or the web
  server of the statistics fails, in which case nothing is shut down; and it ends with 0 exactly if
  \<open>runServer\<close> returns after a start in which nothing failed, and then every subsystem is down
  and Prometheus knows what it knew before. There is no other code. A process that does not end
  has started without an error; it serves, or its shutdown waits for ever as in C25.
\<close>
theorem main_exit_code:
  assumes "prom_laws (en_prom env) has" "fresh_server has s"
    and "\<And>st. st_initialised (en_meanwhile env st) = st_initialised st"
    and "parser_laws given help parsed"
  shows "(missing_required given \<noteq> [] \<and> \<not> help \<longrightarrow> bc_main env parsed sudden s = Some (1, Some s)) \<and>
     (case parsed of
        CliError e \<Rightarrow> bc_main env parsed sudden s = Some (1, Some s)
      | CliDone \<Rightarrow> help \<and> bc_main env parsed sudden s = Some (0, Some s)
      | CliExit n \<Rightarrow> help \<and> bc_main env parsed sudden s = Some (n, Some s)
      | CliAction cx \<Rightarrow> missing_required given = [] \<and>
          (let c = cli_from cx; ends = sudden (cli_listenapi c) in
           case bc_main env parsed sudden s of
             None \<Rightarrow> ends = None \<and> first_error env c = None \<and> runServer env c s = Ret None
           | Some (code, final) \<Rightarrow> code \<in> {0, 1, 2} \<and>
               (code = 2 \<longleftrightarrow> ends = Some GoroutinePanics \<or> ends = None \<and> (\<exists>msg. runServer env c s = Panic msg)) \<and>
               (code = 1 \<longleftrightarrow> ends = Some WebServerFails \<or> ends = None \<and> first_error env c \<noteq> None) \<and>
               (code = 0 \<longleftrightarrow> ends = None \<and> first_error env c = None \<and>
                  (\<exists>s'. runServer env c s = Ret (Some (None, s')) \<and> final = Some s' \<and>
                     up_to s' = (True, False, False, False) \<and>
                     has (pk_registry (sr_pkg s')) = has (pk_registry (sr_pkg s)))) \<and>
               (final = None \<longleftrightarrow> ends \<noteq> None \<or> (\<exists>msg. runServer env c s = Panic msg))))"
proof (cases parsed)
  case (CliAction cx)
  define c where "c = cli_from cx"
  have m: "missing_required given = []" "\<not> help" using assms(4) CliAction by (simp_all add: parser_laws_def)
  obtain s1 where init: "server_init env c s = Ret (first_error env c, s1)"
    using server_init_result[OF assms(1,2)] by blast
  show ?thesis
  proof (cases "sudden (cli_listenapi c)")
    case (Some e)
    with CliAction m show ?thesis by (cases e) (simp_all add: bc_main_def flip: c_def)
  next
    case none: None
    show ?thesis
    proof (cases "first_error env c")
      case (Some e)
      with init have "runServer env c s = Ret (Some (Some e, s1))" by (simp add: runServer_def)
      with CliAction m none Some show ?thesis by (simp add: bc_main_def exit_code_def flip: c_def)
    next
      case None
      show ?thesis
      proof (cases "runServer env c s")
        case (Panic msg)
        with CliAction m none None show ?thesis by (simp add: bc_main_def flip: c_def)
      next
        case (Ret r)
        show ?thesis
        proof (cases r)
          case None
          with CliAction m none Ret \<open>first_error env c = None\<close> show ?thesis by (simp add: bc_main_def flip: c_def)
        next
          case (Some es)
          obtain err s' where es: "es = (err, s')" by (cases es)
          from runServer_returns[OF assms(1,2) None _ assms(3), of err s'] Ret Some es have
            "err = None" "up_to s' = (True, False, False, False)" "has (pk_registry (sr_pkg s')) = has (pk_registry (sr_pkg s))"
            by simp_all
          with CliAction m none None Ret Some es show ?thesis by (simp add: bc_main_def exit_code_def flip: c_def)
        qed
      qed
    qed
  qed
qed (use assms(4) in \<open>auto simp: bc_main_def exit_code_def parser_laws_def\<close>)

text \<open>
  Without the certificate nothing starts. With the six required flags and all defaults the server
  runs until its context is closed, and exits with 0, unless the port of the API is taken.
\<close>

lemma digit_texts: "digit (Suc 0) = CHR ''1''" "digit 2 = CHR ''2''" "digit 3 = CHR ''3''" "digit 4 = CHR ''4''"
    "digit 5 = CHR ''5''" "digit 6 = CHR ''6''"
  by code_simp+

lemma default_listen: "cli_listenbeast (cli_from (table_context given_min)) = '':'' @ go_itoa 12345"
    "cli_listenmlat (cli_from (table_context given_min)) = '':'' @ go_itoa 12346"
  by (simp_all add: given_min_defaults go_itoa_def itoa_nat.simps digit_texts)

lemma default_run:
  "first_error env0 (cli_from (table_context given_min)) = None \<and>
   (\<exists>s'. runServer env0 (cli_from (table_context given_min)) process0 = Ret (Some (None, s')))"
proof
  let ?c = "cli_from (table_context given_min)" and ?ls = "\<lparr>lt_tracker = new_tracker, lt_started = [], lt_dropped = []\<rparr>"
  have laws: "prom_laws (en_prom env0) (\<lambda>r. r)" using set_prom_laws by (simp add: env0_def)
  have k: "st_initialised (en_meanwhile env0 st) = st_initialised st" for st by (simp add: env0_def)
  show none: "first_error env0 ?c = None"
    by (simp add: env0_def first_error_def nats_error_def nats_Init_def nats_conf_def Sub_def Let_def)
  have b: "listenWithContext (cli_listenbeast ?c) BEAST (FeedInContainerPrefix (cli_manager ?c)) 12345 (en_beast env0) ?ls =
      Ret (Some (True, ?ls))"
    unfolding default_listen using closed_listener[of 12345 BEAST] by (simp add: env0_def IsValid_def)
  have m: "listenWithContext (cli_listenmlat ?c) MLAT (FeedInContainerPrefix (cli_manager ?c)) 12346 (en_mlat env0) ?ls =
      Ret (Some (True, ?ls))"
    unfolding default_listen using closed_listener[of 12346 MLAT] by (simp add: env0_def IsValid_def)
  have "all_ended env0" by (simp add: all_ended_def env0_def)
  then show "\<exists>s'. runServer env0 ?c process0 = Ret (Some (None, s'))"
    using run_ends[OF laws process0_fresh none b m k] by auto
qed

theorem main_exit_code_witness:
  "bc_main env0 (table_parser (given_min(''cert'' := None)) False) (\<lambda>_. None) process0 = Some (1, Some process0) \<and>
   bc_main env0 (table_parser (given_min(''cert'' := None)) True) (\<lambda>_. None) process0 = Some (0, Some process0) \<and>
   (\<exists>s'. bc_main env0 (table_parser given_min False) (\<lambda>_. None) process0 = Some (0, Some s') \<and>
      up_to s' = (True, False, False, False)) \<and>
   bc_main env0 (table_parser given_min False) (\<lambda>addr. if addr = '':8080'' then Some WebServerFails else None) process0 =
     Some (1, None)"
proof -
  have laws: "prom_laws (en_prom env0) (\<lambda>r. r)" using set_prom_laws by (simp add: env0_def)
  have k: "st_initialised (en_meanwhile env0 st) = st_initialised st" for st by (simp add: env0_def)
  note main = main_exit_code[OF laws process0_fresh k]
  have cert: "bc_main env0 (table_parser (given_min(''cert'' := None)) False) (\<lambda>_. None) process0 = Some (1, Some process0)"
    using main[OF table_parser_laws[OF given_min_ok(4)], of False] given_min_ok(3) by simp
  have asked: "bc_main env0 (table_parser (given_min(''cert'' := None)) True) (\<lambda>_. None) process0 = Some (0, Some process0)"
    by (simp add: bc_main_def table_parser_def exit_code_def)
  obtain s' where run: "first_error env0 (cli_from (table_context given_min)) = None"
    "runServer env0 (cli_from (table_context given_min)) process0 = Ret (Some (None, s'))"
    using default_run by blast
  have p: "table_parser given_min False = CliAction (table_context given_min)"
    by (simp add: table_parser_def given_min_ok(1))
  have ok: "bc_main env0 (table_parser given_min False) (\<lambda>_. None) process0 = Some (0, Some s')"
    using run(2) by (simp add: bc_main_def p Let_def exit_code_def)
  then have "up_to s' = (True, False, False, False)"
    using main[OF table_parser_laws[OF given_min_ok(2)], of False "\<lambda>_. None"] by (simp add: p Let_def)
  moreover have "bc_main env0 (table_parser given_min False) (\<lambda>addr. if addr = '':8080'' then Some WebServerFails else None) process0 =
      Some (1, None)"
    by (simp add: bc_main_def p given_min_defaults Let_def)
  ultimately show ?thesis using cert asked ok by blast
qed

section \<open>The NATS subjects of a running server\<close>

text \<open>The subjects the packages subscribe.\<close>

definition server_subjects :: "string list" where
  "server_subjects = natsSubjPing # initNats_subjects @ [natsSubjFeedInImageRebuild, natsSubjFeederKick]"

lemma Sub_subjects: "set (nt_subs (snd (Sub sub subj st))) \<subseteq> insert subj (set (nt_subs st))"
  by (auto simp: Sub_def split: option.split)

lemma sub_all_subjects: "set (nt_subs (snd (sub_all sub subjs st))) \<subseteq> set subjs \<union> set (nt_subs st)"
proof (induction subjs arbitrary: st)
  case (Cons subj subjs)
  obtain e st1 where st1: "Sub sub subj st = (e, st1)" by (cases "Sub sub subj st")
  then have "set (nt_subs st1) \<subseteq> insert subj (set (nt_subs st))" using Sub_subjects[of sub subj st] by simp
  with st1 Cons[of st1] show ?case by (cases e) auto
qed simp

lemma nats_Init_subjects:
  "set (nt_subs (snd (nats_Init env conf st))) \<subseteq> insert natsSubjPing (set (nt_subs st))"
  using Sub_subjects[of "env_subscribe env" natsSubjPing] by (auto simp: nats_Init_def Sub_def Let_def split: sum.split option.split)

lemma stats_Init_subjects:
  "set (nt_subs (pk_nats (snd (stats_Init env s)))) \<subseteq> set initNats_subjects \<union> set (nt_subs (pk_nats s))"
proof -
  have "set (nt_subs (snd (snd (initNats sub st)))) \<subseteq> set initNats_subjects \<union> set (nt_subs st)" for sub st
    using sub_all_subjects[of sub initNats_subjects st] by (auto simp: initNats_def split: prod.splits option.splits)
  from this[of "se_subscribe env" "pk_nats s"] show ?thesis
    by (auto simp: stats_Init_def set_proms_def Let_def split: prod.split option.split)
qed

lemma containers_initNats_subjects:
  "set (nt_subs (snd (containers_initNats nc sub st))) \<subseteq>
     {natsSubjFeedInImageRebuild, natsSubjFeederKick} \<union> set (nt_subs st)"
  using Sub_subjects[of sub natsSubjFeedInImageRebuild st]
    Sub_subjects[of sub natsSubjFeederKick "snd (Sub sub natsSubjFeedInImageRebuild st)"]
  by (auto simp: containers_initNats_def split: prod.splits option.splits)

lemma feedproxy_Init_nats: "pk_nats (snd (snd (feedproxy_Init env (fp, pk)))) = pk_nats pk"
  by (simp add: feedproxy_Init_def Let_def set_proms_def split: prod.split option.split)

lemma Run_nats:
  "Run prom nc sub conf s = Ret (err, s') \<Longrightarrow>
     set (nt_subs (cm_nats s')) \<subseteq> {natsSubjFeedInImageRebuild, natsSubjFeederKick} \<union> set (nt_subs (cm_nats s))"
  using containers_initNats_subjects[of nc sub "cm_nats s"]
  by (cases "registerPromMetrics prom (cm_registry s)") (auto simp: Run_def Let_def split: prod.splits if_splits)

text \<open>Once the NATS client is up, nothing but the known subjects is added.\<close>

lemma server_init_subjects:
  assumes "server_init env c s = Ret (err, s')"
  shows "set (nt_subs (pk_nats (sr_pkg s'))) \<subseteq> set server_subjects \<union> set (nt_subs (pk_nats (sr_pkg s)))"
proof -
  define e1 where "e1 = fst (nats_Init (en_nats env) (nats_conf env c) (pk_nats (sr_pkg s)))"
  define nt where "nt = snd (nats_Init (en_nats env) (nats_conf env c) (pk_nats (sr_pkg s)))"
  define e2 where "e2 = fst (stats_Init (stats_conf env) ((sr_pkg s)\<lparr>pk_nats := nt\<rparr>))"
  define pk where "pk = snd (stats_Init (stats_conf env) ((sr_pkg s)\<lparr>pk_nats := nt\<rparr>))"
  obtain e3 fp pk' where fp: "feedproxy_Init (fp_conf env c) (sr_fp s, pk) = (e3, fp, pk')"
    using prod_cases3 by blast
  have nt: "nats_Init (en_nats env) (nats_conf env c) (pk_nats (sr_pkg s)) = (e1, nt)"
    and pk: "stats_Init (stats_conf env) ((sr_pkg s)\<lparr>pk_nats := nt\<rparr>) = (e2, pk)"
    by (simp_all add: e1_def nt_def e2_def pk_def)
  have subs: "set (nt_subs nt) \<subseteq> set server_subjects \<union> set (nt_subs (pk_nats (sr_pkg s)))"
    using nats_Init_subjects[of "en_nats env" "nats_conf env c" "pk_nats (sr_pkg s)"]
    by (auto simp: nt_def server_subjects_def)
  have subs_pk: "set (nt_subs (pk_nats pk)) \<subseteq> set server_subjects \<union> set (nt_subs (pk_nats (sr_pkg s)))"
    using stats_Init_subjects[of "stats_conf env" "(sr_pkg s)\<lparr>pk_nats := nt\<rparr>"] subs
    by (auto simp: pk_def server_subjects_def)
  have pk': "pk_nats pk' = pk_nats pk"
    using feedproxy_Init_nats[of "fp_conf env c" "sr_fp s" pk] fp by simp
  let ?s4 = "\<lambda>tls. s\<lparr>sr_tls := Some tls, sr_fp := fp, sr_pkg := pk'\<rparr>"
  have "sr_pkg s' = (sr_pkg s)\<lparr>pk_nats := nt\<rparr> \<or> sr_pkg s' = pk \<or> sr_pkg s' = pk' \<or>
      (\<exists>tls cm. s' = put_cm cm (?s4 tls) \<and>
         Run (en_prom env) (en_nc_connected env) (env_subscribe (en_nats env)) (cli_manager c) (cm_of (?s4 tls)) = Ret (err, cm))"
  proof (cases "NewServerWithContext (en_load env) (cli_cert c) (cli_key c)")
    case (Inl e)
    with assms nt show ?thesis by (auto simp: server_init_def Let_def split: if_splits)
  next
    case (Inr tls)
    show ?thesis
    proof (cases "Run (en_prom env) (en_nc_connected env) (env_subscribe (en_nats env)) (cli_manager c) (cm_of (?s4 tls))")
      case (Panic msg)
      with assms Inr nt pk fp show ?thesis by (auto simp: server_init_def Let_def split: if_splits)
    next
      case (Ret r)
      with assms Inr nt pk fp show ?thesis
        by (cases r) (auto simp: server_init_def Let_def split: if_splits)
    qed
  qed
  then show ?thesis
    using subs subs_pk pk' Run_nats[of "en_prom env" "en_nc_connected env" "env_subscribe (en_nats env)" "cli_manager c"]
    by (fastforce simp: put_cm_def cm_of_def server_subjects_def)
qed

text \<open>
  Reloading the certificate over NATS is not possible: whatever the surroundings answer,
  the subjects a starting server subscribes are the ping, the six of the statistics and the two
  of the container manager; the subject of the certificate reload, for which package
  \<open>stunnel\<close> has a subscription function, is never among them.
\<close>
theorem reload_subject_not_subscribed:
  "case server_init env c (s\<lparr>sr_pkg := (sr_pkg s)\<lparr>pk_nats := nats_start\<rparr>\<rparr>) of
     Panic _ \<Rightarrow> True
   | Ret (err, s') \<Rightarrow> set (nt_subs (pk_nats (sr_pkg s'))) \<subseteq> set server_subjects \<and>
       NatsSubjReloadCertKey \<notin> set (nt_subs (pk_nats (sr_pkg s')))"
proof (cases "server_init env c (s\<lparr>sr_pkg := (sr_pkg s)\<lparr>pk_nats := nats_start\<rparr>\<rparr>)")
  case (Ret es)
  obtain err s' where es: "es = (err, s')" by (cases es)
  have "NatsSubjReloadCertKey \<notin> set server_subjects" by code_simp
  with server_init_subjects[OF Ret[unfolded es]] have "set (nt_subs (pk_nats (sr_pkg s'))) \<subseteq> set server_subjects \<and>
      NatsSubjReloadCertKey \<notin> set (nt_subs (pk_nats (sr_pkg s')))"
    by (auto simp: nats_start_def)
  then show ?thesis by (simp add: Ret es)
qed simp

end
