(* ===== verification/StatsHttp.thy ===== *)
theory StatsHttp
  imports StatsNats
begin

text \<open>
  The web server of the statistics: its routes and the API handlers, \<open>apiReturnSingleFeeder\<close> and \<open>apiReturnAllFeeders\<close> of
  \<open>lib/stats/stats.go\<close>, with the two regular expressions written out as matchers, and the
  data units of the statistics page. A body is kept as the value marshalled. The UUID
  parser is a parameter.
\<close>

section \<open>The regular expressions\<close>

definition lower_hex :: "char \<Rightarrow> bool" where
  "lower_hex c \<longleftrightarrow> is_digit c \<or> c \<in> set ''abcdef''"

text \<open>\<open>[0-9a-f]{n}\<close>, and the rest.\<close>

fun take_hex :: "nat \<Rightarrow> string \<Rightarrow> string option" where
  "take_hex 0 s = Some s"
| "take_hex (Suc n) s = (case s of [] \<Rightarrow> None | c # cs \<Rightarrow> if lower_hex c then take_hex n cs else None)"

fun take_char :: "char \<Rightarrow> string \<Rightarrow> string option" where
  "take_char d [] = None"
| "take_char d (c # cs) = (if c = d then Some cs else None)"

text \<open>The UUID pattern, and the rest of the text after a match at its start.\<close>

definition take_uuid :: "string \<Rightarrow> string option" where
  "take_uuid s =
     Option.bind (take_hex 8 s) (\<lambda>s. Option.bind (take_char CHR ''-'' s) (\<lambda>s.
     Option.bind (take_hex 4 s) (\<lambda>s. Option.bind (take_char CHR ''-'' s) (\<lambda>s.
     Option.bind (take_hex 4 s) (\<lambda>s. Option.bind (take_char CHR ''-'' s) (\<lambda>s.
     Option.bind (take_hex 4 s) (\<lambda>s. Option.bind (take_char CHR ''-'' s) (\<lambda>s.
     take_hex 12 s))))))))"

text \<open>\<open>matchUUID.Find\<close>: the leftmost match; every match has 36 characters.\<close>

fun matchUUID_find :: "string \<Rightarrow> string" where
  "matchUUID_find [] = []"
| "matchUUID_find (c # cs) =
     (if take_uuid (c # cs) \<noteq> None then take 36 (c # cs) else matchUUID_find cs)"

definition feeder_path :: string where
  "feeder_path = ''/api/v1/feeder/''"

definition matchUrlSingleFeeder :: "string \<Rightarrow> bool" where
  "matchUrlSingleFeeder s \<longleftrightarrow>
     take (length feeder_path) s = feeder_path \<and>
     (case take_uuid (drop (length feeder_path) s) of
        None \<Rightarrow> False
      | Some rest \<Rightarrow> rest = [] \<or> rest = ''/'')"

section \<open>The handlers\<close>

record 'd http_response =
  rs_status :: nat
  rs_content_type :: "string option"
  rs_Data :: "'d option"

definition plain_status :: "nat \<Rightarrow> 'd http_response" where
  "plain_status n = \<lparr>rs_status = n, rs_content_type = None, rs_Data = None\<rparr>"

text \<open>Whether \<open>json.Marshal\<close> accepts a feeder: its times are in range.\<close>

definition pd_json_ok :: "ProtocolDetail \<Rightarrow> bool" where
  "pd_json_ok pd \<longleftrightarrow> json_time_ok (pd_MostRecentConnection pd) \<and>
     list_all (\<lambda>c. json_time_ok (cd_TimeConnected c)) (details pd)"

definition feeder_json_ok :: "FeederStats \<Rightarrow> bool" where
  "feeder_json_ok f \<longleftrightarrow> json_time_ok (fs_TimeUpdated f) \<and>
     (case fs_Connections f of None \<Rightarrow> True | Some m \<Rightarrow> list_all (\<lambda>(p, pd). pd_json_ok pd) m)"

definition apiReturnAllFeeders :: "Statistics \<Rightarrow> (uuid, FeederStats) gomap http_response" where
  "apiReturnAllFeeders s =
     (if \<not> list_all (\<lambda>(k, f). feeder_json_ok f) (Feeders s) then plain_status 500
      else \<lparr>rs_status = 200, rs_content_type = Some ''application/json'', rs_Data = Some (Feeders s)\<rparr>)"

definition apiReturnSingleFeeder ::
    "(string \<Rightarrow> go_err + uuid) \<Rightarrow> Statistics \<Rightarrow> string \<Rightarrow> FeederStats http_response" where
  "apiReturnSingleFeeder parseUUID s path =
     (if matchUrlSingleFeeder (to_lower path) then
        (case parseUUID (matchUUID_find (to_lower path)) of
           Inl e \<Rightarrow> plain_status 400
         | Inr clientApiKey \<Rightarrow>
             (case gm_get (Feeders s) clientApiKey of
                None \<Rightarrow> plain_status 400
              | Some val \<Rightarrow>
                  if \<not> feeder_json_ok val then plain_status 500
                  else \<lparr>rs_status = 200, rs_content_type = Some ''application/json'', rs_Data = Some val\<rparr>))
      else plain_status 400)"

section \<open>The routes\<close>

text \<open>
  The \<open>ServeMux\<close> of \<open>Init\<close>: the path is cleaned as \<open>path.Clean\<close> does it, keeping a final slash; a
  path that is not clean, or that lacks the slash of a registered subtree, is redirected; then a
  pattern equal to the path, or else the longest registered subtree it lies in, is served.
\<close>

fun clean_elems :: "string list \<Rightarrow> string list \<Rightarrow> string list" where
  "clean_elems acc [] = rev acc"
| "clean_elems acc (e # es) =
     (if e = [] \<or> e = ''.'' then clean_elems acc es
      else if e = ''..'' then clean_elems (tl acc) es
      else clean_elems (e # acc) es)"

definition clean_path :: "string \<Rightarrow> string" where
  "clean_path p =
     (let es = clean_elems [] (go_split CHR ''/'' p); np = CHR ''/'' # go_join CHR ''/'' es
      in if p \<noteq> [] \<and> last p = CHR ''/'' \<and> es \<noteq> [] then np @ ''/'' else np)"

definition mux_patterns :: "string list" where
  "mux_patterns = [''/'', feeder_path, ''/api/v1/feeders/'', ''/metrics'', ''/metrics/'']"

definition mux_match :: "string \<Rightarrow> string" where
  "mux_match path =
     (if path \<in> set mux_patterns then path
      else foldl (\<lambda>best pat.
             if last pat = CHR ''/'' \<and> take (length pat) path = pat \<and> length pat > length best then pat else best)
           [] mux_patterns)"

datatype http_reply =
    StatsPage
  | PromMetrics
  | RedirectTo string
  | SingleFeeder "FeederStats http_response"
  | AllFeeders "(uuid, FeederStats) gomap http_response"
  | NotFound

definition serve_path :: "(string \<Rightarrow> go_err + uuid) \<Rightarrow> Statistics \<Rightarrow> string \<Rightarrow> http_reply" where
  "serve_path parseUUID s url =
     (let path = clean_path url
      in if path \<notin> set mux_patterns \<and> path @ ''/'' \<in> set mux_patterns then RedirectTo (path @ ''/'')
         else if path \<noteq> url then RedirectTo path
         else let pat = mux_match path
         in if pat = ''/'' then StatsPage
            else if pat = feeder_path then SingleFeeder (apiReturnSingleFeeder parseUUID s path)
            else if pat = ''/api/v1/feeders/'' then AllFeeders (apiReturnAllFeeders s)
            else if pat = ''/metrics'' \<or> pat = ''/metrics/'' then PromMetrics
            else NotFound)"

section \<open>Data units of the statistics page\<close>

text \<open>The prefix \<open>humanReadableDataUnits\<close> settles on, and the divisor that goes with it.\<close>

definition humanReadable_prefix :: "u64 \<Rightarrow> char" where
  "humanReadable_prefix n =
     (let prefix = CHR '' '';
          prefix = (if n > 1024 then CHR ''K'' else prefix);
          prefix = (if n > 1048576 then CHR ''M'' else prefix);
          prefix = (if n > 1073741824 then CHR ''G'' else prefix);
          prefix = (if n > 1099511627776 then CHR ''T'' else prefix)
      in prefix)"

definition humanReadable_divisor :: "char \<Rightarrow> nat" where
  "humanReadable_divisor c =
     (if c = CHR ''K'' then 1024 else if c = CHR ''M'' then 1024 * 1024
      else if c = CHR ''G'' then 1024 * 1024 * 1024
      else if c = CHR ''T'' then 1024 * 1024 * 1024 * 1024 else 1)"

section \<open>Lemmas\<close>

lemma take_hex_length: "take_hex n s = Some r \<Longrightarrow> \<exists>h. s = h @ r \<and> length h = n \<and> list_all lower_hex h"
proof (induction n arbitrary: s)
  case (Suc n)
  then obtain c cs where s: "s = c # cs" "lower_hex c" "take_hex n cs = Some r"
    by (auto split: list.splits if_splits)
  from Suc.IH[OF s(3)] obtain h where "cs = h @ r" "length h = n" "list_all lower_hex h" by blast
  with s show ?case by (intro exI[of _ "c # h"]) simp
qed simp

lemma take_char_some: "take_char d s = Some r \<longleftrightarrow> s = d # r"
  by (cases s) auto

text \<open>Every match of the UUID pattern is 36 characters, hexadecimal digits and dashes.\<close>

lemma take_uuid_length:
  assumes "take_uuid s = Some r"
  shows "\<exists>u. s = u @ r \<and> length u = 36 \<and> list_all (\<lambda>c. lower_hex c \<or> c = CHR ''-'') u"
proof -
  from assms obtain s1 s2 s3 s4 s5 s6 s7 s8 where
    "take_hex 8 s = Some s1" "take_char CHR ''-'' s1 = Some s2"
    "take_hex 4 s2 = Some s3" "take_char CHR ''-'' s3 = Some s4"
    "take_hex 4 s4 = Some s5" "take_char CHR ''-'' s5 = Some s6"
    "take_hex 4 s6 = Some s7" "take_char CHR ''-'' s7 = Some s8" "take_hex 12 s8 = Some r"
    unfolding take_uuid_def bind_eq_Some_conv by blast
  moreover from this obtain h1 h2 h3 h4 h5 where
    "s = h1 @ s1" "length h1 = 8" "list_all lower_hex h1"
    "s2 = h2 @ s3" "length h2 = 4" "list_all lower_hex h2"
    "s4 = h3 @ s5" "length h3 = 4" "list_all lower_hex h3"
    "s6 = h4 @ s7" "length h4 = 4" "list_all lower_hex h4"
    "s8 = h5 @ r" "length h5 = 12" "list_all lower_hex h5"
    using take_hex_length by meson
  ultimately show ?thesis
    by (intro exI[of _ "h1 @ ''-'' @ h2 @ ''-'' @ h3 @ ''-'' @ h4 @ ''-'' @ h5"])
       (auto simp: take_char_some list_all_iff)
qed

lemma take_uuid_hex_head:
  assumes "take_uuid s = Some r"
  shows "list_all lower_hex (take 8 s) \<and> 8 \<le> length s"
proof -
  from assms obtain s1 where "take_hex 8 s = Some s1"
    unfolding take_uuid_def bind_eq_Some_conv by blast
  from take_hex_length[OF this] show ?thesis by auto
qed

text \<open>No match begins inside the path's fixed part: eight digits would have to cover a slash.\<close>

lemma find_in_path:
  assumes "take_uuid u = Some r"
  shows "matchUUID_find (feeder_path @ u) = take 36 u"
proof -
  have no: "take_uuid (drop i feeder_path @ u) = None" if "i < length feeder_path" for i
  proof (rule ccontr)
    assume "take_uuid (drop i feeder_path @ u) \<noteq> None"
    then obtain y where "take_uuid (drop i feeder_path @ u) = Some y" by blast
    then have "list_all lower_hex (take 8 (drop i feeder_path @ u))"
      using take_uuid_hex_head by blast
    moreover have "\<exists>c \<in> set (take 8 (drop i feeder_path @ u)). \<not> lower_hex c"
    proof -
      have "list_all (\<lambda>i. list_ex (\<lambda>c. \<not> lower_hex c) (take 8 (drop i feeder_path))) [0..<length feeder_path]"
        by code_simp
      then have "list_ex (\<lambda>c. \<not> lower_hex c) (take 8 (drop i feeder_path))"
        using that by (auto simp: list_all_iff)
      then show ?thesis by (auto simp: list_ex_iff)
    qed
    ultimately show False by (auto simp: list_all_iff)
  qed
  have step: "matchUUID_find (drop i feeder_path @ u) = matchUUID_find (drop (Suc i) feeder_path @ u)"
    if "i < length feeder_path" for i
    using no[OF that] that by (simp add: Cons_nth_drop_Suc[symmetric])
  have "matchUUID_find (drop i feeder_path @ u) = matchUUID_find u" if "i \<le> length feeder_path" for i
    using that
  proof (induction "length feeder_path - i" arbitrary: i)
    case (Suc n)
    then show ?case using step[of i] Suc.hyps(1)[of "Suc i"] by simp
  qed simp
  from this[of 0] have "matchUUID_find (feeder_path @ u) = matchUUID_find u" by simp
  also have "\<dots> = take 36 u"
    using assms take_uuid_hex_head[OF assms] by (cases u) auto
  finally show ?thesis .
qed

lemma single_feeder_lookup:
  assumes "to_lower path = feeder_path @ u @ slash" "take_uuid u = Some []" "slash \<in> {[], ''/''}"
    "parseUUID u = Inr k"
  shows "apiReturnSingleFeeder parseUUID s path =
     (case gm_get (Feeders s) k of
        None \<Rightarrow> plain_status 400
      | Some f \<Rightarrow> if feeder_json_ok f
                  then \<lparr>rs_status = 200, rs_content_type = Some ''application/json'', rs_Data = Some f\<rparr>
                  else plain_status 500)"
proof -
  have hex_app: "take_hex n (s @ t) = Some (r @ t)" if "take_hex n s = Some r" for n s r t
    using that by (induction n arbitrary: s) (auto split: list.splits if_splits)
  have chr_app: "take_char d (s @ t) = Some (r @ t)" if "take_char d s = Some r" for d s r t
    using that by (simp add: take_char_some)
  have app: "take_uuid (u @ slash) = Some slash"
  proof -
    from assms(2) obtain s1 s2 s3 s4 s5 s6 s7 s8 where
      h: "take_hex 8 u = Some s1" "take_hex 4 s2 = Some s3" "take_hex 4 s4 = Some s5"
        "take_hex 4 s6 = Some s7" "take_hex 12 s8 = Some []"
      and c: "take_char CHR ''-'' s1 = Some s2" "take_char CHR ''-'' s3 = Some s4"
        "take_char CHR ''-'' s5 = Some s6" "take_char CHR ''-'' s7 = Some s8"
      unfolding take_uuid_def bind_eq_Some_conv by blast
    from h[THEN hex_app] c[THEN chr_app] show ?thesis
      unfolding take_uuid_def by simp
  qed
  have "matchUrlSingleFeeder (to_lower path)"
    using app assms(3) by (auto simp: matchUrlSingleFeeder_def assms(1))
  moreover have "matchUUID_find (to_lower path) = u"
    using find_in_path[OF app] take_uuid_length[OF assms(2)] by (auto simp: assms(1))
  ultimately show ?thesis
    using assms(4) by (simp add: apiReturnSingleFeeder_def split: option.split)
qed

lemma humanReadable_bounds:
  "humanReadable_prefix n \<noteq> CHR '' '' \<Longrightarrow>
   humanReadable_divisor (humanReadable_prefix n) < unat n"
  by (auto simp: humanReadable_prefix_def humanReadable_divisor_def word_less_nat_alt Let_def
      split: if_splits)

section \<open>A request, from its path to the reply\<close>

lemma clean_feeder_path:
  assumes "CHR ''/'' \<notin> set u" "2 < length u" "slash \<in> {[], ''/''}"
  shows "clean_path (feeder_path @ u @ slash) = feeder_path @ u @ slash"
proof -
  have ne: "u \<noteq> []" "u \<noteq> ''.''" "u \<noteq> ''..''" using assms(2) by auto
  have l: "u \<noteq> [] \<Longrightarrow> last u \<noteq> CHR ''/''" using assms(1) last_in_set[of u] by metis
  have "go_split CHR ''/'' (u @ slash) = (if slash = [] then [u] else [u, []])"
    using assms(1,3) go_split_append[OF assms(1), of "[]"] by (auto simp: go_split_single)
  then have "go_split CHR ''/'' (feeder_path @ u @ slash) =
      [[], ''api'', ''v1'', ''feeder'', u] @ (if slash = [] then [] else [[]])"
    by (simp add: feeder_path_def)
  then show ?thesis
    using assms(3) ne l by (auto simp: clean_path_def feeder_path_def)
qed

lemma mux_match_feeder:
  assumes "u \<noteq> []" shows "mux_match (feeder_path @ u) = feeder_path"
  using assms by (auto simp: mux_match_def mux_patterns_def feeder_path_def)

lemma mux_match_feeder_only:
  assumes "mux_match path = feeder_path" shows "take (length feeder_path) path = feeder_path"
  using assms by (auto simp: mux_match_def mux_patterns_def feeder_path_def split: if_splits)

text \<open>
  C35. The single-feeder endpoint, from the URL to the reply: a path \<open>/api/v1/feeder/\<close> and a UUID,
  written in any case and with or without a trailing slash, is answered with the statistics of
  exactly the feeder of that key: 200 with its JSON, 400 if it is not known, 500 if a time of it
  cannot be marshalled. Only paths that begin with \<open>/api/v1/feeder/\<close> in lower case get there at
  all: the handler would match the fixed part in any case, but the multiplexer does not, and
  gives any other spelling the statistics page or a redirect. The README promises an
  object with the keys Data and Error, the error's details in the latter; the code's object
  has Data only, and an error is the bare status with no body.
\<close>
theorem single_feeder_route:
  assumes "ascii u" "take_uuid (to_lower u) = Some []" "slash \<in> {[], ''/''}" "parseUUID (to_lower u) = Inr k"
  shows "serve_path parseUUID s (feeder_path @ u @ slash) = SingleFeeder
     (case gm_get (Feeders s) k of
        None \<Rightarrow> plain_status 400
      | Some f \<Rightarrow> if feeder_json_ok f
                  then \<lparr>rs_status = 200, rs_content_type = Some ''application/json'', rs_Data = Some f\<rparr>
                  else plain_status 500) \<and>
     (serve_path parseUUID s other = SingleFeeder r \<longrightarrow> take (length feeder_path) other = feeder_path)"
proof (intro conjI impI)
  have low: "to_lower u = map lower_byte u" by (rule to_lower_ascii[OF assms(1)])
  obtain v where v: "to_lower u = v" "length v = 36" "list_all (\<lambda>c. lower_hex c \<or> c = CHR ''-'') v"
    using take_uuid_length[OF assms(2)] by auto
  have len: "length u = 36" using v(1,2) low by (metis length_map)
  have "CHR ''/'' \<notin> set u"
  proof
    assume "CHR ''/'' \<in> set u"
    then have "lower_byte CHR ''/'' \<in> set v" using v(1) low by (metis image_eqI list.set_map)
    moreover have "lower_byte CHR ''/'' = CHR ''/''" by code_simp
    moreover have "\<not> lower_hex CHR ''/''" by code_simp
    ultimately show False using v(3) by (auto simp: list_all_iff)
  qed
  from clean_feeder_path[OF this _ assms(3)] len
  have clean: "clean_path (feeder_path @ u @ slash) = feeder_path @ u @ slash" by simp
  have ne: "u @ slash \<noteq> []" using len by auto
  have "ascii (feeder_path @ u @ slash)" using assms(1,3) by (auto simp: ascii_def feeder_path_def)
  then have "to_lower (feeder_path @ u @ slash) = map lower_byte feeder_path @ to_lower u @ map lower_byte slash"
    by (simp add: to_lower_ascii low)
  moreover have "map lower_byte feeder_path = feeder_path" by code_simp
  moreover have "map lower_byte slash = slash" using assms(3) by auto code_simp
  ultimately have tl: "to_lower (feeder_path @ u @ slash) = feeder_path @ to_lower u @ slash" by simp
  have "path_slash \<notin> set mux_patterns" if "path_slash = (feeder_path @ u @ slash) @ ''/''" for path_slash
    using that len by (auto simp: mux_patterns_def feeder_path_def)
  then show "serve_path parseUUID s (feeder_path @ u @ slash) = SingleFeeder
     (case gm_get (Feeders s) k of
        None \<Rightarrow> plain_status 400
      | Some f \<Rightarrow> if feeder_json_ok f
                  then \<lparr>rs_status = 200, rs_content_type = Some ''application/json'', rs_Data = Some f\<rparr>
                  else plain_status 500)"
    using clean mux_match_feeder[OF ne] single_feeder_lookup[of "feeder_path @ u @ slash" "to_lower u" slash parseUUID k s]
      tl assms(2-4)
    by (simp add: serve_path_def Let_def) (simp add: feeder_path_def)
next
  assume "serve_path parseUUID s other = SingleFeeder r"
  then have "mux_match other = feeder_path"
    by (auto simp: serve_path_def Let_def split: if_splits)
  then show "take (length feeder_path) other = feeder_path" by (rule mux_match_feeder_only)
qed

theorem single_feeder_route_witness:
  "serve_path (\<lambda>t. if t = ''abcdef00-0000-0000-0000-000000000007'' then Inr 7 else Inl ErrSyntax)
      two_connections ''/api/v1/feeder/ABCDEF00-0000-0000-0000-000000000007/'' =
     SingleFeeder (case gm_get (Feeders two_connections) 7 of
        None \<Rightarrow> plain_status 400
      | Some f \<Rightarrow> if feeder_json_ok f
                  then \<lparr>rs_status = 200, rs_content_type = Some ''application/json'', rs_Data = Some f\<rparr>
                  else plain_status 500) \<and>
   serve_path (\<lambda>t. Inr 7) two_connections ''/API/v1/feeder/ABCDEF00-0000-0000-0000-000000000007/'' = StatsPage"
proof -
  have u: "ascii ''ABCDEF00-0000-0000-0000-000000000007''"
    "to_lower ''ABCDEF00-0000-0000-0000-000000000007'' = ''abcdef00-0000-0000-0000-000000000007''"
    "take_uuid (to_lower ''ABCDEF00-0000-0000-0000-000000000007'') = Some []" by code_simp+
  have path: "''/api/v1/feeder/ABCDEF00-0000-0000-0000-000000000007/'' =
      feeder_path @ ''ABCDEF00-0000-0000-0000-000000000007'' @ ''/''" by (simp add: feeder_path_def)
  have "serve_path (\<lambda>t. Inr 7) two_connections ''/API/v1/feeder/ABCDEF00-0000-0000-0000-000000000007/'' = StatsPage"
    by (simp add: serve_path_def clean_path_def mux_patterns_def mux_match_def feeder_path_def)
  with single_feeder_route[OF u(1,3), of "''/''"
      "\<lambda>t. if t = ''abcdef00-0000-0000-0000-000000000007'' then Inr 7 else Inl ErrSyntax" 7 two_connections]
  show ?thesis unfolding path u(2) by simp
qed


end
