(* ===== verification/StatsRace.thy ===== *)
theory StatsRace
  imports StatsSpec
begin

text \<open>
  The statistics store under interleaving. \<open>RegisterFeeder\<close>, \<open>RegisterConnection\<close> and
  \<open>UnregisterConnection\<close> each take the store's lock twice: \<open>initFeederStats\<close> locks for itself
  and releases, then the rest of the operation locks again. The step relation runs the two
  halves of any number of such calls in any order, with the operations that lock once
  (\<open>IncrementByteCounters\<close>, the evictor) between them. A panic in one goroutine ends the
  process.
\<close>

datatype half =
    HFeeder FeederDetails
  | HRegister Connection time
  | HUnregister Connection

fun half_key :: "half \<Rightarrow> uuid" where
  "half_key (HFeeder f) = fd_ApiKey f"
| "half_key (HRegister conn connected) = cn_ApiKey conn"
| "half_key (HUnregister conn) = cn_ApiKey conn"

text \<open>The guard of the operation before its first lock.\<close>

fun half_valid :: "half \<Rightarrow> bool" where
  "half_valid (HFeeder f) = True"
| "half_valid (HRegister conn connected) = IsValid (cn_Proto conn)"
| "half_valid (HUnregister conn) = IsValid (cn_Proto conn)"

fun run_half :: "half \<Rightarrow> time \<Rightarrow> Statistics \<Rightarrow> Statistics go" where
  "run_half (HFeeder f) now s = Ret (RegisterFeeder_locked f now s)"
| "run_half (HRegister conn connected) now s = RegisterConnection_locked conn connected now s"
| "run_half (HUnregister conn) now s =
     go_bind (UnregisterConnection_locked conn now s) (\<lambda>(e, s'). Ret s')"

text \<open>The store and the calls that have run \<open>initFeederStats\<close> and not yet the rest.\<close>

datatype race = Up Statistics "half list" | Crashed string

definition up :: "Statistics \<Rightarrow> stats_state" where
  "up s = started\<lparr>stats := s\<rparr>"

inductive race_step :: "race \<Rightarrow> race \<Rightarrow> bool" where
  enter: "half_valid h \<Longrightarrow> race_step (Up s hs) (Up (initFeederStats (half_key h) s) (h # hs))"
| finish: "run_half h now s = Ret s' \<Longrightarrow> race_step (Up s (xs @ h # ys)) (Up s' (xs @ ys))"
| crash: "run_half h now s = Panic m \<Longrightarrow> race_step (Up s (xs @ h # ys)) (Crashed m)"
| count: "IncrementByteCounters k n p bIn bOut now (up s) = Ret (e, st') \<Longrightarrow>
    race_step (Up s hs) (Up (stats st') hs)"
| count_crash: "IncrementByteCounters k n p bIn bOut now (up s) = Panic m \<Longrightarrow>
    race_step (Up s hs) (Crashed m)"
| evict: "race_step (Up s hs) (Up (statsEvictorInner clk s) hs)"

inductive race_reach :: "race \<Rightarrow> bool" where
  start: "race_reach (Up stats_init [])"
| step: "race_reach x \<Longrightarrow> race_step x y \<Longrightarrow> race_reach y"

section \<open>What interleaving keeps\<close>

text \<open>
  A stored feeder is well-formed or has a nil \<open>Connections\<close> map (written by a registration
  of a feeder whose entry was removed between its two halves).
\<close>

definition weak_stats :: "Statistics \<Rightarrow> bool" where
  "weak_stats s \<longleftrightarrow> gm_wf (Feeders s) \<and>
     (\<forall>k f. gm_get (Feeders s) k = Some f \<longrightarrow> fs_Connections f = None \<or> wf_feeder f)"

lemma weak_stats_init: "weak_stats stats_init"
  by (simp add: weak_stats_def stats_init_def)

lemma weak_put: "weak_stats s \<Longrightarrow> fs_Connections f = None \<or> wf_feeder f \<Longrightarrow> weak_stats (put_feeder k f s)"
  by (simp add: weak_stats_def)

lemma weak_del: "weak_stats s \<Longrightarrow> weak_stats (s\<lparr>Feeders := gm_del k (Feeders s)\<rparr>)"
  by (simp add: weak_stats_def)

lemma weak_get: "weak_stats s \<Longrightarrow> fs_Connections (get_feeder s k) = None \<or> wf_feeder (get_feeder s k)"
  by (cases "gm_get (Feeders s) k") (simp_all add: weak_stats_def get_feeder_def)

lemma weak_add_global [simp]: "weak_stats (add_global p a b s) = weak_stats s"
  by (simp add: weak_stats_def)

lemma weak_initFeederStats: "weak_stats s \<Longrightarrow> weak_stats (initFeederStats k s)"
  by (simp add: initFeederStats_eq weak_put wf_fresh_feeder split: option.split)

lemma no_connections [simp]: "fs_Connections f = None \<Longrightarrow> get_pd f p = zero_ProtocolDetail"
  by (simp add: get_pd_def)

lemma get_feeder_present: "gm_get (Feeders s) k = Some f \<Longrightarrow> get_feeder s k = f"
  by (simp add: get_feeder_def)

lemma weak_RegisterFeeder: "weak_stats s \<Longrightarrow> weak_stats (RegisterFeeder_locked f now s)"
  using weak_get[of s "fd_ApiKey f"] by (simp add: RegisterFeeder_locked_def Let_def weak_put)

lemma RegisterConnection_no_map:
  "fs_Connections (get_feeder s (cn_ApiKey conn)) = None \<Longrightarrow>
   RegisterConnection_locked conn connected now s = Panic ''assignment to entry in nil map''"
  by (simp add: RegisterConnection_locked_def Let_def set_detail_def)

lemma RegisterConnection_weak:
  assumes w: "weak_stats s" and v: "IsValid (cn_Proto conn)"
    and c: "fs_Connections (get_feeder s (cn_ApiKey conn)) \<noteq> None"
  shows "\<exists>s'. RegisterConnection_locked conn connected now s = Ret s' \<and> weak_stats s'"
proof -
  have wf: "wf_feeder (get_feeder s (cn_ApiKey conn))" using weak_get[OF w, of "cn_ApiKey conn"] c by simp
  obtain dm where dm: "pd_ConnectionDetails (get_pd (get_feeder s (cn_ApiKey conn)) (cn_Proto conn)) = Some dm"
      "gm_wf dm"
    using wf_feeder_pdE[OF wf v] by metis
  show ?thesis
    using weak_put[OF w] wf_with_pd[OF wf v wf_register_pd[OF dm(2)]]
    by (simp add: RegisterConnection_locked_eq[OF wf v dm(1)])
qed

lemma UnregisterConnection_weak:
  assumes w: "weak_stats s" and v: "IsValid (cn_Proto conn)"
  shows "\<exists>e s'. UnregisterConnection_locked conn now s = Ret (e, s') \<and> weak_stats s'"
proof (cases "lookup_conn s (cn_ApiKey conn) (cn_Proto conn) (cn_ConnNum conn)")
  case None
  then show ?thesis using UnregisterConnection_locked_missing w by blast
next
  case (Some d)
  let ?f = "get_feeder s (cn_ApiKey conn)"
  have wf: "wf_feeder ?f"
    using weak_get[OF w, of "cn_ApiKey conn"] Some by (auto simp: lookup_conn_def)
  obtain dm where dm: "pd_ConnectionDetails (get_pd ?f (cn_Proto conn)) = Some dm" "gm_wf dm"
    using wf_feeder_pdE[OF wf v] by metis
  have found: "gm_get dm (cn_ConnNum conn) = Some d" using Some by (simp add: lookup_conn_def dm(1))
  have "weak_stats (put_feeder (cn_ApiKey conn) ((with_pd ?f (cn_Proto conn)
      (unregistered_pd (get_pd ?f (cn_Proto conn)) (cn_ConnNum conn) dm))\<lparr>fs_TimeUpdated := now\<rparr>) s)"
    using wf_with_pd[OF wf v wf_unregistered_pd[OF dm(2)]] by (simp add: weak_put[OF w])
  with weak_del[OF this, of "cn_ApiKey conn"] show ?thesis
    using UnregisterConnection_locked_eq[OF wf refl refl dm(1) found refl, of now] by simp
qed

lemma IncrementByteCounters_weak:
  assumes w: "weak_stats (stats st)"
  shows "\<exists>e st'. IncrementByteCounters k n p bIn bOut now st = Ret (e, st') \<and> weak_stats (stats st')"
proof (cases "lookup_conn (stats st) k p n")
  case None
  then show ?thesis
    using w by (auto simp: IncrementByteCounters_def lookup_conn_def get_feeder_def get_pd_def
        split: option.splits)
next
  case (Some c)
  let ?s = "stats st"
  obtain f where f: "gm_get (Feeders ?s) k = Some f"
    using Some by (cases "gm_get (Feeders ?s) k") (simp_all add: lookup_conn_def get_feeder_def)
  note gf = get_feeder_present[OF f]
  have wf: "wf_feeder f" using weak_get[OF w, of k] Some by (auto simp: lookup_conn_def gf)
  obtain m where m: "fs_Connections f = Some m" "\<And>p. gm_get m p \<noteq> None \<longleftrightarrow> IsValid p"
    using wf_feederE[OF wf] by metis
  obtain pd where pd: "gm_get m p = Some pd"
    using Some m(1) by (cases "gm_get m p") (simp_all add: lookup_conn_def gf get_pd_def)
  then have gp: "get_pd f p = pd" by (simp add: get_pd_def m(1))
  have v: "IsValid p" using m(2)[of p] pd by simp
  obtain dm where dm: "pd_ConnectionDetails pd = Some dm" "gm_wf dm"
      "pd_ConnectionCount pd = int (gm_len dm)" "pd_Status pd = (gm_len dm > 0)"
    using wf_feeder_pdE[OF wf v] unfolding gp by metis
  have c: "gm_get dm n = Some c" using Some by (simp add: lookup_conn_def gf gp dm(1))
  obtain nm where nm: "Name p = Ret nm" using v by auto
  let ?pd = "pd\<lparr>pd_ConnectionDetails := Some (gm_put n (incremented bIn bOut c) dm)\<rparr>"
  have len: "gm_len (gm_put n (incremented bIn bOut c) dm) = gm_len dm"
    using gm.len_put[OF dm(2)] c by simp
  have "wf_feeder (with_pd f p ?pd)"
    using wf_with_pd[OF wf v, of ?pd] dm len by (simp add: wf_pd_def)
  then show ?thesis
    using set_detail_eq[of ?s k p dm n "incremented bIn bOut c"] wf dm(1) gf gp w
    by (simp add: IncrementByteCounters_def f m(1) pd c nm Let_def weak_put flip: incremented_def)
qed

lemma weak_evict: "weak_stats s \<Longrightarrow> weak_stats (statsEvictorInner clk s)"
proof -
  have "weak_stats t \<Longrightarrow> weak_stats (foldl (\<lambda>s u. s\<lparr>Feeders := gm_del u (Feeders s)\<rparr>) t us)" for t us
    by (induction us arbitrary: t) (simp_all add: weak_del)
  then show "weak_stats s \<Longrightarrow> weak_stats (statsEvictorInner clk s)"
    by (simp add: statsEvictorInner_def)
qed

lemma run_half_weak:
  assumes "weak_stats s" "half_valid h" "run_half h now s = Ret s'"
  shows "weak_stats s'"
proof (cases h)
  case (HRegister conn connected)
  have c: "fs_Connections (get_feeder s (cn_ApiKey conn)) \<noteq> None"
    using assms(3) RegisterConnection_no_map[of s conn connected now] by (auto simp: HRegister)
  obtain s2 where "RegisterConnection_locked conn connected now s = Ret s2" "weak_stats s2"
    using RegisterConnection_weak[OF assms(1) _ c] assms(2) unfolding HRegister half_valid.simps by blast
  with assms(3) show ?thesis by (simp add: HRegister)
next
  case (HUnregister conn)
  obtain e s2 where "UnregisterConnection_locked conn now s = Ret (e, s2)" "weak_stats s2"
    using UnregisterConnection_weak[OF assms(1)] assms(2) unfolding HUnregister half_valid.simps by blast
  with assms(3) show ?thesis by (simp add: HUnregister)
qed (use assms weak_RegisterFeeder in auto)

fun store_race_inv :: "race \<Rightarrow> bool" where
  "store_race_inv (Up s hs) = (weak_stats s \<and> (\<forall>h \<in> set hs. half_valid h))"
| "store_race_inv (Crashed m) = True"

lemma race_step_inv: "race_step x y \<Longrightarrow> store_race_inv x \<Longrightarrow> store_race_inv y"
proof (induction rule: race_step.induct)
  case (finish h now s s' xs ys)
  then have "weak_stats s'" using run_half_weak[of s h now s'] by simp
  with finish.prems show ?case by simp
next
  case (count k n p bIn bOut now s e st' hs)
  with IncrementByteCounters_weak[of "up s" k n p bIn bOut now] show ?case by (simp add: up_def)
qed (simp_all add: weak_initFeederStats weak_evict)

lemma race_reach_inv: "race_reach x \<Longrightarrow> store_race_inv x"
  by (induction rule: race_reach.induct) (simp_all add: weak_stats_init race_step_inv)

lemma run_half_returns:
  assumes "weak_stats s" "half_valid h"
  shows "returns (run_half h now s) \<longleftrightarrow>
      (case h of HRegister conn connected \<Rightarrow> fs_Connections (get_feeder s (half_key h)) \<noteq> None
               | _ \<Rightarrow> True)"
proof (cases h)
  case (HRegister conn connected)
  have "IsValid (cn_Proto conn)" using assms(2) unfolding HRegister half_valid.simps .
  with RegisterConnection_weak[OF assms(1), of conn connected now]
    RegisterConnection_no_map[of s conn connected now] show ?thesis
    unfolding HRegister returns_iff
    by (cases "fs_Connections (get_feeder s (cn_ApiKey conn))") auto
next
  case (HUnregister conn)
  obtain e s2 where "UnregisterConnection_locked conn now s = Ret (e, s2)"
    using UnregisterConnection_weak[OF assms(1)] assms(2) unfolding HUnregister half_valid.simps by blast
  then show ?thesis by (simp add: HUnregister)
qed simp

text \<open>
  C14. The only panic is a registration into a missing map: in every reachable state of the
  interleaved store, counting bytes never panics, no pending feeder registration and no
  pending removal panics, and a pending connection registration panics if and only if the
  store holds no connection map for its feeder at that moment (the feeder's entry, made in
  the first half, was removed before the second).
\<close>
theorem race_panics_only_in_register:
  assumes "race_reach (Up s hs)" "h \<in> set hs"
  shows "returns (IncrementByteCounters k n p bIn bOut now (up s)) \<and>
     (returns (run_half h now s) \<longleftrightarrow>
        (case h of HRegister conn connected \<Rightarrow> fs_Connections (get_feeder s (half_key h)) \<noteq> None
                 | _ \<Rightarrow> True))"
proof -
  have w: "weak_stats s" "half_valid h" using race_reach_inv[OF assms(1)] assms(2) by simp_all
  have "returns (IncrementByteCounters k n p bIn bOut now (up s))"
    using IncrementByteCounters_weak[of "up s" k n p bIn bOut now] w(1)
    by (auto simp: returns_iff up_def)
  then show ?thesis using run_half_returns[OF w] by blast
qed

section \<open>The panic is reachable\<close>

text \<open>
  One feeder with an MLAT connection that disconnects while its BEAST connection is being
  registered: the removal deletes the feeder's entry between the two halves.
\<close>

definition mlat_conn :: Connection where
  "mlat_conn = conn_of ''10.0.0.1:100'' ''10.0.0.2:200'' ''YPPH-0001'' (7, MLAT, 1)"

definition beast_conn :: Connection where
  "beast_conn = conn_of ''10.0.0.1:101'' ''10.0.0.2:201'' ''YPPH-0001'' (7, BEAST, 2)"

definition with_mlat :: Statistics where
  "with_mlat = (case RegisterConnection_locked mlat_conn 1 1 (initFeederStats 7 stats_init) of
                  Ret s \<Rightarrow> s | Panic m \<Rightarrow> stats_init)"

definition mlat_removed :: Statistics where
  "mlat_removed = (case UnregisterConnection_locked mlat_conn 2 with_mlat of
                  Ret (e, s) \<Rightarrow> s | Panic m \<Rightarrow> stats_init)"

lemma with_mlat_run: "RegisterConnection_locked mlat_conn 1 1 (initFeederStats 7 stats_init) = Ret with_mlat"
  by code_simp

lemma mlat_removed_run: "UnregisterConnection_locked mlat_conn 2 with_mlat = Ret (None, mlat_removed)"
  by code_simp

lemma mlat_removed_no_feeder: "gm_get (Feeders mlat_removed) 7 = None"
  by code_simp

lemma with_mlat_init [simp]: "initFeederStats 7 with_mlat = with_mlat"
  by code_simp

lemma conn_keys [simp]: "cn_ApiKey mlat_conn = 7" "cn_ApiKey beast_conn = 7"
  "cn_Proto mlat_conn = MLAT" "cn_Proto beast_conn = BEAST"
  by (simp_all add: mlat_conn_def beast_conn_def conn_of_def)

lemma reach_pending: "race_reach (Up with_mlat [HRegister beast_conn 3])"
proof -
  have "race_reach (Up (initFeederStats 7 stats_init) [HRegister mlat_conn 1])"
    using race_step.enter[of "HRegister mlat_conn 1" stats_init "[]"] race_reach.intros by simp
  then have "race_reach (Up with_mlat [])"
    using race_step.finish[of "HRegister mlat_conn 1" 1 "initFeederStats 7 stats_init" with_mlat "[]" "[]"]
      with_mlat_run race_reach.step by simp
  then show ?thesis
    using race_step.enter[of "HRegister beast_conn 3" with_mlat "[]"] race_reach.step by simp
qed

lemma reach_removed: "race_reach (Up mlat_removed [HRegister beast_conn 3])"
proof -
  have "race_reach (Up with_mlat [HUnregister mlat_conn, HRegister beast_conn 3])"
    using race_step.enter[of "HUnregister mlat_conn" with_mlat "[HRegister beast_conn 3]"]
      reach_pending race_reach.step by simp
  then show ?thesis
    using race_step.finish[of "HUnregister mlat_conn" 2 with_mlat mlat_removed "[]" "[HRegister beast_conn 3]"]
      mlat_removed_run race_reach.step by simp
qed

text \<open>
  A disconnection can crash the server: there is an interleaving of one feeder's calls
  (its MLAT connection is registered, the registration of its BEAST connection makes sure
  that the feeder's entry exists, the removal of the MLAT connection runs and deletes the
  entry, the registration goes on) that ends in a panic, the assignment to a nil map.
\<close>
theorem register_unregister_race_crashes:
  "race_reach (Up with_mlat [HRegister beast_conn 3]) \<and>
   UnregisterConnection_locked mlat_conn 2 with_mlat = Ret (None, mlat_removed) \<and>
   race_reach (Up mlat_removed [HRegister beast_conn 3]) \<and>
   race_reach (Crashed ''assignment to entry in nil map'')"
proof -
  have "run_half (HRegister beast_conn 3) 4 mlat_removed = Panic ''assignment to entry in nil map''"
    using RegisterConnection_no_map[of mlat_removed beast_conn 3 4] mlat_removed_no_feeder
    by (simp add: get_feeder_def)
  then have "race_reach (Crashed ''assignment to entry in nil map'')"
    using race_step.crash[of "HRegister beast_conn 3" 4 mlat_removed _ "[]" "[]"]
      reach_removed race_reach.step by simp
  then show ?thesis using reach_pending reach_removed mlat_removed_run by simp
qed

theorem race_panics_only_in_register_witness:
  "returns (IncrementByteCounters 7 1 MLAT 10 20 4 (up mlat_removed)) \<and>
     (returns (run_half (HRegister beast_conn 3) 4 mlat_removed) \<longleftrightarrow>
        (case HRegister beast_conn 3 of
           HRegister conn connected \<Rightarrow> fs_Connections (get_feeder mlat_removed (half_key (HRegister beast_conn 3))) \<noteq> None
         | _ \<Rightarrow> True)) \<and> \<not> returns (run_half (HRegister beast_conn 3) 4 mlat_removed)"
  using race_panics_only_in_register[OF reach_removed, of "HRegister beast_conn 3" 7 1 MLAT 10 20 4]
    mlat_removed_no_feeder
  by (simp add: get_feeder_def)

text \<open>
  The evictor does not clean up: on every store that the operations can produce when
  they do not interleave, a run of the evictor changes nothing, whatever the clock says and
  however long ago the feeder was updated, because \<open>initFeederStats\<close> gives every feeder its
  two protocol entries and the evictor waits for a feeder without any.
\<close>
theorem evictor_never_evicts:
  "\<exists>es st'. stats_run ops started = Ret (es, st') \<and> statsEvictorInner clk (stats st') = stats st'"
  by (rule started_run[of ops]) (auto simp: statsEvictorInner_wf)

text \<open>
  A removal that finds nothing leaves an entry behind: for a feeder the store does not
  know, \<open>UnregisterConnection\<close> reports that the connection number was not found and has
  added an entry for the feeder, which stays through any number of evictor runs.
\<close>
theorem failed_unregister_leaves_entry:
  assumes "st_initialised st" "wf_stats (stats st)" "IsValid (cn_Proto conn)"
    "gm_get (Feeders (stats st)) (cn_ApiKey conn) = None"
  shows "\<exists>st'. UnregisterConnection conn now st = Ret (Some ErrConnNumNotFound, st') \<and>
     gm_get (Feeders (stats st')) (cn_ApiKey conn) \<noteq> None \<and>
     gm_len (Feeders (stats st')) = Suc (gm_len (Feeders (stats st))) \<and>
     statsEvictorInner clk (stats st') = stats st'"
proof -
  let ?s1 = "initFeederStats (cn_ApiKey conn) (stats st)"
  obtain nm where nm: "GetName (cn_Proto conn) = Inr nm"
    using assms(3) GetName_Inr_iff by metis
  have "lookup_conn ?s1 (cn_ApiKey conn) (cn_Proto conn) (cn_ConnNum conn) = None"
    using assms(4) by (simp add: lookup_conn_def[of "stats st"] get_feeder_def)
  from UnregisterConnection_locked_missing[OF this, of now] nm assms(1)
  have "\<exists>st'. UnregisterConnection conn now st = Ret (Some ErrConnNumNotFound, st') \<and> stats st' = ?s1"
    by (simp add: UnregisterConnection_def Let_def)
  moreover have "gm_get (Feeders ?s1) (cn_ApiKey conn) \<noteq> None" "gm_len (Feeders ?s1) = Suc (gm_len (Feeders (stats st)))"
    using assms(2,4) gm.len_put[of "Feeders (stats st)"] by (simp_all add: initFeederStats_eq wf_stats_def)
  moreover have "statsEvictorInner clk ?s1 = ?s1"
    using statsEvictorInner_wf[OF wf_initFeederStats[OF assms(2)]] .
  ultimately show ?thesis by auto
qed

theorem failed_unregister_leaves_entry_witness:
  "\<exists>st'. UnregisterConnection mlat_conn 2 started = Ret (Some ErrConnNumNotFound, st') \<and>
     gm_get (Feeders (stats st')) (cn_ApiKey mlat_conn) \<noteq> None \<and>
     gm_len (Feeders (stats st')) = Suc (gm_len (Feeders (stats started))) \<and>
     statsEvictorInner (\<lambda>_. 100 * minute) (stats st') = stats st'"
  by (rule failed_unregister_leaves_entry, simp, simp, simp, simp add: started_def stats_init_def)

end
