(* ===== verification/StatsConc.thy ===== *)
theory StatsConc
  imports StatsRace
begin

text \<open>
  The statistics store under concurrency, in full: every interleaving of the two-lock operations
  of \<open>lib/stats/stats.go\<close> that does not end in the panic of theory \<open>StatsRace\<close> is linearizable. The
  relation below is the one of that theory with a log: an operation is entered into the log, with
  whether it succeeded, when it leaves its last lock. The theorem runs the log on the sequential
  registry of theory \<open>StatsSpec\<close>.

  Also here: the loop of the evictor, what a run of it removes from any reachable store, and the
  entry without maps that a removal can leave behind.
\<close>

section \<open>The effect of each operation on a store of the interleaved system\<close>

lemma weak_put_feeder_del [simp]: "lookup_conn (s\<lparr>Feeders := gm_del k (Feeders s)\<rparr>) k' p n =
    (if k' = k then None else lookup_conn s k' p n)"
  by (simp add: lookup_conn_def get_feeder_def)

lemma lookup_add_global [simp]: "lookup_conn (add_global p a b s) = lookup_conn s"
  by (simp add: fun_eq_iff lookup_conn_def get_feeder_def)

text \<open>A well-formed feeder whose two counts are zero has no connection.\<close>

lemma wf_feeder_counts_zero:
  assumes "wf_feeder f" "pd_ConnectionCount (get_pd f BEAST) = 0" "pd_ConnectionCount (get_pd f MLAT) = 0"
  shows "nil_get (pd_ConnectionDetails (get_pd f p)) n = None"
proof (cases "IsValid p")
  case True
  obtain dm where dm: "pd_ConnectionDetails (get_pd f p) = Some dm" "gm_wf dm"
    "pd_ConnectionCount (get_pd f p) = int (gm_len dm)"
    using wf_feeder_pdE[OF assms(1) True] by metis
  have "pd_ConnectionCount (get_pd f p) = 0" using True assms(2,3) by auto
  then have "gm_len dm = 0" using dm(3) by simp
  then show ?thesis using gm.len_0[OF dm(2)] dm(1) by simp
next
  case False
  obtain m where "fs_Connections f = Some m" "gm_get m p = None"
    using wf_feederE[OF assms(1)] False by metis
  then show ?thesis by (simp add: get_pd_def)
qed

lemma lookup_valid_weak: "weak_stats s \<Longrightarrow> lookup_conn s k p n \<noteq> None \<Longrightarrow> IsValid p \<and> wf_feeder (get_feeder s k)"
proof -
  assume w: "weak_stats s" and l: "lookup_conn s k p n \<noteq> None"
  have wf: "wf_feeder (get_feeder s k)" using weak_get[OF w, of k] l by (auto simp: lookup_conn_def)
  obtain m where m: "fs_Connections (get_feeder s k) = Some m" "\<And>p. gm_get m p \<noteq> None \<longleftrightarrow> IsValid p"
    using wf_feederE[OF wf] by metis
  have "gm_get m p \<noteq> None" using l by (auto simp: lookup_conn_def get_pd_def m(1) get_or_def split: option.splits)
  with m(2) wf show ?thesis by blast
qed

lemma RegisterConnection_weak_effect:
  assumes w: "weak_stats s" and v: "IsValid (cn_Proto conn)"
    and run: "RegisterConnection_locked conn connected now s = Ret s'"
  shows "lookup_conn s' = reg_set (cn_ApiKey conn) (cn_Proto conn) (cn_ConnNum conn)
      (Some (fresh_detail conn connected)) (lookup_conn s) \<and> global_bytes s' = global_bytes s"
proof -
  have c: "fs_Connections (get_feeder s (cn_ApiKey conn)) \<noteq> None"
    using run RegisterConnection_no_map[of s conn connected now] by auto
  have wf: "wf_feeder (get_feeder s (cn_ApiKey conn))" using weak_get[OF w, of "cn_ApiKey conn"] c by simp
  obtain dm where dm: "pd_ConnectionDetails (get_pd (get_feeder s (cn_ApiKey conn)) (cn_Proto conn)) = Some dm"
      "gm_wf dm"
    using wf_feeder_pdE[OF wf v] by metis
  note s' = run[unfolded RegisterConnection_locked_eq[OF wf v dm(1)], simplified, symmetric]
  have "lookup_conn s' k p n = reg_set (cn_ApiKey conn) (cn_Proto conn) (cn_ConnNum conn)
      (Some (fresh_detail conn connected)) (lookup_conn s) k p n" for k p n
    by (simp add: s' lookup_put_feeder get_pd_with_pd[OF wf] reg_set_def) (simp add: lookup_conn_def dm(1))
  moreover have "global_bytes s' p = global_bytes s p" for p
    by (rule global_bytes_cong) (simp_all add: s')
  ultimately show ?thesis by (simp add: fun_eq_iff)
qed

lemma UnregisterConnection_weak_effect:
  assumes w: "weak_stats s" and v: "IsValid (cn_Proto conn)"
    and run: "UnregisterConnection_locked conn now s = Ret (e, s')"
  shows "(e = None, lookup_conn s') = spec_step (OpUnregister conn now) (lookup_conn s) \<and>
     global_bytes s' = global_bytes s"
proof (cases "lookup_conn s (cn_ApiKey conn) (cn_Proto conn) (cn_ConnNum conn)")
  case None
  with UnregisterConnection_locked_missing[OF None, of now] run show ?thesis by auto
next
  case (Some d)
  let ?k = "cn_ApiKey conn" and ?p = "cn_Proto conn" and ?n = "cn_ConnNum conn"
  let ?f = "get_feeder s ?k"
  have wf: "wf_feeder ?f" using lookup_valid_weak[OF w] Some by blast
  obtain dm where dm: "pd_ConnectionDetails (get_pd ?f ?p) = Some dm" "gm_wf dm"
    using wf_feeder_pdE[OF wf v] by metis
  have found: "gm_get dm ?n = Some d" using Some by (simp add: lookup_conn_def dm(1))
  define f2 where "f2 = (with_pd ?f ?p (unregistered_pd (get_pd ?f ?p) ?n dm))\<lparr>fs_TimeUpdated := now\<rparr>"
  define s2 where "s2 = put_feeder ?k f2 s"
  have wf2: "wf_feeder f2"
    using wf_with_pd[OF wf v wf_unregistered_pd[OF dm(2)]] by (simp add: f2_def)
  have l2: "lookup_conn s2 = reg_set ?k ?p ?n None (lookup_conn s)"
  proof -
    have "lookup_conn s2 k p n = reg_set ?k ?p ?n None (lookup_conn s) k p n" for k p n
      by (simp add: s2_def f2_def lookup_put_feeder get_pd_with_pd[OF wf] unregistered_pd_def reg_set_def)
         (simp add: lookup_conn_def dm(1))
    then show ?thesis by (simp add: fun_eq_iff)
  qed
  let ?gone = "pd_ConnectionCount (get_pd f2 BEAST) = 0 \<and> pd_ConnectionCount (get_pd f2 MLAT) = 0"
  have s': "e = None" "s' = (if ?gone then s2\<lparr>Feeders := gm_del ?k (Feeders s2)\<rparr> else s2)"
    using UnregisterConnection_locked_eq[OF wf refl refl dm(1) found refl, of now] run
    by (simp_all add: s2_def f2_def)
  have "lookup_conn s' = lookup_conn s2"
  proof (cases ?gone)
    case True
    then have "lookup_conn s2 ?k p n = None" for p n
      using wf_feeder_counts_zero[OF wf2, of p n] by (simp add: s2_def lookup_conn_def)
    then show ?thesis using True by (simp add: s'(2) fun_eq_iff)
  qed (simp only: s'(2) if_False)
  moreover have "global_bytes s' p = global_bytes s p" for p
    by (rule global_bytes_cong) (simp_all add: s'(2) s2_def)
  ultimately show ?thesis using Some s'(1) l2 by (simp add: fun_eq_iff)
qed

lemma IncrementByteCounters_weak_effect:
  assumes w: "weak_stats (stats st)" and run: "IncrementByteCounters k n p bIn bOut now st = Ret (e, st')"
  shows "(e = None, lookup_conn (stats st')) = spec_step (OpIncrement k n p bIn bOut now) (lookup_conn (stats st)) \<and>
     (\<forall>q. IsValid q \<longrightarrow> global_bytes (stats st') q =
        (if e = None \<and> q = p then (fst (global_bytes (stats st) q) + bIn, snd (global_bytes (stats st) q) + bOut)
         else global_bytes (stats st) q))"
proof (cases "lookup_conn (stats st) k p n")
  case None
  have "e \<noteq> None \<and> st' = st"
    using None run by (auto simp: IncrementByteCounters_def lookup_conn_def get_feeder_def get_pd_def
        split: option.splits)
  then show ?thesis unfolding spec_step.simps None by (elim conjE) (simp del: not_None_eq)
next
  case (Some c)
  let ?s = "stats st" and ?f = "get_feeder (stats st) k"
  have v: "IsValid p" and wf: "wf_feeder ?f" using lookup_valid_weak[OF w] Some by blast+
  obtain f where f: "gm_get (Feeders ?s) k = Some f"
    using Some by (cases "gm_get (Feeders ?s) k") (simp_all add: lookup_conn_def get_feeder_def)
  note gf = get_feeder_present[OF f]
  obtain m dm where m: "fs_Connections f = Some m" "gm_get m p = Some (get_pd f p)"
    and dm: "pd_ConnectionDetails (get_pd f p) = Some dm"
    using wf_feeder_pdE[OF wf v] unfolding gf by metis
  have c: "gm_get dm n = Some c" using Some by (simp add: lookup_conn_def gf dm)
  obtain nm where nm: "Name p = Ret nm" using v by auto
  let ?pd = "(get_pd f p)\<lparr>pd_ConnectionDetails := Some (gm_put n (incremented bIn bOut c) dm)\<rparr>"
  let ?s1 = "put_feeder k (with_pd f p ?pd) ?s"
  have "set_detail k p n (incremented bIn bOut c) ?s = Ret ?s1"
    using set_detail_eq[of ?s k p dm n "incremented bIn bOut c"] wf dm by (simp add: gf)
  then have s': "e = None"
    "stats st' = put_feeder k ((with_pd f p ?pd)\<lparr>fs_TimeUpdated := now\<rparr>) (add_global p bIn bOut ?s1)"
    using run by (auto simp: IncrementByteCounters_def f m dm c nm Let_def simp flip: incremented_def)
  have "lookup_conn (stats st') k' p' n' = reg_set k p n (Some (incremented bIn bOut c)) (lookup_conn ?s) k' p' n'"
    for k' p' n'
    by (simp add: s'(2) lookup_put_feeder get_pd_with_pd[OF wf[unfolded gf]] reg_set_def)
       (simp add: lookup_conn_def gf dm)
  moreover have "global_bytes (stats st') q = global_bytes (add_global p bIn bOut ?s) q" for q
    by (rule global_bytes_cong) (simp_all add: s'(2) add_global_def)
  ultimately show ?thesis using Some s'(1) by (simp add: fun_eq_iff global_bytes_add_global)
qed

lemma RegisterFeeder_weak_effect:
  "lookup_conn (RegisterFeeder_locked f now s) = lookup_conn s \<and>
   global_bytes (RegisterFeeder_locked f now s) = global_bytes s"
proof -
  have "lookup_conn (RegisterFeeder_locked f now s) k p n = lookup_conn s k p n" for k p n
    unfolding RegisterFeeder_locked_def Let_def lookup_put_feeder by (simp add: lookup_conn_def)
  moreover have "global_bytes (RegisterFeeder_locked f now s) p = global_bytes s p" for p
    by (rule global_bytes_cong) (simp_all add: RegisterFeeder_locked_def Let_def)
  ultimately show ?thesis by (simp add: fun_eq_iff)
qed

section \<open>The evictor\<close>

lemma gm_keys_iff: "k \<in> set (gm_keys m) \<longleftrightarrow> gm_get m k \<noteq> None"
  by (induction m) (auto simp: gm_defs)

lemma Feeders_delete_all:
  "gm_get (Feeders (foldl (\<lambda>s u. s\<lparr>Feeders := gm_del u (Feeders s)\<rparr>) s us)) k =
     (if k \<in> set us then None else gm_get (Feeders s) k)"
  by (induction us arbitrary: s) auto

lemma globals_delete_all:
  "global_bytes (foldl (\<lambda>s u. s\<lparr>Feeders := gm_del u (Feeders s)\<rparr>) s us) = global_bytes s"
proof -
  have "global_bytes (s\<lparr>Feeders := m\<rparr>) = global_bytes s" for s m
    using global_bytes_cong[of "s\<lparr>Feeders := m\<rparr>" s] by (simp add: fun_eq_iff)
  then show ?thesis by (induction us arbitrary: s) simp_all
qed

lemma evictor_entry:
  "gm_get (Feeders (statsEvictorInner clk s)) k =
     (case gm_get (Feeders s) k of
        None \<Rightarrow> None
      | Some f \<Rightarrow> if nil_len (fs_Connections f) = 0 \<and> clk k - fs_TimeUpdated f > second * 60 then None else Some f)"
  by (cases "gm_get (Feeders s) k")
     (simp_all add: statsEvictorInner_def Let_def Feeders_delete_all gm_keys_iff get_feeder_def)

lemma weak_no_conns_iff:
  "weak_stats s \<Longrightarrow> gm_get (Feeders s) k = Some f \<Longrightarrow> nil_len (fs_Connections f) = 0 \<longleftrightarrow> fs_Connections f = None"
  using wf_feeder_conns_nonempty[of f] unfolding weak_stats_def by fastforce

lemma evictor_weak_effect:
  assumes "weak_stats s"
  shows "lookup_conn (statsEvictorInner clk s) = lookup_conn s \<and>
     global_bytes (statsEvictorInner clk s) = global_bytes s"
proof -
  have "lookup_conn (statsEvictorInner clk s) k p n = lookup_conn s k p n" for k p n
  proof (cases "gm_get (Feeders s) k")
    case (Some f)
    then show ?thesis
      using weak_no_conns_iff[OF assms Some] by (simp add: lookup_conn_def get_feeder_def evictor_entry)
  qed (simp add: lookup_conn_def get_feeder_def evictor_entry)
  then show ?thesis
    using globals_delete_all by (simp add: fun_eq_iff statsEvictorInner_def Let_def)
qed

text \<open>
  \<open>statsEvictor\<close>: a wait ends with the context (\<open>None\<close>) or with the timer, and then the evictor
  runs, with its clock readings; what the other goroutines do until the next wait ends comes
  with it.
\<close>

fun statsEvictor :: "((uuid \<Rightarrow> time) \<times> (Statistics \<Rightarrow> Statistics)) option list \<Rightarrow> Statistics \<Rightarrow> bool \<times> Statistics" where
  "statsEvictor [] s = (False, s)"
| "statsEvictor (None # ws) s = (True, s)"
| "statsEvictor (Some (clk, others) # ws) s = statsEvictor ws (others (statsEvictorInner clk s))"

section \<open>The interleaved system with a log\<close>

text \<open>One step, and the operations that left their last lock in it, with whether they succeeded.\<close>

inductive log_step :: "Statistics \<Rightarrow> half list \<Rightarrow> (stats_op \<times> bool) list \<Rightarrow> Statistics \<Rightarrow> half list \<Rightarrow> bool" where
  enter: "half_valid h \<Longrightarrow> log_step s hs [] (initFeederStats (half_key h) s) (h # hs)"
| feeder: "log_step s (xs @ HFeeder f # ys) [(OpRegisterFeeder f now, True)] (RegisterFeeder_locked f now s) (xs @ ys)"
| register: "RegisterConnection_locked conn connected now s = Ret s' \<Longrightarrow>
    log_step s (xs @ HRegister conn connected # ys) [(OpRegister conn connected now, True)] s' (xs @ ys)"
| unregister: "UnregisterConnection_locked conn now s = Ret (e, s') \<Longrightarrow>
    log_step s (xs @ HUnregister conn # ys) [(OpUnregister conn now, e = None)] s' (xs @ ys)"
| count: "IncrementByteCounters k n p bIn bOut now (up s) = Ret (e, st') \<Longrightarrow>
    log_step s hs [(OpIncrement k n p bIn bOut now, e = None)] (stats st') hs"
| evict: "log_step s hs [(OpEvict clk, True)] (statsEvictorInner clk s) hs"

inductive race_log :: "race \<Rightarrow> (stats_op \<times> bool) list \<Rightarrow> bool" where
  start: "race_log (Up stats_init []) []"
| step: "race_log (Up s hs) l \<Longrightarrow> log_step s hs es s' hs' \<Longrightarrow> race_log (Up s' hs') (l @ es)"

text \<open>The log is of every run: it restricts nothing and invents nothing.\<close>

lemma half_logged: "run_half h now s = Ret s' \<Longrightarrow> \<exists>es. log_step s (xs @ h # ys) es s' (xs @ ys)"
proof (cases h)
  case (HUnregister conn)
  assume "run_half h now s = Ret s'"
  with HUnregister obtain e where "UnregisterConnection_locked conn now s = Ret (e, s')"
    by (cases "UnregisterConnection_locked conn now s") auto
  from log_step.unregister[OF this] HUnregister show ?thesis by blast
qed (auto intro: log_step.feeder log_step.register)

lemma race_step_logged: "race_step (Up s hs) (Up s' hs') \<Longrightarrow> \<exists>es. log_step s hs es s' hs'"
  by (cases rule: race_step.cases) (auto intro: log_step.enter log_step.count log_step.evict half_logged)

lemma race_reach_logged: "race_reach x \<Longrightarrow> x = Up s hs \<Longrightarrow> \<exists>l. race_log (Up s hs) l"
proof (induction arbitrary: s hs rule: race_reach.induct)
  case start
  then show ?case using race_log.start by auto
next
  case (step x y)
  obtain s0 hs0 where x: "x = Up s0 hs0" using step.hyps(2) by (cases rule: race_step.cases) auto
  with step race_step_logged[of s0 hs0 s hs] show ?case by (blast intro: race_log.step)
qed

lemma log_step_race: "log_step s hs es s' hs' \<Longrightarrow> race_step (Up s hs) (Up s' hs')"
proof (induction rule: log_step.induct)
  case (feeder s xs f ys now)
  show ?case using race_step.finish[of "HFeeder f" now s _ xs ys] by simp
next
  case (register conn connected now s s' xs ys)
  then show ?case using race_step.finish[of "HRegister conn connected" now s s' xs ys] by simp
next
  case (unregister conn now s e s' xs ys)
  then show ?case using race_step.finish[of "HUnregister conn" now s s' xs ys] by simp
qed (auto intro: race_step.intros)

lemma race_log_reach: "race_log x l \<Longrightarrow> race_reach x"
  by (induction rule: race_log.induct) (auto intro: race_reach.intros log_step_race)

lemma race_log_weak: "race_log (Up s hs) l \<Longrightarrow> weak_stats s \<and> (\<forall>h \<in> set hs. half_valid h)"
  using race_reach_inv[OF race_log_reach] by force

section \<open>Linearizability\<close>

lemma spec_run_snoc:
  "spec_run ops r = (bs, r1) \<Longrightarrow> spec_step op r1 = (b, r2) \<Longrightarrow> spec_run (ops @ [op]) r = (bs @ [b], r2)"
  by (induction ops arbitrary: r bs) (auto simp: Let_def split: prod.splits)

text \<open>The bytes the successful operations of a log add to a protocol's global counters.\<close>

definition log_bytes :: "(stats_op \<times> bool) list \<Rightarrow> protocol \<Rightarrow> u64 \<times> u64" where
  "log_bytes l p =
     (sum_list (map (\<lambda>(op, ok). if ok then fst (op_bytes op p) else 0) l),
      sum_list (map (\<lambda>(op, ok). if ok then snd (op_bytes op p) else 0) l))"

lemma log_bytes_snoc:
  "log_bytes (l @ [(op, ok)]) p =
     (if ok then (fst (log_bytes l p) + fst (op_bytes op p), snd (log_bytes l p) + snd (op_bytes op p))
      else log_bytes l p)"
  by (simp add: log_bytes_def)

definition linearized :: "Statistics \<Rightarrow> (stats_op \<times> bool) list \<Rightarrow> bool" where
  "linearized s l \<longleftrightarrow>
     spec_run (map fst l) (\<lambda>_ _ _. None) = (map snd l, lookup_conn s) \<and>
     (\<forall>p. IsValid p \<longrightarrow> global_bytes s p = log_bytes l p)"

lemma linearized_step:
  assumes "linearized s l" "(ok, lookup_conn s') = spec_step op (lookup_conn s)"
    "\<And>p. IsValid p \<Longrightarrow> global_bytes s' p =
       (if ok then (fst (global_bytes s p) + fst (op_bytes op p), snd (global_bytes s p) + snd (op_bytes op p))
        else global_bytes s p)"
  shows "linearized s' (l @ [(op, ok)])"
proof -
  have "spec_run (map fst l @ [op]) (\<lambda>_ _ _. None) = (map snd l @ [ok], lookup_conn s')"
    using assms(1,2) by (intro spec_run_snoc[of _ _ _ "lookup_conn s"]) (simp_all add: linearized_def)
  moreover have "global_bytes s' p = log_bytes (l @ [(op, ok)]) p" if "IsValid p" for p
  proof -
    have "global_bytes s p = log_bytes l p" using assms(1) that unfolding linearized_def by blast
    with assms(3)[OF that] show ?thesis by (simp add: log_bytes_snoc)
  qed
  ultimately show ?thesis by (simp add: linearized_def)
qed

lemma linearized_same:
  assumes "linearized s l" "lookup_conn s' = lookup_conn s" "\<And>p. global_bytes s' p = global_bytes s p"
  shows "linearized s' l"
  using assms by (simp add: linearized_def)

lemma log_step_linearized:
  assumes "weak_stats s" "\<forall>h \<in> set hs. half_valid h" "linearized s l" "log_step s hs es s' hs'"
  shows "linearized s' (l @ es)"
  using assms(4)
proof (cases rule: log_step.cases)
  case (enter h)
  with assms(3) show ?thesis by (auto intro!: linearized_same[of s] simp: lookup_initFeederStats_fun)
next
  case (feeder xs f ys now)
  with assms(3) show ?thesis
    using RegisterFeeder_weak_effect[of f now s] by (auto intro!: linearized_step[of s])
next
  case (register conn connected now xs ys)
  have v: "IsValid (cn_Proto conn)" using assms(2) register(1) by auto
  from RegisterConnection_weak_effect[OF assms(1) v register(4)] register assms(3) v show ?thesis
    by (auto intro!: linearized_step[of s] simp del: IsValid_iff)
next
  case (unregister conn now e xs ys)
  have v: "IsValid (cn_Proto conn)" using assms(2) unregister(1) by auto
  from UnregisterConnection_weak_effect[OF assms(1) v unregister(4)] unregister assms(3) show ?thesis
    by (auto intro!: linearized_step[of s])
next
  case (count k n p bIn bOut now e st')
  have w: "weak_stats (stats (up s))" using assms(1) by (simp add: up_def)
  have u: "stats (up s) = s" by (simp add: up_def)
  have ok: "(e = None, lookup_conn (stats st')) = spec_step (OpIncrement k n p bIn bOut now) (lookup_conn s)"
    and b: "\<And>q. IsValid q \<Longrightarrow> global_bytes (stats st') q =
        (if e = None \<and> q = p then (fst (global_bytes s q) + bIn, snd (global_bytes s q) + bOut)
         else global_bytes s q)"
    using IncrementByteCounters_weak_effect[OF w count(4)] unfolding u by blast+
  have "linearized (stats st') (l @ [(OpIncrement k n p bIn bOut now, e = None)])"
    by (rule linearized_step[OF assms(3) ok]) (simp add: b)
  with count show ?thesis by simp
next
  case (evict clk)
  from evictor_weak_effect[OF assms(1), of clk] evict assms(3) show ?thesis
    by (auto intro!: linearized_step[of s])
qed

lemma race_log_linearized: "race_log x l \<Longrightarrow> x = Up s hs \<Longrightarrow> linearized s l"
proof (induction arbitrary: s hs rule: race_log.induct)
  case start
  then show ?case
    using started_ok(3,4) by (simp add: linearized_def log_bytes_def started_def)
next
  case (step s0 hs0 l es s1 hs1)
  with race_log_weak[OF step.hyps(1)] log_step_linearized[of s0 hs0 l es s1 hs1] show ?case by simp
qed

text \<open>
  C4. The store is linearizable: for every reachable state of the interleaved operations there is a
  log of them, in the order in which they left their last lock, and every such log, run
  operation by operation on the sequential registry, gives the same acceptances and refusals
  and the same connections with the same data as the store, and the global byte counters are
  the sums of its accepted increments. So apart from the panic the interleavings show nothing a
  sequential use would not, although registration and removal take the lock twice.
\<close>
theorem store_linearizable:
  "(race_reach (Up s hs) \<longleftrightarrow> (\<exists>l. race_log (Up s hs) l)) \<and>
   (race_log (Up s hs) l \<longrightarrow>
      spec_run (map fst l) (\<lambda>_ _ _. None) = (map snd l, lookup_conn s) \<and>
      (BytesInBEAST s, BytesOutBEAST s) = log_bytes l BEAST \<and>
      (BytesInMLAT s, BytesOutMLAT s) = log_bytes l MLAT)"
proof -
  have "(BytesInBEAST s, BytesOutBEAST s) = log_bytes l BEAST \<and> (BytesInMLAT s, BytesOutMLAT s) = log_bytes l MLAT \<and>
      spec_run (map fst l) (\<lambda>_ _ _. None) = (map snd l, lookup_conn s)"
    if "race_log (Up s hs) l"
  proof -
    have "linearized s l" by (rule race_log_linearized[OF that HOL.refl])
    then have "spec_run (map fst l) (\<lambda>_ _ _. None) = (map snd l, lookup_conn s)"
      "global_bytes s BEAST = log_bytes l BEAST" "global_bytes s MLAT = log_bytes l MLAT"
      by (simp_all add: linearized_def)
    then show ?thesis by (simp add: global_bytes_def)
  qed
  then show ?thesis using race_reach_logged race_log_reach by blast
qed


lemma with_mlat_log: "race_log (Up with_mlat []) [(OpRegister mlat_conn 1 1, True)]"
proof -
  have "race_log (Up (initFeederStats 7 stats_init) [HRegister mlat_conn 1]) []"
    using race_log.step[OF race_log.start log_step.enter, of "HRegister mlat_conn 1"] by simp
  from race_log.step[OF this, of "[(OpRegister mlat_conn 1 1, True)]" with_mlat "[]"] show ?thesis
    using log_step.register[OF with_mlat_run, of "[]" "[]"] by simp
qed

theorem store_linearizable_witness:
  "spec_run [OpRegister mlat_conn 1 1] (\<lambda>_ _ _. None) = ([True], lookup_conn with_mlat) \<and>
   (BytesInMLAT with_mlat, BytesOutMLAT with_mlat) = log_bytes [(OpRegister mlat_conn 1 1, True)] MLAT \<and>
   race_reach (Up with_mlat []) \<and> lookup_conn with_mlat 7 MLAT 1 \<noteq> None"
proof -
  have "lookup_conn with_mlat 7 MLAT 1 \<noteq> None" by code_simp
  with store_linearizable[of with_mlat "[]" "[(OpRegister mlat_conn 1 1, True)]"] with_mlat_log
  show ?thesis by auto
qed

section \<open>The shape of every store\<close>

lemma weak_counts:
  assumes "weak_stats s"
  shows "pd_ConnectionCount (get_pd (get_feeder s k) p) = int (card (registered s k p)) \<and>
    (pd_Status (get_pd (get_feeder s k) p) \<longleftrightarrow> registered s k p \<noteq> {}) \<and> finite (registered s k p)"
proof (cases "wf_feeder (get_feeder s k)")
  case True
  define t where "t = put_feeder k (get_feeder s k) stats_init"
  have t: "wf_stats t" using wf_stats_put[OF wf_stats_init True] by (simp add: t_def)
  have "get_feeder t k = get_feeder s k" by (simp add: t_def)
  moreover from this have "registered t k p = registered s k p" by (simp add: registered_def lookup_conn_def)
  ultimately show ?thesis using count_registered[OF t, of k p] by simp
next
  case False
  then have "fs_Connections (get_feeder s k) = None" using weak_get[OF assms] by blast
  then show ?thesis by (simp add: registered_def lookup_conn_def)
qed

text \<open>
  C15. The store is well-formed whatever interleaves: every entry has no connection map or has one with
  exactly the two protocols, all connections are under a protocol, and the count and the status of
  a protocol are those of its connections, so that \<open>GetNumConnections\<close>, on which the connection
  limit rests, gives their number.
\<close>
theorem interleaved_store_well_formed:
  assumes "race_reach (Up s hs)"
  shows "(case gm_get (Feeders s) k of None \<Rightarrow> True
          | Some f \<Rightarrow> (case fs_Connections f of None \<Rightarrow> True
             | Some m \<Rightarrow> gm_wf m \<and> {p. gm_get m p \<noteq> None} = {BEAST, MLAT})) \<and>
     (registered s k p = {} \<or> IsValid p) \<and> finite (registered s k p) \<and>
     GetNumConnections k p (up s) = (int (card (registered s k p)), None) \<and>
     (pd_Status (get_pd (get_feeder s k) p) \<longleftrightarrow> registered s k p \<noteq> {})"
proof -
  have w: "weak_stats s" using race_reach_inv[OF assms] by simp
  have "gm_wf m \<and> {p. gm_get m p \<noteq> None} = {BEAST, MLAT}"
    if "gm_get (Feeders s) k = Some f" "fs_Connections f = Some m" for f m
  proof -
    have "wf_feeder f" using w that unfolding weak_stats_def by fastforce
    then have "gm_wf m" "\<And>p. gm_get m p \<noteq> None \<longleftrightarrow> IsValid p" using that(2) by (auto simp: wf_feeder_def)
    then show ?thesis by auto
  qed
  moreover have "registered s k p = {} \<or> IsValid p"
    using lookup_valid_weak[OF w, of k p] by (auto simp: registered_def)
  moreover have "GetNumConnections k p (up s) = (int (card (registered s k p)), None)"
    using weak_counts[OF w, of k p] by (simp add: GetNumConnections_def up_def)
  ultimately show ?thesis using weak_counts[OF w, of k p] by (simp split: option.split)
qed

section \<open>A connection that is being served\<close>

definition conn_key :: "Connection \<Rightarrow> conn_id" where
  "conn_key conn = (cn_ApiKey conn, cn_Proto conn, cn_ConnNum conn)"

text \<open>Operations that register or remove a connection, and that count bytes for it.\<close>

fun touches :: "conn_id \<Rightarrow> stats_op \<Rightarrow> bool" where
  "touches i (OpRegister conn connected now) = (conn_key conn = i)"
| "touches i (OpUnregister conn now) = (conn_key conn = i)"
| "touches i _ = False"

fun counts_for :: "conn_id \<Rightarrow> stats_op \<Rightarrow> bool" where
  "counts_for i (OpIncrement k n p bIn bOut now) = ((k, p, n) = i)"
| "counts_for i _ = False"

definition own_in :: "conn_id \<Rightarrow> stats_op list \<Rightarrow> u64" where
  "own_in i ops = sum_list (map (\<lambda>op. fst (op_bytes op (fst (snd i)))) (filter (counts_for i) ops))"

definition own_out :: "conn_id \<Rightarrow> stats_op list \<Rightarrow> u64" where
  "own_out i ops = sum_list (map (\<lambda>op. snd (op_bytes op (fst (snd i)))) (filter (counts_for i) ops))"

definition with_bytes :: "u64 \<Rightarrow> u64 \<Rightarrow> ConnectionDetail \<Rightarrow> ConnectionDetail" where
  "with_bytes a b d = d\<lparr>cd_BytesIn := cd_BytesIn d + a, cd_BytesOut := cd_BytesOut d + b\<rparr>"

lemma with_bytes_simps [simp]: "with_bytes 0 0 d = d"
  "with_bytes c e (with_bytes a b d) = with_bytes (a + c) (b + e) d"
  by (simp_all add: with_bytes_def add.assoc)

lemma incremented_with_bytes: "incremented a b d = with_bytes a b d"
  by (simp add: incremented_def with_bytes_def)

lemma spec_step_untouched:
  assumes "r k p n = Some d" "\<not> touches (k, p, n) op"
  shows "snd (spec_step op r) k p n =
      Some (with_bytes (own_in (k, p, n) [op]) (own_out (k, p, n) [op]) d) \<and>
    (counts_for (k, p, n) op \<longrightarrow> fst (spec_step op r))"
  using assms
  by (cases op) (auto simp: reg_set_def own_in_def own_out_def conn_key_def incremented_with_bytes
      split: option.split)

lemma own_Cons: "own_in i (op # ops) = own_in i [op] + own_in i ops"
  "own_out i (op # ops) = own_out i [op] + own_out i ops"
  by (simp_all add: own_in_def own_out_def)

lemma spec_run_untouched:
  assumes "spec_run ops r = (bs, r')" "r k p n = Some d" "\<forall>op \<in> set ops. \<not> touches (k, p, n) op"
  shows "r' k p n = Some (with_bytes (own_in (k, p, n) ops) (own_out (k, p, n) ops) d) \<and>
    (\<forall>(op, b) \<in> set (zip ops bs). counts_for (k, p, n) op \<longrightarrow> b)"
  using assms
proof (induction ops arbitrary: r bs d)
  case Nil
  then show ?case by (simp add: own_in_def own_out_def)
next
  case (Cons op ops)
  obtain b r1 where s1: "spec_step op r = (b, r1)" by (cases "spec_step op r")
  obtain bs' where s2: "spec_run ops r1 = (bs', r')" "bs = b # bs'"
    using Cons.prems(1) s1 by (auto simp: Let_def split: prod.splits)
  note h = spec_step_untouched[of r k p n d op, OF Cons.prems(2), unfolded s1]
  have "r1 k p n = Some (with_bytes (own_in (k, p, n) [op]) (own_out (k, p, n) [op]) d)"
    using h Cons.prems(3) by simp
  from Cons.IH[OF s2(1) this] Cons.prems(3) h s2(2) show ?case by (auto simp: own_Cons[of _ op ops])
qed

lemma spec_run_append:
  "spec_run (xs @ ys) r = (bs, r') \<Longrightarrow>
     \<exists>bs1 r1 bs2. spec_run xs r = (bs1, r1) \<and> spec_run ys r1 = (bs2, r') \<and> bs = bs1 @ bs2 \<and> length bs1 = length xs"
proof (induction xs arbitrary: r bs)
  case (Cons x xs)
  obtain b r0 where x: "spec_step x r = (b, r0)" by (cases "spec_step x r")
  obtain bs' where "spec_run (xs @ ys) r0 = (bs', r')" "bs = b # bs'"
    using Cons.prems x by (auto simp: Let_def split: prod.splits)
  with Cons.IH[of r0 bs'] x show ?case by fastforce
qed simp

theorem interleaved_store_well_formed_witness:
  "GetNumConnections 7 MLAT (up with_mlat) = (1, None) \<and> registered with_mlat 7 MLAT \<noteq> {}"
proof -
  have "race_reach (Up with_mlat [])" by (rule race_log_reach[OF with_mlat_log])
  from interleaved_store_well_formed[OF this, of 7 MLAT] have
    "GetNumConnections 7 MLAT (up with_mlat) = (int (card (registered with_mlat 7 MLAT)), None)"
    "pd_Status (get_pd (get_feeder with_mlat 7) MLAT) \<longleftrightarrow> registered with_mlat 7 MLAT \<noteq> {}" by blast+
  moreover have "GetNumConnections 7 MLAT (up with_mlat) = (1, None)"
    "pd_Status (get_pd (get_feeder with_mlat 7) MLAT)" by code_simp+
  ultimately show ?thesis by simp
qed

lemma increment_served:
  assumes "weak_stats s" "lookup_conn s k p n \<noteq> None"
  shows "\<exists>st'. IncrementByteCounters k n p bIn bOut now (up s) = Ret (None, st') \<and> lookup_conn (stats st') k p n \<noteq> None"
proof -
  have w: "weak_stats (stats (up s))" using assms(1) by (simp add: up_def)
  obtain e st' where r: "IncrementByteCounters k n p bIn bOut now (up s) = Ret (e, st')"
    using IncrementByteCounters_weak[OF w] by blast
  have "(e = None, lookup_conn (stats st')) = spec_step (OpIncrement k n p bIn bOut now) (lookup_conn s)"
    using IncrementByteCounters_weak_effect[OF w r] by (simp add: up_def)
  then have "e = None" "lookup_conn (stats st') k p n \<noteq> None"
    using assms(2) by (auto simp: reg_set_def split: option.splits)
  with r show ?thesis by blast
qed

lemma log_increment:
  assumes "race_log (Up s hs) l" "lookup_conn s k p n \<noteq> None"
  shows "\<exists>s'. race_log (Up s' hs) (l @ [(OpIncrement k n p bIn bOut now, True)]) \<and> lookup_conn s' k p n \<noteq> None"
proof -
  obtain st' where r: "IncrementByteCounters k n p bIn bOut now (up s) = Ret (None, st')"
    "lookup_conn (stats st') k p n \<noteq> None"
    using increment_served[OF _ assms(2)] race_log_weak[OF assms(1)] by blast
  with race_log.step[OF assms(1) log_step.count[OF r(1)]] show ?thesis by auto
qed

text \<open>
  A connection that is being served keeps its entry, under any interleaving with other
  connections of the same feeder, authentications, removals and the evictor: from its registration
  until an operation for that very connection, every count for it succeeds, and its entry holds the
  addresses and the time of the registration and exactly the bytes counted for it (modulo \<open>2^64\<close>).
\<close>
theorem served_connection_keeps_entry:
  assumes "race_log (Up s hs) (l1 @ (OpRegister conn connected now, True) # l2)"
    and "list_all (\<lambda>(op, _). \<not> touches (conn_key conn) op) l2"
  shows "lookup_conn s (cn_ApiKey conn) (cn_Proto conn) (cn_ConnNum conn) =
      Some ((fresh_detail conn connected)
        \<lparr>cd_BytesIn := own_in (conn_key conn) (map fst l2), cd_BytesOut := own_out (conn_key conn) (map fst l2)\<rparr>) \<and>
    list_all (\<lambda>(op, ok). counts_for (conn_key conn) op \<longrightarrow> ok) l2"
proof -
  let ?k = "cn_ApiKey conn" and ?p = "cn_Proto conn" and ?n = "cn_ConnNum conn"
  let ?op = "OpRegister conn connected now"
  have run: "spec_run (map fst l1 @ ?op # map fst l2) (\<lambda>_ _ _. None) = (map snd l1 @ True # map snd l2, lookup_conn s)"
    using race_log_linearized[OF assms(1) HOL.refl] by (simp add: linearized_def)
  obtain bs1 r1 bs2 where a: "spec_run (map fst l1) (\<lambda>_ _ _. None) = (bs1, r1)"
    "spec_run (?op # map fst l2) r1 = (bs2, lookup_conn s)" "map snd l1 @ True # map snd l2 = bs1 @ bs2"
    "length bs1 = length (map fst l1)"
    using spec_run_append[OF run] by blast
  then have bs2: "bs2 = True # map snd l2" by (simp add: append_eq_append_conv)
  obtain r2 where r2: "spec_step ?op r1 = (True, r2)" "spec_run (map fst l2) r2 = (map snd l2, lookup_conn s)"
    using a(2) bs2 by (auto simp: Let_def split: prod.splits)
  have "IsValid ?p" using r2(1) by (auto split: if_splits simp del: IsValid_iff)
  then have "r2 ?k ?p ?n = Some (fresh_detail conn connected)"
    using r2(1) by (auto simp: reg_set_def simp del: IsValid_iff)
  note fresh = this
  have "\<forall>op \<in> set (map fst l2). \<not> touches (?k, ?p, ?n) op"
    using assms(2) by (auto simp: list_all_iff conn_key_def)
  from spec_run_untouched[OF r2(2) fresh this] show ?thesis
    by (simp add: list_all_iff conn_key_def with_bytes_def fresh_detail_def zip_map_fst_snd split_def)
qed


theorem served_connection_keeps_entry_witness:
  "\<exists>s l1 l2. lookup_conn s 7 MLAT 1 = Some ((fresh_detail mlat_conn 1)\<lparr>cd_BytesIn := 10, cd_BytesOut := 20\<rparr>) \<and>
     race_log (Up s []) (l1 @ (OpRegister mlat_conn 1 1, True) # l2) \<and> l2 \<noteq> []"
proof -
  have l: "race_log (Up with_mlat []) [(OpRegister mlat_conn 1 1, True)]" by (rule with_mlat_log)
  have "lookup_conn with_mlat 7 MLAT 1 \<noteq> None" by code_simp
  from log_increment[OF l this, of 10 20 4] obtain s where
    l2: "race_log (Up s []) ([] @ (OpRegister mlat_conn 1 1, True) # [(OpIncrement 7 1 MLAT 10 20 4, True)])"
    by auto
  have "lookup_conn s 7 MLAT 1 = Some ((fresh_detail mlat_conn 1)\<lparr>cd_BytesIn := 10, cd_BytesOut := 20\<rparr>)"
    using served_connection_keeps_entry[OF l2]
    by (simp add: conn_key_def mlat_conn_def conn_of_def own_in_def own_out_def)
  with l2 show ?thesis by blast
qed

section \<open>A feeder without maps\<close>

text \<open>
  \<open>RegisterFeeder\<close> writes back a copy of the entry; if the entry was deleted after its first half,
  the copy is the zero value, whose \<open>Connections\<close> is a nil map.
\<close>

definition mapless :: "uuid \<Rightarrow> Statistics \<Rightarrow> bool" where
  "mapless k s \<longleftrightarrow> (case gm_get (Feeders s) k of None \<Rightarrow> False | Some f \<Rightarrow> fs_Connections f = None)"

lemma Feeders_set_detail_other:
  "set_detail k' p n c s = Ret s' \<Longrightarrow> k \<noteq> k' \<Longrightarrow> gm_get (Feeders s') k = gm_get (Feeders s) k"
  by (auto simp: set_detail_def set_pd_def Let_def put_feeder_def split: option.splits)

lemma Feeders_set_pd_other:
  "set_pd k' p pd s = Ret s' \<Longrightarrow> k \<noteq> k' \<Longrightarrow> gm_get (Feeders s') k = gm_get (Feeders s) k"
  by (auto simp: set_pd_def put_feeder_def split: option.splits)

lemma go_bind_Ret_iff: "go_bind r g = Ret y \<longleftrightarrow> (\<exists>x. r = Ret x \<and> g x = Ret y)"
  by (cases r) auto

lemma run_half_other:
  "run_half h now s = Ret s' \<Longrightarrow> k \<noteq> half_key h \<Longrightarrow> gm_get (Feeders s') k = gm_get (Feeders s) k"
  by (cases h)
     (auto simp: RegisterFeeder_locked_def RegisterConnection_locked_def UnregisterConnection_locked_def Let_def
       go_bind_Ret_iff put_feeder_def Feeders_set_detail_other Feeders_set_pd_other
       split: option.splits if_splits)

lemma IncrementByteCounters_other:
  "IncrementByteCounters k' n p bIn bOut now st = Ret (e, st') \<Longrightarrow> k \<noteq> k' \<Longrightarrow>
   gm_get (Feeders (stats st')) k = gm_get (Feeders (stats st)) k"
  by (auto simp: IncrementByteCounters_def Let_def go_bind_Ret_iff put_feeder_def add_global_def
      Feeders_set_detail_other split: option.splits if_splits)

lemma mapless_get: "mapless k s \<Longrightarrow> fs_Connections (get_feeder s k) = None"
  by (simp add: mapless_def get_feeder_def split: option.splits)

lemma mapless_lookup: "mapless k s \<Longrightarrow> lookup_conn s k p n = None"
  by (simp add: lookup_conn_def mapless_get)

lemma mapless_initFeederStats: "mapless k s \<Longrightarrow> mapless k (initFeederStats k' s)"
  by (auto simp: mapless_def initFeederStats_eq put_feeder_def split: option.splits)

lemma mapless_run_half:
  assumes "mapless k s" "run_half h now s = Ret s'"
  shows "mapless k s'"
proof (cases "k = half_key h")
  case True
  show ?thesis
  proof (cases h)
    case (HFeeder f)
    with True assms show ?thesis
      by (auto simp: RegisterFeeder_locked_def Let_def mapless_get mapless_def[of _ "put_feeder _ _ _"])
  next
    case (HRegister conn connected)
    with True assms mapless_get[OF assms(1)] RegisterConnection_no_map[of s conn connected now] show ?thesis by simp
  next
    case (HUnregister conn)
    with True assms(1) have "mapless (cn_ApiKey conn) s" by simp
    from UnregisterConnection_locked_missing[OF mapless_lookup[OF this], of now] assms HUnregister
    show ?thesis by auto
  qed
qed (use assms run_half_other[OF assms(2)] in \<open>simp add: mapless_def\<close>)

lemma mapless_increment:
  assumes "mapless k (stats st)" "IncrementByteCounters k' n p bIn bOut now st = Ret (e, st')"
  shows "mapless k (stats st')"
proof (cases "k = k'")
  case True
  then have "st' = st"
    using assms by (auto simp: IncrementByteCounters_def mapless_def nil_get_def split: option.splits)
  with assms(1) show ?thesis by simp
qed (use assms IncrementByteCounters_other[OF assms(2)] in \<open>simp add: mapless_def\<close>)

text \<open>
  C16. A registration of a feeder that overlaps with the end of its last connection can leave an
  entry without maps, and such an entry shuts the feeder out: nothing the operations do
  repairs it. Every step keeps the entry without maps, or is the panic of a goroutine, or is a run of
  the evictor more than 60 seconds after the entry was last written; meanwhile every registration
  of a connection of that feeder panics, which ends the process, and every count is refused.
\<close>
theorem mapless_feeder_is_shut_out:
  assumes "race_step (Up s hs) y" "mapless k s"
  shows "(case y of
            Crashed m \<Rightarrow> True
          | Up s' hs' \<Rightarrow> mapless k s' \<or>
              (\<exists>clk. s' = statsEvictorInner clk s \<and> gm_get (Feeders s') k = None \<and>
                 clk k - fs_TimeUpdated (get_feeder s k) > 60 * second)) \<and>
     (cn_ApiKey conn = k \<and> IsValid (cn_Proto conn) \<longrightarrow>
        RegisterConnection conn connected now (up s) = Panic ''assignment to entry in nil map'') \<and>
     IncrementByteCounters k n p bIn bOut now (up s) = Ret (Some ErrProtoNotFound, up s)"
proof -
  have "case y of
            Crashed m \<Rightarrow> True
          | Up s' hs' \<Rightarrow> mapless k s' \<or>
              (\<exists>clk. s' = statsEvictorInner clk s \<and> gm_get (Feeders s') k = None \<and>
                 clk k - fs_TimeUpdated (get_feeder s k) > 60 * second)"
    using assms(1)
  proof (cases rule: race_step.cases)
    case (count k' n p bIn bOut now e st')
    with mapless_increment[of k "up s" k' n p bIn bOut now e st'] assms(2) show ?thesis by (simp add: up_def)
  next
    case (evict clk)
    obtain f where f: "gm_get (Feeders s) k = Some f" "fs_Connections f = None"
      using assms(2) by (auto simp: mapless_def split: option.splits)
    note e = evictor_entry[of clk s k, unfolded f(1), simplified]
    show ?thesis
    proof (cases "clk k - fs_TimeUpdated f > second * 60")
      case True
      then have "gm_get (Feeders (statsEvictorInner clk s)) k = None" using e f(2) by (simp add: nil_len_def)
      with True f evict show ?thesis by (auto simp: get_feeder_def mult.commute)
    next
      case False
      then have "gm_get (Feeders (statsEvictorInner clk s)) k = Some f" using e by simp
      with f evict show ?thesis by (simp add: mapless_def)
    qed
  qed (use assms(2) in \<open>auto intro: mapless_initFeederStats mapless_run_half\<close>)
  moreover have "RegisterConnection conn connected now (up s) = Panic ''assignment to entry in nil map''"
    if "cn_ApiKey conn = k" "IsValid (cn_Proto conn)"
  proof -
    have "initFeederStats k s = s" using assms(2) by (auto simp: mapless_def initFeederStats_eq split: option.splits)
    with that RegisterConnection_no_map[of s conn connected now] mapless_get[OF assms(2)] show ?thesis
      by (simp add: RegisterConnection_def up_def del: IsValid_iff)
  qed
  moreover have "IncrementByteCounters k n p bIn bOut now (up s) = Ret (Some ErrProtoNotFound, up s)"
    using assms(2) by (auto simp: IncrementByteCounters_def mapless_def up_def nil_get_def split: option.splits)
  ultimately show ?thesis by blast
qed

definition ypph :: FeederDetails where
  "ypph = \<lparr>fd_Label = ''YPPH'', fd_FeederCode = ''YPPH-0001'', fd_ApiKey = 7\<rparr>"

lemma reach_mapless: "race_reach (Up (RegisterFeeder_locked ypph 3 mlat_removed) [])"
proof -
  have "race_reach (Up with_mlat [])" by (rule race_log_reach[OF with_mlat_log])
  then have "race_reach (Up with_mlat [HFeeder ypph])"
    using race_step.enter[of "HFeeder ypph" with_mlat "[]"] race_reach.step by (simp add: ypph_def)
  then have "race_reach (Up with_mlat [HUnregister mlat_conn, HFeeder ypph])"
    using race_step.enter[of "HUnregister mlat_conn" with_mlat "[HFeeder ypph]"] race_reach.step by simp
  then have "race_reach (Up mlat_removed [HFeeder ypph])"
    using race_step.finish[of "HUnregister mlat_conn" 2 with_mlat mlat_removed "[]" "[HFeeder ypph]"]
      mlat_removed_run race_reach.step by simp
  then show ?thesis
    using race_step.finish[of "HFeeder ypph" 3 mlat_removed _ "[]" "[]"] race_reach.step by simp
qed

theorem mapless_feeder_is_shut_out_witness:
  "race_reach (Up (RegisterFeeder_locked ypph 3 mlat_removed) []) \<and>
   RegisterConnection beast_conn 5 5 (up (RegisterFeeder_locked ypph 3 mlat_removed)) =
     Panic ''assignment to entry in nil map''"
proof -
  have m: "mapless 7 (RegisterFeeder_locked ypph 3 mlat_removed)" by code_simp
  from mapless_feeder_is_shut_out[OF race_step.evict[of "RegisterFeeder_locked ypph 3 mlat_removed" "[]" "\<lambda>_. 0"] m,
      of beast_conn 5 5]
  show ?thesis using reach_mapless by simp
qed

end
