(* ===== verification/StatsPage.thy ===== *)
theory StatsPage
  imports StatsHttp StatsConc
begin

text \<open>
  The statistics page: \<open>httpRenderStats\<close> of \<open>lib/stats/stats.go\<close> with the rows that
  \<open>lib/stats/stats.tmpl\<close> makes of the store, and the text of \<open>humanReadableDataUnits\<close>.

  A template visits a map in the order of its keys. Here the page is its rows, a row the
  values of its cells; theory \<open>StatsHtml\<close> makes the text of the page of them.
\<close>

section \<open>Data units\<close>

text \<open>Division rounded to the nearest integer, halves to the even one.\<close>

definition half_even :: "nat \<Rightarrow> nat \<Rightarrow> nat" where
  "half_even a b =
     (let q = a div b; r = a mod b
      in if 2 * r < b \<or> (2 * r = b \<and> even q) then q else Suc q)"

fun bit_len :: "nat \<Rightarrow> nat" where
  "bit_len n = (if n = 0 then 0 else Suc (bit_len (n div 2)))"

declare bit_len.simps [simp del]

text \<open>\<open>float32(n)\<close> of an unsigned integer: 24 significant bits. The value is an integer.\<close>

definition float32_of :: "nat \<Rightarrow> nat" where
  "float32_of n = (let e = bit_len n - 24 in half_even n (2 ^ e) * 2 ^ e)"

text \<open>The decimals of the format that goes with a prefix.\<close>

definition humanReadable_prec :: "char \<Rightarrow> nat" where
  "humanReadable_prec c =
     (if c = CHR ''K'' then 1 else if c = CHR ''M'' then 2 else if c = CHR ''G'' then 3
      else if c = CHR ''T'' then 4 else 0)"

text \<open>\<open>%.<prec>f\<close> of the number \<open>q / 10 ^ prec\<close>.\<close>

definition fixed_text :: "nat \<Rightarrow> nat \<Rightarrow> string" where
  "fixed_text prec q =
     (let ds = itoa_nat (q mod 10 ^ prec)
      in itoa_nat (q div 10 ^ prec) @ CHR ''.'' # replicate (prec - length ds) CHR ''0'' @ ds)"

text \<open>
  The printed number, in units of the last decimal. Dividing a \<open>float32\<close> by \<open>1024.0\<close> is exact,
  and \<open>Sprintf\<close> rounds the exact value of a \<open>float32\<close>.
\<close>

definition humanReadable_scaled :: "char \<Rightarrow> nat \<Rightarrow> nat" where
  "humanReadable_scaled prefix n =
     half_even (float32_of n * 10 ^ humanReadable_prec prefix) (humanReadable_divisor prefix)"

definition humanReadableDataUnits :: "u64 \<Rightarrow> string" where
  "humanReadableDataUnits n =
     (let prefix = humanReadable_prefix n
      in if prefix = CHR '' '' then itoa_nat (unat n) @ ''B''
         else fixed_text (humanReadable_prec prefix) (humanReadable_scaled prefix (unat n)) @ [prefix])"

section \<open>The page\<close>

record page_row =
  pr_Label :: string
  pr_UUID :: uuid
  pr_Code :: string
  pr_Proto :: string
  pr_ConnNum :: u64
  pr_Src :: string
  pr_Dst :: string
  pr_BytesIn :: string
  pr_BytesOut :: string
  pr_TimeConnected :: time

text \<open>The cells of one connection; a panic of \<open>protocolName\<close> ends the execution with an error.\<close>

definition page_row_of :: "FeederStats \<Rightarrow> uuid \<Rightarrow> protocol \<Rightarrow> u64 \<Rightarrow> ConnectionDetail \<Rightarrow> page_row go" where
  "page_row_of f k p n c =
     go_bind (Name p)
       (\<lambda>nm. Ret \<lparr>pr_Label = fs_Label f, pr_UUID = k, pr_Code = fs_Code f, pr_Proto = nm, pr_ConnNum = n,
                  pr_Src = cd_Src c, pr_Dst = cd_Dst c, pr_BytesIn = humanReadableDataUnits (cd_BytesIn c),
                  pr_BytesOut = humanReadableDataUnits (cd_BytesOut c), pr_TimeConnected = cd_TimeConnected c\<rparr>)"

text \<open>\<open>range\<close> over a map that may be nil, in the order of the keys.\<close>

definition tmpl_range :: "('k::linorder, 'v) gomap option \<Rightarrow> ('k \<times> 'v) list" where
  "tmpl_range m = (case m of None \<Rightarrow> [] | Some mm \<Rightarrow> sort_key fst mm)"

fun go_map :: "('a \<Rightarrow> 'b go) \<Rightarrow> 'a list \<Rightarrow> 'b list go" where
  "go_map g [] = Ret []"
| "go_map g (x # xs) = go_bind (g x) (\<lambda>y. go_bind (go_map g xs) (\<lambda>ys. Ret (y # ys)))"

definition page_cells :: "Statistics \<Rightarrow> (FeederStats \<times> uuid \<times> protocol \<times> u64 \<times> ConnectionDetail) list" where
  "page_cells s =
     concat (map (\<lambda>(k, f).
       concat (map (\<lambda>(p, pd).
         map (\<lambda>(n, c). (f, k, p, n, c)) (tmpl_range (pd_ConnectionDetails pd)))
       (tmpl_range (fs_Connections f))))
     (tmpl_range (Some (Feeders s))))"

text \<open>
  The handler; \<open>write_err\<close> is an error of writing to the client. An error of the execution is
  logged with \<open>Panic\<close>.
\<close>

definition httpRenderStats :: "bool \<Rightarrow> Statistics \<Rightarrow> page_row list go" where
  "httpRenderStats write_err s =
     (case go_map (\<lambda>(f, k, p, n, c). page_row_of f k p n c) (page_cells s) of
        Panic m \<Rightarrow> Panic ''could not execute statsTemplate''
      | Ret rows \<Rightarrow> if write_err then Panic ''could not execute statsTemplate'' else Ret rows)"

section \<open>Rounding\<close>

lemma half_even_bounds:
  assumes "0 < b"
  shows "a div b \<le> half_even a b" "\<bar>2 * (int (half_even a b) * int b - int a)\<bar> \<le> int b"
proof -
  have d: "int a = int (a div b) * int b + int (a mod b)" "a mod b < b"
    using assms by (simp_all flip: of_nat_mult of_nat_add)
  show "a div b \<le> half_even a b" by (simp add: half_even_def Let_def)
  show "\<bar>2 * (int (half_even a b) * int b - int a)\<bar> \<le> int b"
    unfolding half_even_def Let_def using d by (auto simp: algebra_simps)
qed

lemma bit_len_le: "bit_len n = Suc k \<Longrightarrow> 2 ^ k \<le> n"
proof (induction n arbitrary: k rule: bit_len.induct)
  case (1 n)
  then have n: "n \<noteq> 0" "bit_len (n div 2) = k" by (auto simp: bit_len.simps[of n] split: if_splits)
  show ?case
  proof (cases k)
    case (Suc j)
    then show ?thesis using 1(1)[OF n(1), of j] n by simp
  qed (use n in simp)
qed

lemma float32_exact: "bit_len n \<le> 24 \<Longrightarrow> float32_of n = n"
  by (simp add: float32_of_def half_even_def)

lemma float32_rounded:
  assumes "24 < bit_len n"
  obtains e where "float32_of n = half_even n (2 ^ e) * 2 ^ e" "8388608 * 2 ^ e \<le> n" "0 < e"
proof -
  obtain e where e: "bit_len n = Suc (e + 23)" "0 < e"
    using assms by (intro that[of "bit_len n - 24"]) simp_all
  show ?thesis using that[of e] bit_len_le[OF e(1)] e by (simp add: float32_of_def power_add mult.commute)
qed

lemma float32_error: "2 ^ 24 * \<bar>int (float32_of n) - int n\<bar> \<le> int n"
proof (cases "bit_len n \<le> 24")
  case False
  then obtain e where e: "float32_of n = half_even n (2 ^ e) * 2 ^ e" "8388608 * 2 ^ e \<le> n"
    using float32_rounded[of n] by auto
  have "\<bar>2 * (int (float32_of n) - int n)\<bar> \<le> 2 ^ e"
    using half_even_bounds(2)[of "2 ^ e" n] by (simp add: e(1))
  moreover have "8388608 * 2 ^ e \<le> int n"
    using e(2) of_nat_le_iff[of "8388608 * 2 ^ e" n, where 'a=int] by simp
  ultimately have "8388608 * \<bar>2 * (int (float32_of n) - int n)\<bar> \<le> int n" by linarith
  then show ?thesis unfolding abs_mult by simp
qed (simp add: float32_exact)

lemma float32_ge_power: "2 ^ j \<le> n \<Longrightarrow> 2 ^ j \<le> float32_of n"
proof (cases "bit_len n \<le> 24")
  case False
  assume j: "2 ^ j \<le> n"
  obtain e where e: "float32_of n = half_even n (2 ^ e) * 2 ^ e" "8388608 * 2 ^ e \<le> n"
    using False float32_rounded[of n] by auto
  have ge: "n div 2 ^ e * 2 ^ e \<le> float32_of n"
    using half_even_bounds(1)[of "2 ^ e" n] by (simp add: e(1))
  show ?thesis
  proof (cases "e \<le> j")
    case True
    have p: "(2::nat) ^ (j - e) * 2 ^ e = 2 ^ j" using True by (simp flip: power_add)
    then have "2 ^ (j - e) \<le> n div 2 ^ e" using j by (simp add: less_eq_div_iff_mult_less_eq)
    then have "2 ^ (j - e) * 2 ^ e \<le> n div 2 ^ e * 2 ^ e" by (rule mult_le_mono1)
    with p ge show ?thesis by linarith
  next
    case False
    have "2 ^ e \<le> n" using e(2) by linarith
    then have "1 \<le> n div 2 ^ e" by (simp add: less_eq_div_iff_mult_less_eq)
    then have "2 ^ e \<le> n div 2 ^ e * 2 ^ e" by simp
    moreover have "(2::nat) ^ j \<le> 2 ^ e" using False by (intro power_increasing) simp_all
    ultimately show ?thesis using ge by linarith
  qed
qed (simp add: float32_exact)

text \<open>The printed text reads back as the number.\<close>

lemma digits_val_append: "digits_val (a @ b) = digits_val a * 10 ^ length b + digits_val b"
  by (induction b rule: rev_induct) (simp_all add: digits_val_def)

lemma digits_val_zeros: "digits_val (replicate k CHR ''0'') = 0"
proof (induction k)
  case (Suc k)
  have "digits_val (CHR ''0'' # replicate k CHR ''0'') = digits_val [CHR ''0''] * 10 ^ k + 0"
    using digits_val_append[of "[CHR ''0'']" "replicate k CHR ''0''"] Suc by simp
  moreover have "digits_val [CHR ''0''] = 0" by code_simp
  ultimately show ?case by simp
qed (simp add: digits_val_def)

lemma itoa_nat_length: "m < 10 ^ Suc k \<Longrightarrow> length (itoa_nat m) \<le> Suc k"
proof (induction k arbitrary: m)
  case (Suc k)
  have "m div 10 < 10 ^ Suc k" using Suc.prems by (simp add: less_mult_imp_div_less mult.commute)
  from Suc.IH[OF this] show ?case by (subst itoa_nat.simps) simp
qed (simp add: itoa_nat.simps)

lemma fixed_text_reads:
  assumes "0 < prec"
  shows "\<exists>i ds. fixed_text prec q = i @ CHR ''.'' # ds \<and> i \<noteq> [] \<and> list_all is_digit (i @ ds) \<and> length ds = prec \<and>
    digits_val (i @ ds) = q"
proof -
  let ?r = "q mod 10 ^ prec"
  let ?ds = "replicate (prec - length (itoa_nat ?r)) CHR ''0'' @ itoa_nat ?r"
  have len: "length (itoa_nat ?r) \<le> prec"
    using itoa_nat_length[of ?r "prec - 1"] assms by simp
  have "is_digit CHR ''0''" by code_simp
  then have "list_all is_digit (itoa_nat (q div 10 ^ prec) @ ?ds)"
    using itoa_nat_digits unfolding list_all_iff by auto
  moreover have "digits_val (itoa_nat (q div 10 ^ prec) @ ?ds) = q"
    using len div_mult_mod_eq[of q "10 ^ prec"] by (simp add: digits_val_append digits_val_zeros)
  moreover have "fixed_text prec q = itoa_nat (q div 10 ^ prec) @ CHR ''.'' # ?ds"
    by (simp add: fixed_text_def Let_def)
  moreover have "length ?ds = prec" using len by simp
  ultimately show ?thesis using itoa_nat_digits by blast
qed

lemma humanReadable_divisor_power:
  "\<exists>j. humanReadable_divisor c = 2 ^ j"
proof -
  have "(1::nat) = 2 ^ 0" "(1024::nat) = 2 ^ 10" "(1024 * 1024::nat) = 2 ^ 20" "(1024 * 1024 * 1024::nat) = 2 ^ 30"
    "(1024 * 1024 * 1024 * 1024::nat) = 2 ^ 40" by simp_all
  then show ?thesis unfolding humanReadable_divisor_def by metis
qed

lemma humanReadable_prefix_B: "humanReadable_prefix n = CHR '' '' \<longleftrightarrow> n \<le> 1024"
  by (auto simp: humanReadable_prefix_def Let_def word_less_nat_alt word_le_nat_alt)

lemma scaled_error:
  assumes "0 < d"
  shows "2 ^ 24 * \<bar>int (half_even (float32_of n * t) d) * int d - int n * int t\<bar> \<le> 2 ^ 23 * int d + int n * int t"
proof -
  let ?f = "float32_of n" and ?q = "half_even (float32_of n * t) d"
  have a: "\<bar>2 * (int ?q * int d - int ?f * int t)\<bar> \<le> int d"
    using half_even_bounds(2)[OF assms, of "?f * t"] by simp
  have "2 ^ 24 * \<bar>int ?f - int n\<bar> * int t \<le> int n * int t"
    by (rule mult_right_mono[OF float32_error]) simp
  moreover have "\<bar>int ?f - int n\<bar> * int t = \<bar>int ?f * int t - int n * int t\<bar>"
    by (simp add: abs_mult flip: left_diff_distrib)
  ultimately have "2 ^ 24 * \<bar>int ?f * int t - int n * int t\<bar> \<le> int n * int t" by (simp add: mult.assoc)
  with a show ?thesis by (simp add: abs_le_iff abs_if split: if_splits)
qed

lemma data_units_scaled:
  fixes n :: u64
  assumes "c = humanReadable_prefix n" "1024 < n"
  shows "humanReadableDataUnits n = fixed_text (humanReadable_prec c) (humanReadable_scaled c (unat n)) @ [c] \<and>
       10 ^ humanReadable_prec c \<le> humanReadable_scaled c (unat n) \<and>
       2 ^ 24 * \<bar>int (humanReadable_scaled c (unat n)) * int (humanReadable_divisor c) - int (unat n) * 10 ^ humanReadable_prec c\<bar>
         \<le> 2 ^ 23 * int (humanReadable_divisor c) + int (unat n) * 10 ^ humanReadable_prec c"
proof -
  have c: "c \<noteq> CHR '' ''" using humanReadable_prefix_B[of n] assms by (simp add: not_le)
  let ?d = "humanReadable_divisor c" and ?t = "10 ^ humanReadable_prec c" and ?n = "unat n"
  let ?q = "humanReadable_scaled c ?n"
  have big: "?d < ?n" using humanReadable_bounds[of n] c by (simp add: assms(1))
  obtain j where j: "?d = 2 ^ j" using humanReadable_divisor_power by blast
  have "?d \<le> float32_of ?n" using big float32_ge_power[of j ?n] by (simp add: j)
  then have "?d * ?t \<le> float32_of ?n * ?t" by simp
  then have "?t \<le> float32_of ?n * ?t div ?d" by (simp add: less_eq_div_iff_mult_less_eq j mult.commute)
  then have "?t \<le> ?q" using half_even_bounds(1)[of ?d "float32_of ?n * ?t"] by (simp add: humanReadable_scaled_def j)
  moreover have "humanReadableDataUnits n = fixed_text (humanReadable_prec c) ?q @ [c]"
    using c by (simp add: humanReadableDataUnits_def assms(1) Let_def)
  moreover have "2 ^ 24 * \<bar>int ?q * int ?d - int ?n * ?t\<bar> \<le> 2 ^ 23 * int ?d + int ?n * ?t"
    using scaled_error[of ?d ?n ?t] by (simp add: humanReadable_scaled_def j)
  ultimately show ?thesis by blast
qed

text \<open>
  C38. The data units of the page are accurate: up to 1024 bytes the exact number is printed; beyond,
  up to and including the next power of 1024, the text is a decimal number of at least one K, M, G
  or T with one, two, three or four decimals, and it differs from the exact quotient by at most
  half a unit of its last decimal plus the \<open>2^-24\<close>th part of the quotient (the rounding to
  24 bits), for every 64-bit count.
\<close>
theorem data_units_accurate:
  fixes n :: u64
  shows "if n \<le> 1024 then humanReadableDataUnits n = itoa_nat (unat n) @ ''B''
     else let (c, prec, d) = (if n \<le> 2 ^ 20 then (CHR ''K'', 1, 2 ^ 10) else if n \<le> 2 ^ 30 then (CHR ''M'', 2, 2 ^ 20)
                       else if n \<le> 2 ^ 40 then (CHR ''G'', 3, 2 ^ 30) else (CHR ''T'', 4, 2 ^ 40))
       in \<exists>i ds. humanReadableDataUnits n = i @ CHR ''.'' # ds @ [c] \<and> list_all is_digit (i @ ds) \<and> length ds = prec \<and>
         10 ^ prec \<le> digits_val (i @ ds) \<and>
         2 ^ 24 * \<bar>int (digits_val (i @ ds)) * d - int (unat n) * 10 ^ prec\<bar> \<le> 2 ^ 23 * d + int (unat n) * 10 ^ prec"
proof (cases "n \<le> 1024")
  case True
  then show ?thesis using humanReadable_prefix_B[of n] by (simp add: humanReadableDataUnits_def)
next
  case False
  note u = word_less_nat_alt word_le_nat_alt
  define c where "c = humanReadable_prefix n"
  have "(c, humanReadable_prec c, int (humanReadable_divisor c)) =
      (if n \<le> 2 ^ 20 then (CHR ''K'', 1, 2 ^ 10) else if n \<le> 2 ^ 30 then (CHR ''M'', 2, 2 ^ 20)
       else if n \<le> 2 ^ 40 then (CHR ''G'', 3, 2 ^ 30) else (CHR ''T'', 4, 2 ^ 40))"
    using False by (auto simp: c_def humanReadable_prefix_def humanReadable_prec_def humanReadable_divisor_def Let_def u)
  note table = this[symmetric]
  let ?q = "humanReadable_scaled c (unat n)"
  have "0 < humanReadable_prec c" using table by (auto split: if_splits)
  from fixed_text_reads[OF this, of ?q] obtain i ds where
    t: "fixed_text (humanReadable_prec c) ?q = i @ CHR ''.'' # ds" "list_all is_digit (i @ ds)"
      "length ds = humanReadable_prec c" "digits_val (i @ ds) = ?q" by blast
  have "1024 < n" using False by simp
  from data_units_scaled[OF c_def this] have
    "humanReadableDataUnits n = i @ CHR ''.'' # ds @ [c]" "10 ^ humanReadable_prec c \<le> digits_val (i @ ds)"
    "2 ^ 24 * \<bar>int (digits_val (i @ ds)) * int (humanReadable_divisor c) - int (unat n) * 10 ^ humanReadable_prec c\<bar>
       \<le> 2 ^ 23 * int (humanReadable_divisor c) + int (unat n) * 10 ^ humanReadable_prec c"
    by (simp_all add: t(1,4))
  with t(2,3) have "\<exists>i ds. humanReadableDataUnits n = i @ CHR ''.'' # ds @ [c] \<and> list_all is_digit (i @ ds) \<and>
      length ds = humanReadable_prec c \<and> 10 ^ humanReadable_prec c \<le> digits_val (i @ ds) \<and>
      2 ^ 24 * \<bar>int (digits_val (i @ ds)) * int (humanReadable_divisor c) - int (unat n) * 10 ^ humanReadable_prec c\<bar>
       \<le> 2 ^ 23 * int (humanReadable_divisor c) + int (unat n) * 10 ^ humanReadable_prec c" by blast
  with False show ?thesis unfolding table Let_def by (simp only: if_False prod.case)
qed

lemma digit_chars:
  "digit 0 = CHR ''0''" "digit 1 = CHR ''1''" "digit (Suc 0) = CHR ''1''" "digit 2 = CHR ''2''" "digit 3 = CHR ''3''" "digit 4 = CHR ''4''"
  "digit 5 = CHR ''5''" "digit 6 = CHR ''6''" "digit 7 = CHR ''7''" "digit 8 = CHR ''8''" "digit 9 = CHR ''9''"
  by code_simp+

lemma replicate_3: "replicate 3 x = [x, x, x]"
  by (simp add: eval_nat_numeral)

lemmas data_units_eval = humanReadableDataUnits_def humanReadable_prefix_def humanReadable_scaled_def
  humanReadable_prec_def humanReadable_divisor_def fixed_text_def float32_of_def half_even_def
  bit_len.simps itoa_nat.simps digit_chars replicate_3 Let_def

lemma data_units_examples:
  "humanReadableDataUnits 0 = ''0B''" "humanReadableDataUnits 1024 = ''1024B''"
  "humanReadableDataUnits 1025 = ''1.0K''" "humanReadableDataUnits 1048576 = ''1024.0K''"
  "humanReadableDataUnits 1048577 = ''1.00M''" "humanReadableDataUnits 123456789 = ''117.74M''"
  "humanReadableDataUnits 18446744073709551615 = ''16777216.0000T''"
  by (simp_all add: data_units_eval)

section \<open>The rows\<close>

fun id_less :: "conn_id \<Rightarrow> conn_id \<Rightarrow> bool" where
  "id_less (k, p, n) (k', p', n') \<longleftrightarrow> k < k' \<or> k = k' \<and> (p < p' \<or> p = p' \<and> n < n')"

lemma tmpl_range_set: "gm_wf mm \<Longrightarrow> (k, v) \<in> set (tmpl_range (Some mm)) \<longleftrightarrow> gm_get mm k = Some v"
  by (simp add: tmpl_range_def gm_defs)

lemma tmpl_range_sorted: "gm_wf mm \<Longrightarrow> sorted_wrt (\<lambda>x y. fst x < fst y) (tmpl_range (Some mm))"
proof -
  assume w: "gm_wf mm"
  have "sorted (map fst (sort_key fst mm))" by simp
  moreover have "distinct (map fst (sort_key fst mm))"
    using w unfolding gm_wf_def distinct_map
    by (auto simp: distinct_map)
  ultimately show ?thesis
    by (simp add: tmpl_range_def strict_sorted_iff flip: sorted_wrt_map) 
qed

text \<open>Concatenating sorted groups whose heads are strictly ordered keeps the order.\<close>

lemma sorted_wrt_concat:
  assumes "\<And>x. x \<in> set xs \<Longrightarrow> sorted_wrt P (g x)" "sorted_wrt Q xs"
    "\<And>x y a b. Q x y \<Longrightarrow> a \<in> set (g x) \<Longrightarrow> b \<in> set (g y) \<Longrightarrow> P a b"
  shows "sorted_wrt P (concat (map g xs))"
  using assms by (induction xs) (auto simp: sorted_wrt_append)

fun cell_id :: "FeederStats \<times> uuid \<times> protocol \<times> u64 \<times> ConnectionDetail \<Rightarrow> conn_id" where
  "cell_id (f, k, p, n, c) = (k, p, n)"

lemma cell_id_detail: "cell_id (f, k, p, d) = (k, p, fst d)"
  by (cases d) simp

lemma range_conns:
  assumes "fs_Connections f = None \<or> wf_feeder f" "(p, pd) \<in> set (tmpl_range (fs_Connections f))"
  obtains dm where "IsValid p" "get_pd f p = pd" "pd_ConnectionDetails pd = Some dm" "gm_wf dm"
proof -
  have "fs_Connections f \<noteq> None" using assms(2) by (cases "fs_Connections f") (simp_all add: tmpl_range_def)
  with assms(1) have "wf_feeder f" by simp
  then obtain m where m: "fs_Connections f = Some m" "gm_wf m" "\<And>p. gm_get m p \<noteq> None \<longleftrightarrow> IsValid p"
    using wf_feederE[of f] by metis
  then have pd: "gm_get m p = Some pd" using assms(2) tmpl_range_set[OF m(2)] by simp
  then have v: "IsValid p" using m(3)[of p] by simp
  have "get_pd f p = pd" using pd by (simp add: get_pd_def m(1))
  moreover obtain dm where "pd_ConnectionDetails (get_pd f p) = Some dm" "gm_wf dm"
    using wf_feeder_pdE[OF _ v, of f] assms(1) m(1) by auto
  ultimately show thesis using that v by auto
qed

lemma page_cells_mem:
  assumes "weak_stats s"
  shows "(f, k, p, n, c) \<in> set (page_cells s) \<longleftrightarrow> gm_get (Feeders s) k = Some f \<and> lookup_conn s k p n = Some c"
proof
  assume "(f, k, p, n, c) \<in> set (page_cells s)"
  then obtain pd where k: "(k, f) \<in> set (tmpl_range (Some (Feeders s)))"
    and p: "(p, pd) \<in> set (tmpl_range (fs_Connections f))"
    and n: "(n, c) \<in> set (tmpl_range (pd_ConnectionDetails pd))"
    by (auto simp: page_cells_def)
  have f: "gm_get (Feeders s) k = Some f" using k assms by (simp add: tmpl_range_set weak_stats_def)
  then have w: "fs_Connections f = None \<or> wf_feeder f" using assms by (simp add: weak_stats_def)
  obtain dm where "get_pd f p = pd" "pd_ConnectionDetails pd = Some dm" "gm_wf dm"
    using range_conns[OF w p] by metis
  with n f show "gm_get (Feeders s) k = Some f \<and> lookup_conn s k p n = Some c"
    by (simp add: tmpl_range_set lookup_conn_def get_feeder_present)
next
  assume a: "gm_get (Feeders s) k = Some f \<and> lookup_conn s k p n = Some c"
  then have v: "IsValid p" "wf_feeder f"
    using lookup_valid_weak[OF assms, of k p n] by (simp_all add: get_feeder_present)
  obtain m dm where m: "fs_Connections f = Some m" "gm_get m p = Some (get_pd f p)"
    "pd_ConnectionDetails (get_pd f p) = Some dm" "gm_wf dm"
    using wf_feeder_pdE[OF v(2,1)] by metis
  obtain m' where m': "fs_Connections f = Some m'" "gm_wf m'" using wf_feederE[OF v(2)] by metis
  have "(k, f) \<in> set (tmpl_range (Some (Feeders s)))" using a assms by (simp add: tmpl_range_set weak_stats_def)
  moreover have "(p, get_pd f p) \<in> set (tmpl_range (fs_Connections f))" using m m' by (simp add: tmpl_range_set)
  moreover have "(n, c) \<in> set (tmpl_range (pd_ConnectionDetails (get_pd f p)))"
    using a m by (auto simp: tmpl_range_set lookup_conn_def get_feeder_present)
  ultimately show "(f, k, p, n, c) \<in> set (page_cells s)" unfolding page_cells_def by fastforce
qed

lemma page_cells_sorted:
  assumes "weak_stats s"
  shows "sorted_wrt (\<lambda>x y. id_less (cell_id x) (cell_id y)) (page_cells s)"
  unfolding page_cells_def
proof (rule sorted_wrt_concat[where Q = "\<lambda>x y. fst x < fst y"])
  have wf: "gm_wf (Feeders s)" using assms by (simp add: weak_stats_def)
  show "sorted_wrt (\<lambda>x y. fst x < fst y) (tmpl_range (Some (Feeders s)))" by (rule tmpl_range_sorted[OF wf])
  fix x assume x_in: "x \<in> set (tmpl_range (Some (Feeders s)))"
  obtain k f where "x = (k, f)" by (cases x)
  with x_in have x: "x = (k, f)" "gm_get (Feeders s) k = Some f" by (simp_all add: tmpl_range_set[OF wf])
  then have w: "fs_Connections f = None \<or> wf_feeder f" using assms by (simp add: weak_stats_def)
  have "sorted_wrt (\<lambda>x y. fst x < fst y) (tmpl_range (fs_Connections f))"
    using w tmpl_range_sorted wf_feederE by (cases "fs_Connections f") (auto simp: tmpl_range_def wf_feeder_def)
  then have "sorted_wrt (\<lambda>x y. id_less (cell_id x) (cell_id y))
      (concat (map (\<lambda>(p, pd). map (\<lambda>(n, c). (f, k, p, n, c)) (tmpl_range (pd_ConnectionDetails pd)))
         (tmpl_range (fs_Connections f))))"
  proof (rule sorted_wrt_concat[rotated])
    fix y assume y: "y \<in> set (tmpl_range (fs_Connections f))"
    obtain p pd where y': "y = (p, pd)" by (cases y)
    obtain dm where "pd_ConnectionDetails pd = Some dm" "gm_wf dm" using range_conns[OF w y[unfolded y']] by metis
    then have "sorted_wrt (\<lambda>x y. fst x < fst y) (tmpl_range (pd_ConnectionDetails pd))"
      using tmpl_range_sorted by simp
    then show "sorted_wrt (\<lambda>x y. id_less (cell_id x) (cell_id y))
        (case y of (p, pd) \<Rightarrow> map (\<lambda>(n, c). (f, k, p, n, c)) (tmpl_range (pd_ConnectionDetails pd)))"
      by (simp add: y' sorted_wrt_map split_def cell_id_detail)
  qed (auto split: prod.splits)
  then show "sorted_wrt (\<lambda>x y. id_less (cell_id x) (cell_id y))
      (case x of (k, f) \<Rightarrow> concat (map (\<lambda>(p, pd). map (\<lambda>(n, c). (f, k, p, n, c)) (tmpl_range (pd_ConnectionDetails pd)))
         (tmpl_range (fs_Connections f))))"
    by (simp add: x)
qed (auto split: prod.splits)

text \<open>The row of a connection.\<close>

definition shown :: "Statistics \<Rightarrow> conn_id \<Rightarrow> page_row" where
  "shown s i = (case i of (k, p, n) \<Rightarrow>
     let f = get_feeder s k; c = the (lookup_conn s k p n)
     in \<lparr>pr_Label = fs_Label f, pr_UUID = k, pr_Code = fs_Code f,
         pr_Proto = (if p = BEAST then ''BEAST'' else ''MLAT''), pr_ConnNum = n,
         pr_Src = cd_Src c, pr_Dst = cd_Dst c, pr_BytesIn = humanReadableDataUnits (cd_BytesIn c),
         pr_BytesOut = humanReadableDataUnits (cd_BytesOut c), pr_TimeConnected = cd_TimeConnected c\<rparr>)"

lemma go_map_Ret: "(\<And>x. x \<in> set xs \<Longrightarrow> g x = Ret (h x)) \<Longrightarrow> go_map g xs = Ret (map h xs)"
  by (induction xs) simp_all

lemma page_row_shown:
  assumes "weak_stats s" "(f, k, p, n, c) \<in> set (page_cells s)"
  shows "page_row_of f k p n c = Ret (shown s (k, p, n))"
  using assms(2) page_cells_mem[OF assms(1)] lookup_valid_weak[OF assms(1), of k p n]
  by (auto simp: page_row_of_def shown_def get_feeder_present)

text \<open>The rows of the page are the registered connections, in the order of their identifiers.\<close>

lemma page_ids:
  assumes "weak_stats s"
  shows "sorted_wrt id_less (map cell_id (page_cells s))"
    "set (map cell_id (page_cells s)) = {(k, p, n). lookup_conn s k p n \<noteq> None}"
proof -
  show "sorted_wrt id_less (map cell_id (page_cells s))" using page_cells_sorted[OF assms] by (simp add: sorted_wrt_map)
  have "(k, p, n) \<in> set (map cell_id (page_cells s)) \<longleftrightarrow> lookup_conn s k p n \<noteq> None" for k p n
  proof -
    have "(k, p, n) \<in> set (map cell_id (page_cells s)) \<longleftrightarrow> (\<exists>f c. (f, k, p, n, c) \<in> set (page_cells s))"
      by force
    also have "\<dots> \<longleftrightarrow> lookup_conn s k p n \<noteq> None"
      unfolding page_cells_mem[OF assms]
      by (cases "gm_get (Feeders s) k") (auto simp: lookup_conn_def get_feeder_def)
    finally show ?thesis .
  qed
  then show "set (map cell_id (page_cells s)) = {(k, p, n). lookup_conn s k p n \<noteq> None}"
    by (simp add: set_eq_iff split_paired_All del: set_map)
qed

text \<open>
  Whatever the interleaving of the operations before it, rendering panics only if writing to the
  client fails, and otherwise has one row for every registered connection, in that order.
\<close>
theorem statistics_page_shows_store:
  assumes "race_reach (Up s hs)"
  shows "httpRenderStats False s = Ret (map (shown s \<circ> cell_id) (page_cells s))"
    "httpRenderStats True s = Panic ''could not execute statsTemplate''"
proof -
  have w: "weak_stats s" using race_reach_inv[OF assms] by simp
  have "go_map (\<lambda>(f, k, p, n, c). page_row_of f k p n c) (page_cells s) = Ret (map (shown s \<circ> cell_id) (page_cells s))"
    using page_row_shown[OF w] by (intro go_map_Ret) auto
  then show "httpRenderStats False s = Ret (map (shown s \<circ> cell_id) (page_cells s))"
    "httpRenderStats True s = Panic ''could not execute statsTemplate''"
    by (simp_all add: httpRenderStats_def)
qed

end
