(* ===== verification/GoTime.thy ===== *)
theory GoTime
  imports GoText
begin

text \<open>
  The part of package \<open>time\<close> the statistics page uses: the calendar (proleptic Gregorian) and
  \<open>Time.Format\<close> with the layout \<open>Jan 02, 2006 15:04:05 UTC\<close>. An instant is in nanoseconds
  since the beginning of year 1 in UTC, as everywhere; the parameter \<open>zone\<close> gives the offset of the
  local time zone from UTC in seconds at an instant.
\<close>

section \<open>The calendar\<close>

definition leap :: "int \<Rightarrow> bool" where
  "leap y \<longleftrightarrow> 4 dvd y \<and> (\<not> 100 dvd y \<or> 400 dvd y)"

text \<open>The days before the first of January of a year, counted from year 1.\<close>

definition days_before_year :: "int \<Rightarrow> int" where
  "days_before_year y = 365 * (y - 1) + (y - 1) div 4 - (y - 1) div 100 + (y - 1) div 400"

definition year_days :: "int \<Rightarrow> int" where
  "year_days y = (if leap y then 366 else 365)"

text \<open>The year of a day: the 400-year cycle, the century, the four years and the year in it.\<close>

definition year_of_day :: "int \<Rightarrow> int" where
  "year_of_day d =
     (let n400 = d div 146097; d1 = d mod 146097;
          n100 = min 3 (d1 div 36524); d2 = d1 - 36524 * n100;
          n4 = d2 div 1461; d3 = d2 mod 1461;
          n1 = min 3 (d3 div 365)
      in 400 * n400 + 100 * n100 + 4 * n4 + n1 + 1)"

definition month_names :: "string list" where
  "month_names = [''Jan'', ''Feb'', ''Mar'', ''Apr'', ''May'', ''Jun'', ''Jul'', ''Aug'', ''Sep'', ''Oct'', ''Nov'', ''Dec'']"

definition month_lengths :: "int \<Rightarrow> int list" where
  "month_lengths y = [31, if leap y then 29 else 28, 31, 30, 31, 30, 31, 31, 30, 31, 30, 31]"

text \<open>Go through the months; the result is the month, from 0, and the day, from 1.\<close>

fun month_day :: "int list \<Rightarrow> int \<Rightarrow> nat \<times> int" where
  "month_day [] n = (0, n + 1)"
| "month_day (l # ls) n = (if n < l then (0, n + 1) else (case month_day ls (n - l) of (m, d) \<Rightarrow> (Suc m, d)))"

definition date_of_day :: "int \<Rightarrow> int \<times> nat \<times> int" where
  "date_of_day d = (let y = year_of_day d in (y, month_day (month_lengths y) (d - days_before_year y)))"

section \<open>Formatting\<close>

text \<open>A number padded with zeros.\<close>

definition pad_int :: "nat \<Rightarrow> int \<Rightarrow> string" where
  "pad_int w i = (let ds = itoa_nat (nat \<bar>i\<bar>)
     in (if i < 0 then ''-'' else []) @ replicate (w - length ds) CHR ''0'' @ ds)"

definition format_connected :: "(time \<Rightarrow> int) \<Rightarrow> time \<Rightarrow> string" where
  "format_connected zone t =
     (let sec = t div second + zone t; (y, m, d) = date_of_day (sec div 86400); s = sec mod 86400
      in month_names ! m @ '' '' @ pad_int 2 d @ '', '' @ pad_int 4 y @ '' '' @ pad_int 2 (s div 3600) @ '':'' @
         pad_int 2 (s div 60 mod 60) @ '':'' @ pad_int 2 (s mod 60) @ '' UTC'')"

section \<open>Lemmas\<close>

lemma days_before_next_year: "days_before_year (y + 1) = days_before_year y + year_days y"
proof -
  have step: "y div k - (y - 1) div k = (if k dvd y then 1 else 0)" if "0 < k" for k
  proof (cases "k dvd y")
    case True
    then obtain q where q: "y = k * q" by blast
    then have "(y - 1) div k = q - 1" using that by (intro int_div_pos_eq[of _ _ _ "k - 1"]) (simp_all add: algebra_simps)
    with True q that show ?thesis by simp
  next
    case False
    define q r where "q = y div k" and "r = y mod k"
    have "r \<noteq> 0" using False unfolding r_def dvd_eq_mod_eq_0 .
    moreover have "y = k * q + r" unfolding q_def r_def by (rule mult_div_mod_eq[symmetric])
    moreover have "0 \<le> r" "r < k"
      unfolding r_def using that by (rule pos_mod_sign, rule pos_mod_bound)
    ultimately have "(y - 1) div k = q"
      by (intro int_div_pos_eq[of _ _ _ "r - 1"]) linarith+
    with False show ?thesis by (simp add: q_def)
  qed
  have dvd: "100 dvd y \<Longrightarrow> 4 dvd y" "400 dvd y \<Longrightarrow> 100 dvd y"
    by (erule dvd_trans[rotated], simp)+
  have cnt: "365 + (if a then 1 else 0) - (if b then 1 else 0) + (if c then 1 else 0) = (if a \<and> (\<not> b \<or> c) then 366 else 365 :: int)"
    if "b \<Longrightarrow> a" "c \<Longrightarrow> b" for a b c
    using that by (cases a; cases b; cases c) (simp, blast?)+
  have alg: "365 * y + a - b + c - (365 * (y - 1) + a' - b' + c') = 365 + (a - a') - (b - b') + (c - c')"
    for a b c a' b' c' :: int by simp
  have "days_before_year (y + 1) - days_before_year y = 365 + (y div 4 - (y - 1) div 4)
      - (y div 100 - (y - 1) div 100) + (y div 400 - (y - 1) div 400)"
    unfolding days_before_year_def add_diff_cancel_right' by (rule alg)
  also have "\<dots> = 365 + (if 4 dvd y then 1 else 0) - (if 100 dvd y then 1 else 0) + (if 400 dvd y then 1 else 0)"
    by (simp only: step zero_less_numeral)
  also have "\<dots> = year_days y" unfolding year_days_def leap_def by (rule cnt[OF dvd])
  finally show ?thesis by linarith
qed

text \<open>The year found is the one whose days the day is among.\<close>

lemma year_of_day: "days_before_year (year_of_day d) \<le> d \<and> d < days_before_year (year_of_day d + 1)"
proof -
  define n400 d1 where "n400 = d div 146097" and "d1 = d mod 146097"
  define n100 d2 where "n100 = min 3 (d1 div 36524)" and "d2 = d1 - 36524 * n100"
  define n4 d3 where "n4 = d2 div 1461" and "d3 = d2 mod 1461"
  define n1 where "n1 = min 3 (d3 div 365)"
  have y: "year_of_day d = 400 * n400 + 100 * n100 + 4 * n4 + n1 + 1"
    unfolding year_of_day_def Let_def n400_def d1_def n100_def d2_def n4_def d3_def n1_def ..
  have d: "d = 146097 * n400 + d1" "0 \<le> d1" "d1 < 146097" by (simp_all add: n400_def d1_def)
  have b100: "0 \<le> n100" "n100 \<le> 3" "0 \<le> d2" "d2 \<le> 36524" "n100 < 3 \<Longrightarrow> d2 < 36524"
    using d(2,3) by (auto simp: n100_def d2_def min_def)
  have b4: "d2 = 1461 * n4 + d3" "0 \<le> d3" "d3 < 1461" by (simp_all add: n4_def d3_def)
  have n4: "0 \<le> n4" "n4 \<le> 24" using b100(3,4) b4 by linarith+
  have b1: "0 \<le> n1" "n1 \<le> 3" "365 * n1 \<le> d3" "d3 \<le> 365 * n1 + 365" "n1 < 3 \<Longrightarrow> d3 < 365 * n1 + 365"
    using b4(2,3) by (auto simp: n1_def min_def)
  have c: "4 * n4 + n1 \<le> 99" using n4 b1 by linarith
  let ?z = "400 * n400 + 100 * n100 + 4 * n4 + n1"
  have q4: "?z div 4 = 100 * n400 + 25 * n100 + n4" using b1 by (intro int_div_pos_eq[of _ _ _ n1]) simp_all
  have q100: "?z div 100 = 4 * n400 + n100"
    using c n4 b1 by (intro int_div_pos_eq[of _ _ _ "4 * n4 + n1"]) simp_all
  have q400: "?z div 400 = n400"
    using c n4 b1 b100 by (intro int_div_pos_eq[of _ _ _ "100 * n100 + 4 * n4 + n1"]) simp_all
  have before: "days_before_year (year_of_day d) = 146097 * n400 + 36524 * n100 + 1461 * n4 + 365 * n1"
    unfolding y days_before_year_def by (simp add: q4 q100 q400)
  have lo: "days_before_year (year_of_day d) \<le> d" using before d b4 b1 d2_def by linarith
  have "d - days_before_year (year_of_day d) = d3 - 365 * n1" using before d(1) b4(1) d2_def by linarith
  moreover have "d3 - 365 * n1 < year_days (year_of_day d)"
  proof (cases "n1 = 3 \<and> (n4 \<noteq> 24 \<or> n100 = 3)")
    case True
    have "year_of_day d = 4 * (100 * n400 + 25 * n100 + n4 + 1)" unfolding y using True by simp
    then have "4 dvd year_of_day d" by simp
    moreover have "\<not> 100 dvd year_of_day d \<or> 400 dvd year_of_day d"
    proof (cases "n4 = 24")
      case True
      then have "year_of_day d = 400 * (n400 + 1)" unfolding y using \<open>n1 = 3 \<and> (n4 \<noteq> 24 \<or> n100 = 3)\<close> by simp
      then show ?thesis by simp
    next
      case False
      have "year_of_day d = 100 * (4 * n400 + n100) + 4 * (n4 + 1)" unfolding y using True by simp
      then have "100 dvd year_of_day d \<longleftrightarrow> 100 dvd 4 * (n4 + 1)" by (simp only: dvd_add_right_iff[OF dvd_triv_left])
      moreover have "\<not> 100 dvd 4 * (n4 + 1)" using False n4 by (intro zdvd_not_zless) auto
      ultimately show ?thesis by blast
    qed
    ultimately have "leap (year_of_day d)" by (simp add: leap_def)
    then show ?thesis using True b4(3) by (simp add: year_days_def)
  next
    case False
    have "d3 < 365 * n1 + 365"
    proof (cases "n1 = 3")
      case True
      with False have "n4 = 24" "n100 < 3" using b100 by auto
      then have "d3 < 1460" using b100(5) b4(1) by linarith
      with True show ?thesis by simp
    qed (use b1 in linarith)
    then show ?thesis by (simp add: year_days_def)
  qed
  ultimately show ?thesis using lo days_before_next_year by auto
qed

lemma month_day_sum:
  "0 \<le> n \<Longrightarrow> n < sum_list ls \<Longrightarrow> month_day ls n = (m, d) \<Longrightarrow>
     m < length ls \<and> 1 \<le> d \<and> d \<le> ls ! m \<and> n = sum_list (take m ls) + d - 1"
proof (induction ls n arbitrary: m d rule: month_day.induct)
  case (2 l ls n)
  show ?case
  proof (cases "n < l")
    case False
    obtain m' where m': "month_day ls (n - l) = (m', d)" "m = Suc m'" using 2(4) False by (auto split: prod.splits)
    from 2(1)[OF False _ _ m'(1)] False 2(2,3) m'(2) show ?thesis by auto
  qed (use 2 in auto)
qed simp

lemma month_lengths_length: "length (month_lengths y) = 12"
  by (simp add: month_lengths_def)

lemma month_lengths_sum: "sum_list (month_lengths y) = year_days y"
  by (simp add: month_lengths_def year_days_def)

text \<open>The date of a day, and back: the year, month and day give the day again.\<close>

definition day_of_date :: "int \<Rightarrow> nat \<Rightarrow> int \<Rightarrow> int" where
  "day_of_date y m d = days_before_year y + sum_list (take m (month_lengths y)) + d - 1"

theorem date_of_day_inverse:
  "case date_of_day n of (y, m, d) \<Rightarrow>
     m < 12 \<and> 1 \<le> d \<and> d \<le> month_lengths y ! m \<and> day_of_date y m d = n"
proof -
  let ?y = "year_of_day n"
  obtain m d where md: "month_day (month_lengths ?y) (n - days_before_year ?y) = (m, d)"
    by (cases "month_day (month_lengths ?y) (n - days_before_year ?y)")
  have "0 \<le> n - days_before_year ?y" "n - days_before_year ?y < sum_list (month_lengths ?y)"
    using year_of_day[of n] by (simp_all add: month_lengths_sum days_before_next_year)
  from month_day_sum[OF this md] have "m < 12" "1 \<le> d" "d \<le> month_lengths ?y ! m" "day_of_date ?y m d = n"
    by (simp_all add: month_lengths_length day_of_date_def)
  then show ?thesis by (simp add: date_of_day_def Let_def md)
qed

end
