(* ===== verification/StatsHtml.thy ===== *)
theory StatsHtml
  imports StatsPage GoTime
begin

text \<open>
  The text of the statistics page: \<open>lib/stats/stats.tmpl\<close> as \<open>html/template\<close> executes it for
  \<open>httpRenderStats\<close>, with the escaping of the values, the link of a row and the text of the connection
  time; and a reader of the page that knows nothing but tags and character references. A string is
  the list of its bytes. The text of a UUID, \<open>us\<close>, belongs to the UUID package and is a parameter.
\<close>

section \<open>Escaping\<close>

text \<open>The replacement table of \<open>html/template\<close> for a value in a text or a quoted attribute.\<close>

definition html_escape_char :: "char \<Rightarrow> string" where
  "html_escape_char c =
     (if c = CHR 0x00 then [CHR 0xEF, CHR 0xBF, CHR 0xBD]
      else if c = CHR 0x22 then ''&#34;'' else if c = CHR ''&'' then ''&amp;''
      else if c = CHR 0x27 then ''&#39;'' else if c = CHR ''+'' then ''&#43;''
      else if c = CHR ''<'' then ''&lt;'' else if c = CHR ''>'' then ''&gt;'' else [c])"

definition html_escape :: "string \<Rightarrow> string" where
  "html_escape s = concat (map html_escape_char s)"

text \<open>The normalisation of a value in the path of a link: what may not stand in a URL becomes \<open>%xx\<close>.\<close>

definition hex_char :: "char \<Rightarrow> bool" where
  "hex_char c \<longleftrightarrow> is_digit c \<or> c \<in> set ''abcdefABCDEF''"

definition url_keeps :: "char \<Rightarrow> bool" where
  "url_keeps c \<longleftrightarrow> is_digit c \<or> c \<in> set ''abcdefghijklmnopqrstuvwxyzABCDEFGHIJKLMNOPQRSTUVWXYZ''
     \<or> c \<in> set ''-._~!#$&*+,/:;=?@[]''"

definition percent_byte :: "char \<Rightarrow> string" where
  "percent_byte c = (let n = of_char c :: nat
     in [CHR ''%'', ''0123456789abcdef'' ! (n div 16), ''0123456789abcdef'' ! (n mod 16)])"

fun url_normalize :: "string \<Rightarrow> string" where
  "url_normalize [] = []"
| "url_normalize (c # cs) =
     (if url_keeps c \<or> c = CHR ''%'' \<and> 2 \<le> length cs \<and> list_all hex_char (take 2 cs)
      then [c] else percent_byte c) @ url_normalize cs"

section \<open>The template\<close>

definition nl :: string where
  "nl = [CHR 0x0A]"

definition blanks :: "nat \<Rightarrow> string" where
  "blanks n = replicate n CHR '' ''"

text \<open>One line of a row: the cell with its attributes. The value is escaped already.\<close>

definition td_html :: "string \<Rightarrow> string \<Rightarrow> string" where
  "td_html attr v = blanks 16 @ ''<td'' @ attr @ ''>'' @ v @ ''</td>'' @ nl"

definition link_html :: "string \<Rightarrow> string" where
  \<open>link_html u = ''<a href="/api/v1/feeder/'' @ html_escape (url_normalize u) @ ''">'' @ html_escape u @ ''</a>''\<close>

definition centre :: string where
  \<open>centre = '' style="text-align: center;"''\<close>

definition right :: string where
  \<open>right = '' style="text-align: right;"''\<close>

definition row_html :: "(uuid \<Rightarrow> string) \<Rightarrow> (time \<Rightarrow> int) \<Rightarrow> page_row \<Rightarrow> string" where
  "row_html us zone r = nl @ blanks 12 @ ''<tr>'' @ nl @
     td_html [] (html_escape (pr_Label r)) @
     td_html [] (link_html (us (pr_UUID r))) @
     td_html [] (html_escape (pr_Code r)) @
     td_html centre (html_escape (pr_Proto r)) @
     td_html centre (html_escape (itoa_nat (unat (pr_ConnNum r)))) @
     td_html [] (html_escape (pr_Src r)) @
     td_html [] (html_escape (pr_Dst r)) @
     td_html right (html_escape (pr_BytesIn r)) @
     td_html right (html_escape (pr_BytesOut r)) @
     td_html [] (html_escape (format_connected zone (pr_TimeConnected r))) @
     blanks 12 @ ''</tr>'' @ nl @ blanks 10"

definition page_head :: string where
  \<open>page_head = go_join CHR 0x0A
     [''<!DOCTYPE html>'',
      ''<html>'',
      ''  <head>'',
      ''    <style>'',
      ''      table, th, td {'',
      ''        border: 1px solid black;'',
      ''        border-collapse: collapse;'',
      ''      }'',
      ''      body {'',
      ''        font-family: "Lucida Console", "Courier New", monospace;'',
      ''      }'',
      ''    </style>'',
      ''    '',
      ''  </head>'',
      ''  <body>'',
      ''    <table style="width:100%">'',
      ''      <tr>'',
      ''          <th>Feeder</th>'',
      ''          <th>UUID</th>'',
      ''          <th>Code</th>'',
      ''          <th>Proto</th>'',
      ''          <th>Conn #</th>'',
      ''          <th>Src</th>'',
      ''          <th>Dst</th>'',
      ''          <th colspan="2">Bytes In/Out</th>'',
      ''          <th>Connection Time</th>'',
      ''      </tr>'',
      ''      '']\<close>

definition page_foot :: string where
  \<open>page_foot = go_join CHR 0x0A
     ['''',
      ''    </table>'',
      ''  </body>'',
      ''</html>'',
      '''']\<close>

text \<open>The three nested \<open>range\<close> blocks, with the white space around them.\<close>

definition proto_html :: "(uuid \<Rightarrow> string) \<Rightarrow> (time \<Rightarrow> int) \<Rightarrow> FeederStats \<Rightarrow> uuid \<Rightarrow> protocol \<times> ProtocolDetail \<Rightarrow> string go" where
  "proto_html us zone f k ppd = (case ppd of (p, pd) \<Rightarrow>
     go_bind (go_map (\<lambda>(n, c). go_bind (page_row_of f k p n c) (\<lambda>r. Ret (row_html us zone r)))
                (tmpl_range (pd_ConnectionDetails pd)))
       (\<lambda>hs. Ret (nl @ blanks 10 @ concat hs @ nl @ blanks 8)))"

definition feeder_html :: "(uuid \<Rightarrow> string) \<Rightarrow> (time \<Rightarrow> int) \<Rightarrow> uuid \<times> FeederStats \<Rightarrow> string go" where
  "feeder_html us zone kf = (case kf of (k, f) \<Rightarrow>
     go_bind (go_map (proto_html us zone f k) (tmpl_range (fs_Connections f)))
       (\<lambda>hs. Ret (nl @ blanks 8 @ concat hs @ nl @ blanks 6)))"

definition stats_tmpl :: "(uuid \<Rightarrow> string) \<Rightarrow> (time \<Rightarrow> int) \<Rightarrow> Statistics \<Rightarrow> string go" where
  "stats_tmpl us zone s =
     go_bind (go_map (feeder_html us zone) (tmpl_range (Some (Feeders s))))
       (\<lambda>hs. Ret (page_head @ concat hs @ page_foot))"

text \<open>The text the client gets.\<close>

definition httpRenderStats_text :: "(uuid \<Rightarrow> string) \<Rightarrow> (time \<Rightarrow> int) \<Rightarrow> bool \<Rightarrow> Statistics \<Rightarrow> string go" where
  "httpRenderStats_text us zone write_err s =
     (case stats_tmpl us zone s of
        Panic m \<Rightarrow> Panic ''could not execute statsTemplate''
      | Ret text \<Rightarrow> if write_err then Panic ''could not execute statsTemplate'' else Ret text)"

section \<open>A reader of the page\<close>

text \<open>
  It reads character by character, keeps the cells of the table with their tags left out and the
  addresses of the links, and knows the character references of the escaping.
\<close>

fun html_unescape :: "string \<Rightarrow> string" where
  "html_unescape [] = []"
| "html_unescape (c # cs) =
     (if c \<noteq> CHR ''&'' then c # html_unescape cs
      else if take 4 cs = ''#34;'' then CHR 0x22 # html_unescape (drop 4 cs)
      else if take 4 cs = ''amp;'' then CHR ''&'' # html_unescape (drop 4 cs)
      else if take 4 cs = ''#39;'' then CHR 0x27 # html_unescape (drop 4 cs)
      else if take 4 cs = ''#43;'' then CHR ''+'' # html_unescape (drop 4 cs)
      else if take 3 cs = ''lt;'' then CHR ''<'' # html_unescape (drop 3 cs)
      else if take 3 cs = ''gt;'' then CHR ''>'' # html_unescape (drop 3 cs)
      else c # html_unescape cs)"

record page_reader =
  pg_tag :: "string option"
  pg_cell :: "string option"
  pg_cells :: "string list"
  pg_links :: "string list"

definition read_tag :: "string \<Rightarrow> page_reader \<Rightarrow> page_reader" where
  \<open>read_tag t g =
     (if take 2 t = ''td'' then g\<lparr>pg_cell := Some []\<rparr>
      else if t = ''/td'' then g\<lparr>pg_cells := pg_cells g @ [html_unescape (case pg_cell g of None \<Rightarrow> [] | Some x \<Rightarrow> x)], pg_cell := None\<rparr>
      else if take 8 t = ''a href="'' then g\<lparr>pg_links := pg_links g @ [html_unescape (takeWhile (\<lambda>c. c \<noteq> CHR 0x22) (drop 8 t))]\<rparr>
      else g)\<close>

definition read_char :: "page_reader \<Rightarrow> char \<Rightarrow> page_reader" where
  "read_char g c =
     (case pg_tag g of
        Some t \<Rightarrow> if c = CHR ''>'' then read_tag t (g\<lparr>pg_tag := None\<rparr>) else g\<lparr>pg_tag := Some (t @ [c])\<rparr>
      | None \<Rightarrow> if c = CHR ''<'' then g\<lparr>pg_tag := Some []\<rparr> else g\<lparr>pg_cell := map_option (\<lambda>x. x @ [c]) (pg_cell g)\<rparr>)"

definition reader_at :: "string option \<Rightarrow> string list \<Rightarrow> string list \<Rightarrow> page_reader" where
  "reader_at cell cells links = \<lparr>pg_tag = None, pg_cell = cell, pg_cells = cells, pg_links = links\<rparr>"

definition read_page :: "string \<Rightarrow> page_reader" where
  "read_page text = foldl read_char (reader_at None [] []) text"

section \<open>Lemmas\<close>

text \<open>A byte zero is shown as the replacement character; every other byte is read back.\<close>

definition nul_replaced :: "string \<Rightarrow> string" where
  "nul_replaced s = concat (map (\<lambda>c. if c = CHR 0x00 then [CHR 0xEF, CHR 0xBF, CHR 0xBD] else [c]) s)"

lemma html_unescape_escape: "html_unescape (html_escape s) = nul_replaced s"
proof (induction s)
  case (Cons c s)
  have "html_unescape (html_escape_char c @ r) = nul_replaced [c] @ html_unescape r" for r
    by (simp add: html_escape_char_def nul_replaced_def)
  with Cons show ?case by (simp add: html_escape_def nul_replaced_def)
qed (simp add: html_escape_def nul_replaced_def)

definition markup :: "char \<Rightarrow> bool" where
  "markup c \<longleftrightarrow> c \<in> set [CHR ''<'', CHR ''>'', CHR 0x22]"

lemma html_escape_safe: "c \<in> set (html_escape s) \<Longrightarrow> \<not> markup c"
  by (auto simp: html_escape_def html_escape_char_def markup_def split: if_splits)

lemma read_text: "list_all (\<lambda>c. \<not> markup c) s \<Longrightarrow>
    foldl read_char (reader_at cell cs ls) s = reader_at (map_option (\<lambda>x. x @ s) cell) cs ls"
  by (induction s arbitrary: cell) (simp_all add: read_char_def reader_at_def markup_def option.map_comp comp_def option.map_ident)

lemma read_tag_text: "list_all (\<lambda>c. c \<noteq> CHR ''>'') s \<Longrightarrow>
    foldl read_char (g\<lparr>pg_tag := Some t\<rparr>) s = g\<lparr>pg_tag := Some (t @ s)\<rparr>"
  by (induction s arbitrary: t) (simp_all add: read_char_def)

lemma read_whole_tag:
  assumes "list_all (\<lambda>c. c \<noteq> CHR ''>'') t"
  shows "foldl read_char (reader_at cell cs ls) (CHR ''<'' # t @ CHR ''>'' # r) = foldl read_char (read_tag t (reader_at cell cs ls)) r"
  using read_tag_text[OF assms, where g = "reader_at cell cs ls" and t = "[]"]
  by (simp add: read_char_def reader_at_def)

lemma reads_blanks: "list_all (\<lambda>c. \<not> markup c) (blanks n)" "list_all (\<lambda>c. \<not> markup c) nl"
  by (simp_all add: blanks_def nl_def markup_def list_all_iff)

lemma read_blanks:
  "foldl read_char (reader_at None cs ls) (blanks n) = reader_at None cs ls"
  "foldl read_char (reader_at None cs ls) nl = reader_at None cs ls"
  by (simp_all add: read_text reads_blanks)

text \<open>What one tag does to the reader.\<close>

lemma read_tag_cases:
  "read_tag (''td'' @ attr) (reader_at cell cs ls) = reader_at (Some []) cs ls"
  "read_tag ''/td'' (reader_at cell cs ls) = reader_at None (cs @ [html_unescape (case cell of None \<Rightarrow> [] | Some x \<Rightarrow> x)]) ls"
  "read_tag ''tr'' (reader_at cell cs ls) = reader_at cell cs ls"
  "read_tag ''/tr'' (reader_at cell cs ls) = reader_at cell cs ls"
  "read_tag ''/a'' (reader_at cell cs ls) = reader_at cell cs ls"
  by (simp_all add: read_tag_def reader_at_def)

lemma read_td:
  assumes "list_all (\<lambda>c. c \<noteq> CHR ''>'') attr"
    "\<And>r. foldl read_char (reader_at (Some []) cs ls) (v @ r) = foldl read_char (reader_at (Some x) cs ls') r"
  shows "foldl read_char (reader_at None cs ls) (td_html attr v) = reader_at None (cs @ [html_unescape x]) ls'"
proof -
  let ?close = "CHR ''<'' # ''/td'' @ CHR ''>'' # nl"
  have eq: "td_html attr v = blanks 16 @ CHR ''<'' # (''td'' @ attr) @ CHR ''>'' # (v @ ?close)"
    by (simp add: td_html_def)
  have open_tag: "foldl read_char (reader_at None cs ls) (CHR ''<'' # (''td'' @ attr) @ CHR ''>'' # r) =
      foldl read_char (reader_at (Some []) cs ls) r" for r
    using read_whole_tag[of "''td'' @ attr"] assms(1) unfolding read_tag_cases(1) by simp
  have close_tag: "foldl read_char (reader_at (Some x) cs ls') ?close = reader_at None (cs @ [html_unescape x]) ls'"
    using read_whole_tag[of "''/td''" "Some x" cs ls' nl] unfolding read_tag_cases(2) read_blanks by simp
  show ?thesis
    unfolding eq foldl_append[of _ _ "blanks 16"] read_blanks open_tag assms(2) close_tag ..
qed

lemma read_escaped: "foldl read_char (reader_at (Some x) cs ls) (html_escape v) = reader_at (Some (x @ html_escape v)) cs ls"
  using html_escape_safe by (subst read_text) (auto simp: list_all_iff)

lemma read_td_text:
  assumes "list_all (\<lambda>c. c \<noteq> CHR ''>'') attr"
  shows "foldl read_char (reader_at None cs ls) (td_html attr (html_escape v)) = reader_at None (cs @ [nul_replaced v]) ls"
  using read_td[OF assms, of cs ls "html_escape v" "html_escape v" ls] by (simp add: read_escaped html_unescape_escape)


text \<open>The link of a row.\<close>

lemma read_tag_link:
  assumes "list_all (\<lambda>c. \<not> markup c) h"
  shows \<open>read_tag (''a href="'' @ h @ ''"'') (reader_at cell cs ls) = reader_at cell cs (ls @ [html_unescape h])\<close>
proof -
  have "takeWhile (\<lambda>c. c \<noteq> CHR 0x22) (h @ [CHR 0x22]) = h"
    using assms by (subst takeWhile_append2) (auto simp: list_all_iff markup_def)
  then show ?thesis by (simp add: read_tag_def reader_at_def)
qed

lemma html_unescape_plain: "CHR ''&'' \<notin> set a \<Longrightarrow> html_unescape (a @ b) = a @ html_unescape b"
  by (induction a) auto

lemma read_link:
  "foldl read_char (reader_at (Some []) cs ls) (link_html u @ r) =
     foldl read_char (reader_at (Some (html_escape u)) cs (ls @ [feeder_path @ nul_replaced (url_normalize u)])) r"
proof -
  let ?h = "feeder_path @ html_escape (url_normalize u)"
  have safe: "list_all (\<lambda>c. \<not> markup c) ?h" "list_all (\<lambda>c. c \<noteq> CHR ''>'') ?h"
    using html_escape_safe[of _ "url_normalize u"] by (auto simp: list_all_iff feeder_path_def markup_def)
  have eq: \<open>link_html u @ r = CHR ''<'' # (''a href="'' @ ?h @ ''"'') @ CHR ''>'' # (html_escape u @ CHR ''<'' # ''/a'' @ CHR ''>'' # r)\<close>
    by (simp add: link_html_def feeder_path_def)
  have "html_unescape ?h = feeder_path @ nul_replaced (url_normalize u)"
    by (simp add: html_unescape_plain feeder_path_def html_unescape_escape)
  then have open_tag: \<open>foldl read_char (reader_at (Some []) cs ls) (CHR ''<'' # (''a href="'' @ ?h @ ''"'') @ CHR ''>'' # r') =
      foldl read_char (reader_at (Some []) cs (ls @ [feeder_path @ nul_replaced (url_normalize u)])) r'\<close> for r'
    using read_whole_tag[of \<open>''a href="'' @ ?h @ ''"''\<close>] safe(2) unfolding read_tag_link[OF safe(1)] by simp
  have close_tag: "foldl read_char (reader_at (Some x) cs ls') (CHR ''<'' # ''/a'' @ CHR ''>'' # r) = foldl read_char (reader_at (Some x) cs ls') r"
    for x ls' using read_whole_tag[of "''/a''" "Some x" cs ls' r] unfolding read_tag_cases by simp
  show ?thesis unfolding eq open_tag foldl_append read_escaped close_tag by simp
qed

text \<open>The values of a row, as the reader sees them.\<close>

definition row_values :: "(uuid \<Rightarrow> string) \<Rightarrow> (time \<Rightarrow> int) \<Rightarrow> page_row \<Rightarrow> string list" where
  "row_values us zone r = map nul_replaced
     [pr_Label r, us (pr_UUID r), pr_Code r, pr_Proto r, itoa_nat (unat (pr_ConnNum r)), pr_Src r, pr_Dst r,
      pr_BytesIn r, pr_BytesOut r, format_connected zone (pr_TimeConnected r)]"

lemma attributes_closed: "list_all (\<lambda>c. c \<noteq> CHR ''>'') centre" "list_all (\<lambda>c. c \<noteq> CHR ''>'') right"
  by (simp_all add: centre_def right_def)

lemma read_tr:
  "foldl read_char (reader_at None cs ls) (''<tr>'' @ s) = foldl read_char (reader_at None cs ls) s"
  "foldl read_char (reader_at None cs ls) (''</tr>'' @ s) = foldl read_char (reader_at None cs ls) s"
  using read_whole_tag[of "''tr''" None cs ls s] read_whole_tag[of "''/tr''" None cs ls s]
  unfolding read_tag_cases by simp_all

lemma read_blanks_then:
  "foldl read_char (reader_at None cs ls) (blanks n @ s) = foldl read_char (reader_at None cs ls) s"
  "foldl read_char (reader_at None cs ls) (nl @ s) = foldl read_char (reader_at None cs ls) s"
  by (simp_all add: read_blanks)

lemma read_td_then:
  "list_all (\<lambda>c. c \<noteq> CHR ''>'') attr \<Longrightarrow>
   foldl read_char (reader_at None cs ls) (td_html attr (html_escape v) @ s) = foldl read_char (reader_at None (cs @ [nul_replaced v]) ls) s"
  by (simp only: foldl_append read_td_text)

lemma read_td_link_then:
  "foldl read_char (reader_at None cs ls) (td_html [] (link_html u) @ s) =
     foldl read_char (reader_at None (cs @ [nul_replaced u]) (ls @ [feeder_path @ nul_replaced (url_normalize u)])) s"
  using read_td[OF _ read_link, of "[]" cs ls u] by (simp add: html_unescape_escape)

lemma read_row:
  "foldl read_char (reader_at None cs ls) (row_html us zone r) =
     reader_at None (cs @ row_values us zone r) (ls @ [feeder_path @ nul_replaced (url_normalize (us (pr_UUID r)))])"
  unfolding row_html_def
  by (simp only: read_blanks_then read_tr read_td_then read_td_link_then attributes_closed list.pred_inject read_blanks)
     (simp add: row_values_def)


section \<open>The page is read back\<close>

text \<open>A text after which the reader is outside the tags again, with more cells and links.\<close>

definition reads_as :: "string \<Rightarrow> string list \<Rightarrow> string list \<Rightarrow> bool" where
  "reads_as h V K \<longleftrightarrow>
     (\<forall>cs ls. foldl read_char (reader_at None cs ls) h = reader_at None (cs @ V) (ls @ K))"

lemma reads_as_append: "reads_as a V K \<Longrightarrow> reads_as b V' K' \<Longrightarrow> reads_as (a @ b) (V @ V') (K @ K')"
  by (simp add: reads_as_def)

lemma reads_as_blanks: "reads_as (blanks n) [] []" "reads_as nl [] []"
  by (simp_all add: reads_as_def read_blanks)

lemma reads_as_framed:
  assumes "reads_as h V K"
  shows "reads_as (nl @ blanks m @ h @ nl @ blanks n) V K"
  using reads_as_append[OF reads_as_blanks(2) reads_as_append[OF reads_as_blanks(1)[of m] reads_as_append[OF assms
      reads_as_append[OF reads_as_blanks(2) reads_as_blanks(1)[of n]]]]] by simp

lemma reads_as_head: "reads_as page_head [] []"
  by (simp add: reads_as_def page_head_def read_char_def read_tag_def reader_at_def)

lemma reads_as_foot: "reads_as page_foot [] []"
  by (simp add: reads_as_def page_foot_def read_char_def read_tag_def reader_at_def)

lemma go_map_reads:
  "(\<And>x. x \<in> set xs \<Longrightarrow> \<exists>h. g x = Ret h \<and> reads_as h (V x) (K x)) \<Longrightarrow>
   \<exists>hs. go_map g xs = Ret hs \<and> reads_as (concat hs) (concat (map V xs)) (concat (map K xs))"
proof (induction xs)
  case (Cons x xs)
  then obtain hs where "go_map g xs = Ret hs" "reads_as (concat hs) (concat (map V xs)) (concat (map K xs))" by auto
  moreover obtain h where "g x = Ret h" "reads_as h (V x) (K x)" using Cons.prems by auto
  ultimately show ?case by (auto intro!: reads_as_append)
qed (simp add: reads_as_def)

definition link_of :: "(uuid \<Rightarrow> string) \<Rightarrow> conn_id \<Rightarrow> string" where
  "link_of us i = feeder_path @ nul_replaced (url_normalize (us (fst i)))"

lemma concat_concat: "concat (concat xsss) = concat (map concat xsss)"
  by (induction xsss) simp_all

lemma stats_tmpl_reads:
  assumes "\<And>f k p n c. (f, k, p, n, c) \<in> set (page_cells s) \<Longrightarrow> page_row_of f k p n c = Ret (shown s (k, p, n))"
  shows "\<exists>text. stats_tmpl us zone s = Ret text \<and>
     reads_as text (concat (map (row_values us zone \<circ> shown s \<circ> cell_id) (page_cells s)))
       (map (link_of us \<circ> cell_id) (page_cells s))"
proof -
  let ?V = "row_values us zone \<circ> shown s" and ?K = "link_of us"
  have proto: "\<exists>h. proto_html us zone f k ppd = Ret h \<and>
      reads_as h (concat (map (\<lambda>nc. ?V (k, fst ppd, fst nc)) (tmpl_range (pd_ConnectionDetails (snd ppd)))))
        (concat (map (\<lambda>nc. [?K (k, fst ppd, fst nc)]) (tmpl_range (pd_ConnectionDetails (snd ppd)))))"
    if "(k, f) \<in> set (tmpl_range (Some (Feeders s)))" "ppd \<in> set (tmpl_range (fs_Connections f))" for k f ppd
  proof -
    obtain p pd where ppd: "ppd = (p, pd)" by (cases ppd)
    let ?g = "\<lambda>(n, c). go_bind (page_row_of f k p n c) (\<lambda>r. Ret (row_html us zone r))"
    have "\<exists>h. ?g nc = Ret h \<and> reads_as h (?V (k, p, fst nc)) [?K (k, p, fst nc)]"
      if nc: "nc \<in> set (tmpl_range (pd_ConnectionDetails pd))" for nc
    proof -
      obtain n c where n: "nc = (n, c)" by (cases nc)
      have "(f, k, p, n, c) \<in> set (page_cells s)" using that \<open>(k, f) \<in> _\<close> \<open>ppd \<in> _\<close> n ppd
        unfolding page_cells_def by fastforce
      from assms[OF this] show ?thesis
        by (simp add: n reads_as_def read_row link_of_def shown_def Let_def)
    qed
    from go_map_reads[of "tmpl_range (pd_ConnectionDetails pd)" ?g, OF this] show ?thesis
      by (auto simp: proto_html_def ppd intro!: reads_as_framed)
  qed
  have feeder: "\<exists>h. feeder_html us zone kf = Ret h \<and>
      reads_as h (concat (map (\<lambda>ppd. concat (map (\<lambda>nc. ?V (fst kf, fst ppd, fst nc)) (tmpl_range (pd_ConnectionDetails (snd ppd))))) (tmpl_range (fs_Connections (snd kf)))))
        (concat (map (\<lambda>ppd. concat (map (\<lambda>nc. [?K (fst kf, fst ppd, fst nc)]) (tmpl_range (pd_ConnectionDetails (snd ppd))))) (tmpl_range (fs_Connections (snd kf)))))"
    if "kf \<in> set (tmpl_range (Some (Feeders s)))" for kf
  proof -
    obtain k f where kf: "kf = (k, f)" by (cases kf)
    from go_map_reads[of "tmpl_range (fs_Connections f)" "proto_html us zone f k", OF proto[OF that[unfolded kf]]]
    show ?thesis by (auto simp: feeder_html_def kf intro!: reads_as_framed)
  qed
  from go_map_reads[of "tmpl_range (Some (Feeders s))" "feeder_html us zone", OF feeder]
  obtain hs where hs: "go_map (feeder_html us zone) (tmpl_range (Some (Feeders s))) = Ret hs"
    "reads_as (concat hs) (concat (map (?V \<circ> cell_id) (page_cells s))) (concat (map (\<lambda>x. [?K (cell_id x)]) (page_cells s)))"
    by (auto simp: page_cells_def map_concat concat_concat split_def comp_def cell_id_detail)
  then show ?thesis
    using reads_as_append[OF reads_as_head reads_as_append[OF hs(2) reads_as_foot]]
    by (simp add: stats_tmpl_def comp_def concat_map_singleton)
qed

lemma id_less_sorted_single: "sorted_wrt id_less ids \<Longrightarrow> set ids = {i} \<Longrightarrow> ids = [i]"
proof -
  assume a: "sorted_wrt id_less ids" "set ids = {i}"
  have irr: "\<not> id_less j j" for j by (cases j) simp
  from a(1) have "distinct ids" by (induction ids) (auto simp: irr)
  with a(2) have "length ids = 1" using distinct_card[of ids] by simp
  then obtain j where "ids = [j]" by (auto simp: length_Suc_conv)
  with a(2) show ?thesis by simp
qed

text \<open>The text of a UUID is kept by the normalisation of links and by the escaping.\<close>

lemma uuid_text_kept:
  assumes "take_uuid u = Some []"
  shows "url_normalize u = u" "nul_replaced u = u"
proof -
  have keeps: "url_keeps c \<and> c \<noteq> CHR 0x00" if "lower_hex c \<or> c = CHR ''-''" for c
    using that unfolding lower_hex_def url_keeps_def is_digit_def by auto
  have u: "list_all (\<lambda>c. url_keeps c \<and> c \<noteq> CHR 0x00) u"
    using take_uuid_length[OF assms] keeps by (auto simp: list_all_iff)
  from u show "url_normalize u = u" by (induction u) simp_all
  from u show "nul_replaced u = u" unfolding nul_replaced_def by (induction u) simp_all
qed

lemma link_of_uuid:
  assumes "take_uuid (us (fst i)) = Some []"
  shows "link_of us i = feeder_path @ us (fst i)" "matchUrlSingleFeeder (link_of us i)"
  using assms by (simp_all add: link_of_def uuid_text_kept[OF assms] matchUrlSingleFeeder_def)

text \<open>
  C36. The statistics page never fails on the data, and its text says what the store holds: whatever the
  interleaving of the operations before it, and whatever text the labels, codes and addresses are made
  of, a reader of the page who knows only tags and character references finds exactly ten cells for
  every registered connection, in the order of the keys, the protocols and the connection numbers,
  with the values of that connection (a byte zero in them as the replacement character), one
  link for each, which the handler of a single feeder accepts, and nothing left open at the end. Rendering
  panics only if writing to the client fails. The text of a UUID has the documented form.
\<close>
theorem statistics_page_reads_back:
  assumes "race_reach (Up s hs)" "\<And>k. take_uuid (us k) = Some []"
  shows "\<exists>ids text. httpRenderStats_text us zone False s = Ret text \<and>
     sorted_wrt id_less ids \<and> set ids = {(k, p, n). lookup_conn s k p n \<noteq> None} \<and>
     read_page text = reader_at None (concat (map (row_values us zone \<circ> shown s) ids))
                        (map (\<lambda>(k, p, n). ''/api/v1/feeder/'' @ us k) ids) \<and>
     list_all matchUrlSingleFeeder (pg_links (read_page text)) \<and>
     httpRenderStats_text us zone True s = Panic ''could not execute statsTemplate''"
proof -
  have w: "weak_stats s" using race_reach_inv[OF assms(1)] by simp
  let ?ids = "map cell_id (page_cells s)"
  obtain page where t: "stats_tmpl us zone s = Ret page"
    "reads_as page (concat (map (row_values us zone \<circ> shown s) ?ids)) (map (link_of us) ?ids)"
    using stats_tmpl_reads[of s us zone, OF page_row_shown[OF w]] by (auto simp: comp_assoc)
  have links: "map (link_of us) ?ids = map (\<lambda>(k, p, n). ''/api/v1/feeder/'' @ us k) ?ids"
    using link_of_uuid(1)[OF assms(2)] by (auto simp: feeder_path_def split: prod.splits)
  have read: "read_page page = reader_at None (concat (map (row_values us zone \<circ> shown s) ?ids)) (map (link_of us) ?ids)"
    using t(2) by (simp add: reads_as_def read_page_def)
  have "list_all matchUrlSingleFeeder (pg_links (read_page page))"
    unfolding read using link_of_uuid(2)[OF assms(2)] by (simp add: reader_at_def list_all_iff)
  with read[unfolded links] t(1) page_ids[OF w] show ?thesis
    by (intro exI[of _ ?ids] exI[of _ page]) (simp add: httpRenderStats_text_def)
qed

text \<open>One connection of a feeder, and UUIDs that are written with zeros.\<close>

definition zero_uuid :: "uuid \<Rightarrow> string" where
  "zero_uuid k = ''00000000-0000-0000-0000-000000000000''"

theorem statistics_page_reads_back_witness:
  "\<exists>text. httpRenderStats_text zero_uuid (\<lambda>_. 3600) False with_mlat = Ret text \<and>
     read_page text = reader_at None
       [[], zero_uuid 7, [], ''MLAT'', ''1'', ''10.0.0.1:100'', ''10.0.0.2:200'', ''0B'', ''0B'', ''Jan 01, 0001 01:00:00 UTC'']
       [''/api/v1/feeder/'' @ zero_uuid 7]"
proof -
  have "race_reach (Up with_mlat [])" by (rule race_log_reach[OF with_mlat_log])
  moreover have u: "take_uuid (zero_uuid k) = Some []" for k unfolding zero_uuid_def by code_simp
  ultimately obtain ids page where
    ids: "httpRenderStats_text zero_uuid (\<lambda>_. 3600) False with_mlat = Ret page" "sorted_wrt id_less ids"
      "set ids = {(k, p, n). lookup_conn with_mlat k p n \<noteq> None}"
      "read_page page = reader_at None (concat (map (row_values zero_uuid (\<lambda>_. 3600) \<circ> shown with_mlat) ids))
         (map (\<lambda>(k, p, n). ''/api/v1/feeder/'' @ zero_uuid k) ids)"
    using statistics_page_reads_back[of with_mlat "[]" zero_uuid "\<lambda>_. 3600"] by blast
  have l: "lookup_conn with_mlat = reg_set 7 MLAT 1 (Some (fresh_detail mlat_conn 1)) (\<lambda>_ _ _. None)"
    using race_log_linearized[OF with_mlat_log HOL.refl]
    by (auto simp: linearized_def mlat_conn_def conn_of_def split: if_splits)
  then have "set ids = {(7, MLAT, 1)}" using ids(3) by (auto simp: reg_set_def split: if_splits)
  from id_less_sorted_single[OF ids(2) this] have "ids = [(7, MLAT, 1)]" .
  moreover have "row_values zero_uuid (\<lambda>_. 3600) (shown with_mlat (7, MLAT, 1)) =
      [[], zero_uuid 7, [], ''MLAT'', ''1'', ''10.0.0.1:100'', ''10.0.0.2:200'', ''0B'', ''0B'', ''Jan 01, 0001 01:00:00 UTC'']"
    by code_simp
  ultimately show ?thesis using ids(1,4) by auto
qed

end
