(* ===== verification/StatsLock.thy ===== *)
theory StatsLock
  imports StatsPage
begin












section \<open>Every client gets the store as it is\<close>




section \<open>A client that does not read\<close>



section \<open>Clients that read\<close>











end
