(* ===== verification/StatsSeries.thy ===== *)
theory StatsSeries
  imports StatsConc
begin

text \<open>
  The per-connection Prometheus series of \<open>lib/stats/stats.go\<close>: \<open>IncrementByteCounters\<close> makes the
  series of a connection under the feeder code that the store holds, \<open>UnregisterConnection\<close> deletes
  it under the code that the connection carries. A series is the label set of a counter that was
  made by \<open>With\<close> and not deleted since.
\<close>

definition live_in :: "prom_call list \<Rightarrow> prom_labels list" where
  "live_in log = foldl (\<lambda>ls c. case c of AddIn pl b \<Rightarrow> List.insert pl ls | DeleteIn pl \<Rightarrow> removeAll pl ls | _ \<Rightarrow> ls)
     [] log"

definition live_out :: "prom_call list \<Rightarrow> prom_labels list" where
  "live_out log = foldl (\<lambda>ls c. case c of AddOut pl b \<Rightarrow> List.insert pl ls | DeleteOut pl \<Rightarrow> removeAll pl ls | _ \<Rightarrow> ls)
     [] log"

lemma live_snoc [simp]:
  "set (live_in (log @ [AddIn pl b, AddOut pl b'])) = insert pl (set (live_in log))"
  "set (live_out (log @ [AddIn pl b, AddOut pl b'])) = insert pl (set (live_out log))"
  "set (live_in (log @ [DeleteIn pl, DeleteOut pl])) = set (live_in log) - {pl}"
  "set (live_out (log @ [DeleteIn pl, DeleteOut pl])) = set (live_out log) - {pl}"
  by (auto simp: live_in_def live_out_def)

text \<open>The labels of a connection under a feeder code.\<close>

definition conn_labels :: "Connection \<Rightarrow> string \<Rightarrow> prom_labels" where
  "conn_labels conn code =
     \<lparr>pl_protocol = (case GetName (cn_Proto conn) of Inl e \<Rightarrow> [] | Inr nm \<Rightarrow> to_lower nm),
      pl_uuid = cn_ApiKey conn, pl_connnum = cn_ConnNum conn, pl_feeder_code = code\<rparr>"

lemma conn_labels_eq [simp]: "conn_labels conn a = conn_labels conn b \<longleftrightarrow> a = b"
  by (simp add: conn_labels_def)

lemma Increment_log:
  assumes "IncrementByteCounters (cn_ApiKey conn) (cn_ConnNum conn) (cn_Proto conn) bIn bOut now st = Ret (None, st1)"
  shows "\<exists>y. gm_get (Feeders (stats st)) (cn_ApiKey conn) = Some y \<and>
    prom_log st1 = prom_log st @ [AddIn (conn_labels conn (fs_Code y)) bIn, AddOut (conn_labels conn (fs_Code y)) bOut]"
proof -
  obtain y nm where y: "gm_get (Feeders (stats st)) (cn_ApiKey conn) = Some y" "Name (cn_Proto conn) = Ret nm"
    "prom_log st1 = prom_log st @ [AddIn \<lparr>pl_protocol = to_lower nm, pl_uuid = cn_ApiKey conn,
       pl_connnum = cn_ConnNum conn, pl_feeder_code = fs_Code y\<rparr> bIn,
     AddOut \<lparr>pl_protocol = to_lower nm, pl_uuid = cn_ApiKey conn,
       pl_connnum = cn_ConnNum conn, pl_feeder_code = fs_Code y\<rparr> bOut]"
    using assms by (auto simp: IncrementByteCounters_def go_bind_Ret_iff Let_def split: option.splits)
  have "GetName (cn_Proto conn) = Inr nm" using y(2) by (simp add: Name_def split: sum.splits)
  with y show ?thesis by (simp add: conn_labels_def)
qed

lemma Unregister_log:
  assumes "UnregisterConnection conn now st = Ret (None, st')"
  shows "prom_log st' = prom_log st @ [DeleteIn (conn_labels conn (cn_FeederCode conn)),
    DeleteOut (conn_labels conn (cn_FeederCode conn))]"
  using assms by (auto simp: UnregisterConnection_def Let_def go_bind_Ret_iff conn_labels_def
      split: if_splits sum.splits)

text \<open>
  C17. A connection's series are removed with it exactly if the two codes agree: after a counted
  transfer, removing the connection succeeds and leaves its two series in the registry if and only
  if the code in the store is not the code the connection carries.
\<close>
theorem series_removed_iff_codes_agree:
  assumes "st_initialised st" "wf_stats (stats st)"
    and "IncrementByteCounters (cn_ApiKey conn) (cn_ConnNum conn) (cn_Proto conn) bIn bOut now st = Ret (None, st1)"
    and "gm_get (Feeders (stats st)) (cn_ApiKey conn) = Some f"
  shows "conn_labels conn (fs_Code f) \<in> set (live_in (prom_log st1)) \<and>
    (\<exists>st2. UnregisterConnection conn later st1 = Ret (None, st2) \<and>
       lookup_conn (stats st2) (cn_ApiKey conn) (cn_Proto conn) (cn_ConnNum conn) = None \<and>
       (conn_labels conn (fs_Code f) \<in> set (live_in (prom_log st2)) \<longleftrightarrow> fs_Code f \<noteq> cn_FeederCode conn) \<and>
       (conn_labels conn (fs_Code f) \<in> set (live_out (prom_log st2)) \<longleftrightarrow> fs_Code f \<noteq> cn_FeederCode conn))"
proof -
  let ?k = "cn_ApiKey conn" and ?p = "cn_Proto conn" and ?n = "cn_ConnNum conn"
  have inc: "step_ok (OpIncrement ?k ?n ?p bIn bOut now) st None st1"
    using stats_step_ok[OF assms(1,2), of "OpIncrement ?k ?n ?p bIn bOut now"] assms(3) by auto
  then have ok: "st_initialised st1" "wf_stats (stats st1)"
    and found: "lookup_conn (stats st1) ?k ?p ?n \<noteq> None"
    by (auto simp: step_ok_def reg_set_def split: option.splits)
  obtain e st2 where un: "UnregisterConnection conn later st1 = Ret (e, st2)" "step_ok (OpUnregister conn later) st1 e st2"
    using stats_step_ok[OF ok, of "OpUnregister conn later"] by auto
  then have e: "e = None" and gone: "lookup_conn (stats st2) ?k ?p ?n = None"
    using found by (auto simp: step_ok_def reg_set_def)
  have l1: "prom_log st1 = prom_log st @ [AddIn (conn_labels conn (fs_Code f)) bIn, AddOut (conn_labels conn (fs_Code f)) bOut]"
    using Increment_log[OF assms(3)] assms(4) by auto
  have l2: "set (live_in (prom_log st2)) = set (live_in (prom_log st1)) - {conn_labels conn (cn_FeederCode conn)}"
    "set (live_out (prom_log st2)) = set (live_out (prom_log st1)) - {conn_labels conn (cn_FeederCode conn)}"
    by (simp_all only: Unregister_log[OF un(1)[unfolded e]] live_snoc)
  have "set (live_in (prom_log st1)) = insert (conn_labels conn (fs_Code f)) (set (live_in (prom_log st)))"
    "set (live_out (prom_log st1)) = insert (conn_labels conn (fs_Code f)) (set (live_out (prom_log st)))"
    by (simp_all only: l1 live_snoc)
  with l2 un(1) e gone show ?thesis by simp
qed

text \<open>
  How the two codes come to differ. A feeder's MLAT connection is up. Its BEAST connection is
  authenticated, which writes label and code, and before it is registered the MLAT connection
  ends, which deletes the entry with them; the registration makes a new entry without.
\<close>

definition late_registration :: "stats_op list" where
  "late_registration =
     [OpRegisterFeeder ypph 1, OpRegister mlat_conn 2 2, OpRegisterFeeder ypph 3, OpUnregister mlat_conn 4,
      OpRegister beast_conn 5 5]"

definition after_late :: stats_state where
  "after_late = (case stats_run late_registration started of Ret (es, st) \<Rightarrow> st | Panic m \<Rightarrow> started)"

lemma after_late_run: "stats_run late_registration started = Ret (replicate 5 None, after_late)"
  by code_simp

lemma after_late_entry:
  "case gm_get (Feeders (stats after_late)) 7 of None \<Rightarrow> False
   | Some f \<Rightarrow> fs_Code f = [] \<and> fs_Label f = [] \<and> fs_Code f \<noteq> cn_FeederCode beast_conn"
  by code_simp

theorem series_removed_iff_codes_agree_witness:
  "stats_run late_registration started = Ret (replicate 5 None, after_late) \<and>
   (\<exists>st1 st2. IncrementByteCounters 7 2 BEAST 10 20 6 after_late = Ret (None, st1) \<and>
     UnregisterConnection beast_conn 7 st1 = Ret (None, st2) \<and>
     lookup_conn (stats st2) 7 BEAST 2 = None \<and> conn_labels beast_conn [] \<in> set (live_in (prom_log st2)))"
proof -
  have ok: "st_initialised after_late" "wf_stats (stats after_late)"
    using stats_run_ok[OF started_ok(1,2), of late_registration] after_late_run by auto
  have found: "lookup_conn (stats after_late) 7 BEAST 2 \<noteq> None" by code_simp
  obtain st1 where inc: "IncrementByteCounters 7 2 BEAST 10 20 6 after_late = Ret (None, st1)"
    using stats_step_ok[OF ok, of "OpIncrement 7 2 BEAST 10 20 6"] found
    by (auto simp: step_ok_def split: option.splits)
  obtain f where f: "gm_get (Feeders (stats after_late)) 7 = Some f" "fs_Code f = []" "fs_Code f \<noteq> cn_FeederCode beast_conn"
    using after_late_entry by (auto split: option.splits)
  have n: "cn_ConnNum beast_conn = 2" by (simp add: beast_conn_def conn_of_def)
  from series_removed_iff_codes_agree[OF ok, of beast_conn 10 20 6 st1 f 7] inc f after_late_run show ?thesis
    by (auto simp: n)
qed

end
