(* ===== verification/ServedBytes.thy ===== *)
theory ServedBytes
  imports StatsConc ProxyStart "HOL-Library.Multiset"
begin

text \<open>
  The proxy and the statistics together: what the store holds of a connection that is being served
  and what its two copying goroutines (\<open>protocolProxy\<close>) have forwarded. The joint system
  interleaves the rounds of the two goroutines with the rest of the program on the store, which
  takes the steps of theory \<open>StatsConc\<close>.
\<close>















section \<open>The joint system\<close>


text \<open>Every round is one of the two: it makes no call, or one, with the answer of its surroundings.\<close>

lemma round_calls:
  "ds_calls (dir_of d (pair_round conf (d, re) ps)) = ds_calls (dir_of d ps) \<or>
   (\<exists>b. ds_calls (dir_of d (pair_round conf (d, re) ps)) = ds_calls (dir_of d ps) @ [(increment_args conf d b, re_increment re)])"
proof -
  have copy: "ds_calls ds1 = ds_calls ds" if "copy_part re ds = (e, ds1)" for ds ds1 e
    using that by (auto simp: copy_part_def Let_def split: option.splits prod.splits if_splits)
  have count: "ds_calls ds1 = ds_calls ds \<or> (\<exists>b. ds_calls ds1 = ds_calls ds @ [(increment_args conf d b, re_increment re)])"
    if "count_part conf d re ds = (e, ds1)" for ds ds1 e
    using that by (auto simp: count_part_def Let_def split: option.splits if_splits)
  have "ds_calls (fst (protocolProxy_round conf d b re ds t)) = ds_calls ds \<or>
      (\<exists>x. ds_calls (fst (protocolProxy_round conf d b re ds t)) = ds_calls ds @ [(increment_args conf d x, re_increment re)])"
    for b ds t
  proof -
    obtain e1 ds1 where c: "copy_part re ds = (e1, ds1)" by (cases "copy_part re ds")
    obtain e2 ds2 where n: "count_part conf d re ds1 = (e2, ds2)" by (cases "count_part conf d re ds1")
    from copy[OF c] count[OF n] c n show ?thesis
      by (simp add: protocolProxy_round_def split: option.splits prod.splits)
  qed
  then show ?thesis by (simp add: pair_round_dir)
qed


definition serves :: "proxy_conf \<Rightarrow> Connection \<Rightarrow> bool" where
  "serves conf conn \<longleftrightarrow> pc_clientApiKey conf = cn_ApiKey conn \<and> pc_connNum conf = cn_ConnNum conn \<and>
     pc_proto conf = cn_Proto conn"

text \<open>\<open>Start\<close> registers the connection and configures its goroutines in that way.\<close>

lemma start_serves:
  "serves \<lparr>pc_clientApiKey = clientApiKey clientDetails, pc_connNum = px_ConnectionNumber c,
     pc_proto = px_ConnectionProtocol c, pc_interval = px_FeederValidityCheckInterval c\<rparr> (conn_record env c clientDetails)"
  by (simp add: serves_def conn_record_def)













end
