(* ===== verification/Goroutines.thy ===== *)
theory Goroutines
  imports Prelude
begin

text \<open>
  \<open>logNumGoroutines\<close> of \<open>cmd/bordercontrol/main.go\<close>: the loop that logs the number of goroutines,
  in time. The parameter \<open>num t\<close> is \<open>runtime.NumGoroutine\<close> at time \<open>t\<close>, \<open>cancelled\<close> the time at
  which the context ends; if the timer and the context are ready together the context is taken.
  Steps other than the waits take no time. The only call passes five minutes.
\<close>

record goroutine_log =
  gl_time :: time
  gl_goroutines :: int
  gl_delta :: int

text \<open>
  The loop from time \<open>t\<close> on, the context being alive when the function is entered: what it logs,
  and when it returns. A frequency that is not positive makes no loop.
\<close>

function log_loop :: "duration \<Rightarrow> (time \<Rightarrow> int) \<Rightarrow> time \<Rightarrow> time \<Rightarrow> int \<Rightarrow> goroutine_log list \<times> time" where
  "log_loop freq num cancelled t prev =
     (if freq \<le> 0 \<or> cancelled \<le> t + freq then ([], max t cancelled)
      else
        let t' = t + freq + freq; now = num t';
            (logs, stop) = log_loop freq num cancelled t' now
        in (\<lparr>gl_time = t', gl_goroutines = now, gl_delta = now - prev\<rparr> # logs, stop))"
  by pat_completeness auto
termination by (relation "measure (\<lambda>(freq, num, cancelled, t, prev). nat (cancelled - t))") auto

declare log_loop.simps [simp del]

definition logNumGoroutines :: "duration \<Rightarrow> (time \<Rightarrow> int) \<Rightarrow> time \<Rightarrow> time \<Rightarrow> goroutine_log list \<times> time" where
  "logNumGoroutines freq num cancelled t = log_loop freq num cancelled t (num t)"

lemma log_loop_step:
  "0 < freq \<Longrightarrow> log_loop freq num cancelled t prev =
     (if cancelled \<le> t + freq then ([], max t cancelled)
      else (\<lparr>gl_time = t + 2 * freq, gl_goroutines = num (t + 2 * freq), gl_delta = num (t + 2 * freq) - prev\<rparr>
              # fst (log_loop freq num cancelled (t + 2 * freq) (num (t + 2 * freq))),
            snd (log_loop freq num cancelled (t + 2 * freq) (num (t + 2 * freq)))))"
  by (subst log_loop.simps) (simp add: Let_def split_def add.assoc)

lemma log_loop_lines:
  assumes "0 < freq"
  shows "(\<forall>i < length (fst (log_loop freq num cancelled t (num t))).
      fst (log_loop freq num cancelled t (num t)) ! i =
        \<lparr>gl_time = t + 2 * freq * int (Suc i), gl_goroutines = num (t + 2 * freq * int (Suc i)),
         gl_delta = num (t + 2 * freq * int (Suc i)) - num (t + 2 * freq * int i)\<rparr>) \<and>
     (t \<le> cancelled \<longrightarrow> cancelled \<le> snd (log_loop freq num cancelled t (num t)) \<and>
        snd (log_loop freq num cancelled t (num t)) < cancelled + freq)"
proof (induction "nat (cancelled - t)" arbitrary: t rule: less_induct)
  case less
  show ?case
  proof (cases "cancelled \<le> t + freq")
    case True
    then show ?thesis using assms by (simp add: log_loop_step[OF assms])
  next
    case False
    let ?t = "t + 2 * freq"
    have "nat (cancelled - ?t) < nat (cancelled - t)" using False assms by simp
    note IH = less.hyps[OF this]
    note step = log_loop_step[OF assms, of num cancelled t "num t"]
    show ?thesis
    proof (intro conjI allI impI)
      fix i assume i: "i < length (fst (log_loop freq num cancelled t (num t)))"
      show "fst (log_loop freq num cancelled t (num t)) ! i =
        \<lparr>gl_time = t + 2 * freq * int (Suc i), gl_goroutines = num (t + 2 * freq * int (Suc i)),
         gl_delta = num (t + 2 * freq * int (Suc i)) - num (t + 2 * freq * int i)\<rparr>"
      proof (cases i)
        case (Suc j)
        have "t + 2 * freq * int (Suc j) = ?t + 2 * freq * int j"
          "t + 2 * freq * int (Suc (Suc j)) = ?t + 2 * freq * int (Suc j)"
          by (simp_all add: algebra_simps)
        then show ?thesis using IH i False by (simp only: step Suc) simp
      qed (use False in \<open>simp add: step\<close>)
    next
      show "cancelled \<le> snd (log_loop freq num cancelled t (num t))"
        "snd (log_loop freq num cancelled t (num t)) < cancelled + freq"
        using IH False assms log_loop_step[OF assms, of num cancelled ?t "num ?t"]
        by (auto simp: step split: if_splits)
    qed
  qed
qed

text \<open>
  The numbers are logged every second interval: the loop waits one interval for the timer and
  then sleeps for another, so the lines are two intervals apart, each with the change since the
  line before; and the loop returns at or after the end of the context, by less than an interval.
\<close>
theorem goroutines_logged_every_second_interval:
  assumes "0 < freq" "t \<le> cancelled" "i < length (fst (logNumGoroutines freq num cancelled t))"
  shows "fst (logNumGoroutines freq num cancelled t) ! i =
      \<lparr>gl_time = t + 2 * freq * int (Suc i), gl_goroutines = num (t + 2 * freq * int (Suc i)),
       gl_delta = num (t + 2 * freq * int (Suc i)) - num (t + 2 * freq * int i)\<rparr> \<and>
    cancelled \<le> snd (logNumGoroutines freq num cancelled t) \<and>
    snd (logNumGoroutines freq num cancelled t) < cancelled + freq"
  using log_loop_lines[OF assms(1), of num cancelled t] assms(2,3) by (simp add: logNumGoroutines_def)

theorem goroutines_logged_every_second_interval_witness:
  "fst (logNumGoroutines (5 * minute) (\<lambda>t. 10 + t div minute) (33 * minute) 0) ! 1 =
      \<lparr>gl_time = 20 * minute, gl_goroutines = 30, gl_delta = 10\<rparr> \<and>
   snd (logNumGoroutines (5 * minute) (\<lambda>t. 10 + t div minute) (33 * minute) 0) < 38 * minute"
proof -
  have "1 < length (fst (logNumGoroutines (5 * minute) (\<lambda>t. 10 + t div minute) (33 * minute) 0))"
    by code_simp
  from goroutines_logged_every_second_interval[OF _ _ this] show ?thesis
    by (simp add: minute_def second_def)
qed

end
