(* ===== verification/ConnNumbers.thy ===== *)
theory ConnNumbers
  imports ConnTracker
begin

text \<open>
  The connection numbers over a whole run of the tracker of \<open>lib/feedproxy/feedproxy_connections.go\<close>.
  A number identifies its connection in the statistics and in the log long after the tracker has
  evicted the connection, so it is not enough that \<open>getNum\<close> avoids the numbers still tracked.

  The lemmas measure how far one call of \<open>getNum\<close> moves the counter: at most two steps more
  than there are tracked connections, since every number it passes is in use or zero. Numbers
  drawn in sequence are then offsets from the first counter in increasing order, and they are
  distinct until the counter has gone round its 64 bits.
\<close>

section \<open>How far one call moves the counter\<close>

lemma unat_diff_Suc: "x \<noteq> n \<Longrightarrow> unat (x - n) = Suc (unat (x - (n + 1) :: u64))"
  using unat_minus_one[of "x - n"] unat_gt_0[of "x - n"] by (simp add: diff_diff_eq)

lemma between_next:
  assumes "unat (x - m) < unat (r - m :: u64)" "x \<noteq> m"
  shows "unat (x - (m + 1)) < unat (r - (m + 1))"
proof -
  have "r \<noteq> m" using assms(1) by auto
  with assms show ?thesis by (simp add: unat_diff_Suc[of x m] unat_diff_Suc[of r m])
qed

lemma getNum_loop_skips:
  "getNum_loop cs n = Some r \<Longrightarrow>
   \<forall>x. unat (x - (n + 1)) < unat (r - (n + 1)) \<longrightarrow> in_use cs x \<or> x = 0"
proof (rule getNum_loop.raw_induct[where P = "\<lambda>cs n r.
    \<forall>x. unat (x - (n + 1)) < unat (r - (n + 1)) \<longrightarrow> in_use cs x \<or> x = 0"])
  fix f cs n r
  assume IH: "\<And>cs n r. f cs n = Some r \<Longrightarrow>
      \<forall>x. unat (x - (n + 1)) < unat (r - (n + 1)) \<longrightarrow> in_use cs x \<or> x = 0"
    and eq: "(if in_use cs (bump n) then f cs (bump n) else Some (bump n)) = Some r"
  have after: "in_use cs x \<or> x = 0"
    if lt: "unat (x - bump n) < unat (r - bump n)" for x
  proof (cases "in_use cs (bump n)")
    case True
    with eq have "f cs (bump n) = Some r" by simp
    from IH[OF this] between_next[OF lt] True show ?thesis by auto
  next
    case False
    with eq lt show ?thesis by simp
  qed
  show "\<forall>x. unat (x - (n + 1)) < unat (r - (n + 1)) \<longrightarrow> in_use cs x \<or> x = 0"
  proof (intro allI impI)
    fix x
    assume lt: "unat (x - (n + 1)) < unat (r - (n + 1))"
    show "in_use cs x \<or> x = 0"
    proof (cases "n + 1 = 0")
      case True
      then have b: "bump n = n + 1 + 1" by (simp add: bump_def)
      show ?thesis
      proof (cases "x = n + 1")
        case False
        from between_next[OF lt this] show ?thesis unfolding b[symmetric] by (rule after)
      qed (simp add: True)
    next
      case False
      then have "bump n = n + 1" by (simp add: bump_def)
      with lt show ?thesis by (intro after) simp
    qed
  qed
qed

lemma unat_small: "b < 2 ^ 64 \<Longrightarrow> unat (word_of_nat b :: u64) = b"
  by (simp add: unat_of_nat)

lemma offset_inj:
  "b < 2 ^ 64 \<Longrightarrow> b' < 2 ^ 64 \<Longrightarrow> m + word_of_nat b = m + (word_of_nat b' :: u64) \<Longrightarrow> b = b'"
  by (metis add_left_cancel unat_small)

lemma card_between: "k \<le> 2 ^ 64 \<Longrightarrow> card ((\<lambda>d. m + word_of_nat d :: u64) ` {..<k}) = k"
proof -
  assume k: "k \<le> 2 ^ 64"
  have "inj_on (\<lambda>d. m + word_of_nat d :: u64) {..<k}"
    by (rule inj_onI, rule offset_inj) (use k in \<open>simp_all add: less_le_trans\<close>)
  then show ?thesis by (simp add: card_image)
qed

lemma getNum_loop_distance:
  assumes "getNum_loop cs n = Some r"
  shows "unat (r - (n + 1)) \<le> Suc (length cs)"
proof -
  let ?k = "unat (r - (n + 1))"
  have k: "?k < 2 ^ 64" using unsigned_less[of "r - (n + 1)", where ?'a = nat] by simp
  have "in_use cs (n + 1 + word_of_nat d) \<or> n + 1 + word_of_nat d = 0" if "d < ?k" for d
  proof -
    have "unat (n + 1 + word_of_nat d - (n + 1)) = d"
      using that k by (simp add: unat_of_nat)
    with that getNum_loop_skips[OF assms] show ?thesis by metis
  qed
  then have "(\<lambda>d. n + 1 + word_of_nat d) ` {..<?k} \<subseteq> insert 0 (connNum ` set cs)"
    by (auto simp: in_use_iff)
  then have "card ((\<lambda>d. n + 1 + word_of_nat d :: u64) ` {..<?k}) \<le> card (insert 0 (connNum ` set cs))"
    by (rule card_mono[rotated]) simp
  then have "?k \<le> card (insert 0 (connNum ` set cs))"
    unfolding card_between[OF less_imp_le[OF k]] .
  also have "\<dots> \<le> Suc (card (connNum ` set cs))" by (simp add: card_insert_if)
  also have "\<dots> \<le> Suc (length cs)"
    by (metis Suc_le_mono card_length length_map list.set_map)
  finally show ?thesis .
qed

lemma getNum_advances:
  assumes "getNum t = Some (n, t')"
  obtains a where "0 < a" "a \<le> length (connections t) + 2"
    "n = connectionNumber t + word_of_nat a" "connectionNumber t' = n" "connections t' = connections t" "n \<noteq> 0"
proof
  let ?a = "Suc (unat (n - (connectionNumber t + 1)))"
  have l: "getNum_loop (connections t) (connectionNumber t) = Some n" "t' = t\<lparr>connectionNumber := n\<rparr>"
    using assms by (auto simp: getNum_def split: option.splits)
  show "0 < ?a" by simp
  show "?a \<le> length (connections t) + 2" using getNum_loop_distance[OF l(1)] by simp
  show "n = connectionNumber t + word_of_nat ?a" by simp
  show "connectionNumber t' = n" "connections t' = connections t" by (simp_all add: l(2))
  show "n \<noteq> 0" using getNum_loop_fresh[OF l(1)] by simp
qed

section \<open>Numbers drawn in sequence\<close>

text \<open>
  A run of the tracker while it holds at most \<open>m\<close> connections: evictions, admissions (the write
  half of \<open>check\<close>) and allocations in any order, with the numbers allocated so far.
\<close>

inductive draws :: "nat \<Rightarrow> incomingConnectionTracker \<Rightarrow> u64 list \<Rightarrow> incomingConnectionTracker \<Rightarrow> bool" for m t where
  start: "length (connections t) \<le> m \<Longrightarrow> draws m t [] t"
| evicted: "draws m t ns t' \<Longrightarrow> draws m t ns (evict clk t')"
| appended: "draws m t ns t' \<Longrightarrow> length (connections t') < m \<Longrightarrow> draws m t ns (check_append now src num t')"
| drawn: "draws m t ns t' \<Longrightarrow> getNum t' = Some (n, t'') \<Longrightarrow> draws m t (ns @ [n]) t''"

text \<open>The numbers drawn are increasing offsets of the first counter, the last being the counter itself.\<close>

definition offsets_inv :: "nat \<Rightarrow> u64 \<Rightarrow> u64 list \<Rightarrow> incomingConnectionTracker \<Rightarrow> nat list \<Rightarrow> nat \<Rightarrow> bool" where
  "offsets_inv m c ns t' bs a \<longleftrightarrow>
     ns = map (\<lambda>b. c + word_of_nat b) bs \<and> sorted_wrt (<) bs \<and> (\<forall>b \<in> set bs. 0 < b \<and> b \<le> a) \<and>
     connectionNumber t' = c + word_of_nat a \<and> a \<le> length ns * (m + 2) \<and>
     length (connections t') \<le> m \<and> 0 \<notin> set ns"

lemma offsets_invD:
  assumes "offsets_inv m c ns t' bs a"
  shows "0 \<notin> set ns" "a \<le> length ns * (m + 2)" "length (connections t') \<le> m"
  using assms unfolding offsets_inv_def by blast+

lemma draws_offsets:
  "draws m t ns t' \<Longrightarrow> \<exists>bs a. offsets_inv m (connectionNumber t) ns t' bs a"
proof (induction rule: draws.induct)
  case start
  then show ?case by (intro exI[of _ "[]"] exI[of _ 0]) (simp add: offsets_inv_def)
next
  case (evicted ns t' clk)
  have "length (connections (evict clk t')) \<le> length (connections t')"
    using filter_keep_from_le[of "\<lambda>_. True" clk 0 "connections t'"] by simp
  moreover have "connectionNumber (evict clk t') = connectionNumber t'" by (simp add: evict_def)
  ultimately have "offsets_inv m c ns t' bs a \<Longrightarrow> offsets_inv m c ns (evict clk t') bs a" for c bs a
    unfolding offsets_inv_def by (elim conjE) (intro conjI; simp)
  with evicted.IH show ?case by blast
next
  case (appended ns t' now src num)
  have "connectionNumber (check_append now src num t') = connectionNumber t'"
    by (simp add: check_append_def)
  moreover have "length (connections (check_append now src num t')) \<le> m"
    using appended.hyps(2) by simp
  ultimately have "offsets_inv m c ns t' bs a \<Longrightarrow> offsets_inv m c ns (check_append now src num t') bs a" for c bs a
    unfolding offsets_inv_def by (elim conjE) (intro conjI; simp)
  with appended.IH show ?case by blast
next
  case (drawn ns t' n t'')
  then obtain bs a where inv: "offsets_inv m (connectionNumber t) ns t' bs a" by blast
  obtain d where d: "0 < d" "d \<le> length (connections t') + 2" "n = connectionNumber t' + word_of_nat d"
    "connectionNumber t'' = n" "connections t'' = connections t'" "n \<noteq> 0"
    using getNum_advances[OF drawn.hyps(2)] by blast
  have n: "n = connectionNumber t + word_of_nat (a + d)"
    using inv d(3) by (simp add: offsets_inv_def)
  have le: "a + d \<le> length (ns @ [n]) * (m + 2)"
    using offsets_invD(2,3)[OF inv] d(2) by simp
  have "sorted_wrt (<) (bs @ [a + d])"
    using inv d(1) by (auto simp: offsets_inv_def sorted_wrt_append)
  moreover have "\<forall>b \<in> set (bs @ [a + d]). 0 < b \<and> b \<le> a + d"
    using inv d(1) by (auto simp: offsets_inv_def)
  moreover have "ns @ [n] = map (\<lambda>b. connectionNumber t + word_of_nat b) (bs @ [a + d])"
    using inv n by (simp add: offsets_inv_def)
  ultimately have "offsets_inv m (connectionNumber t) (ns @ [n]) t'' (bs @ [a + d]) (a + d)"
    using inv le n d(4,5,6) unfolding offsets_inv_def by auto
  then show ?case by blast
qed

lemma draws_distinct:
  assumes "draws m t ns t'" "length ns * (m + 2) < 2 ^ 64"
  shows "distinct ns \<and> 0 \<notin> set ns \<and> connectionNumber t \<notin> set ns \<and>
    (m + 1 < 2 ^ 64 \<longrightarrow> getNum t' \<noteq> None)"
proof -
  obtain bs a where inv: "offsets_inv m (connectionNumber t) ns t' bs a"
    using draws_offsets[OF assms(1)] by blast
  have lt: "b < 2 ^ 64" if "b \<in> set bs" for b
    using inv that assms(2) by (fastforce simp: offsets_inv_def)
  have "inj_on (\<lambda>b. connectionNumber t + word_of_nat b) (set bs)"
    by (rule inj_onI, rule offset_inj[OF lt lt])
  moreover have "distinct bs"
    using inv by (auto simp: offsets_inv_def strict_sorted_iff)
  ultimately have "distinct ns" using inv by (simp add: offsets_inv_def distinct_map)
  moreover have "connectionNumber t \<notin> set ns"
  proof
    assume "connectionNumber t \<in> set ns"
    then obtain b where b: "b \<in> set bs" "word_of_nat b = (0 :: u64)"
      using inv by (auto simp: offsets_inv_def)
    have "b = 0" using unat_small[OF lt[OF b(1)]] b(2) by simp
    with b(1) inv show False by (auto simp: offsets_inv_def)
  qed
  moreover have "getNum t' \<noteq> None" if "m + 1 < 2 ^ 64"
  proof -
    have "length (connections t') < 2 ^ 64 - 1" using that inv by (simp add: offsets_inv_def)
    then obtain u where "u \<noteq> 0" "\<not> in_use (connections t') u"
      using fewer_conns_unused by blast
    from getNum_loop_returns[OF this, of "connectionNumber t'"] show ?thesis by (auto simp: getNum_def)
  qed
  ultimately show ?thesis using offsets_invD(1)[OF inv] by blast
qed

text \<open>
  C9. Connection numbers are not reused: in every run of allocations, admissions and evictions
  of a tracker that holds at most \<open>m\<close> connections at a time, the numbers drawn are pairwise
  distinct, none is zero and none is the number the run started from, as long as the run draws
  fewer than \<open>2^64 / (m + 2)\<close> of them: also numbers whose connection has long been evicted are
  not given out again, although \<open>getNum\<close> only looks at the tracked ones. Each call returns.
\<close>
theorem connection_numbers_distinct:
  assumes "draws m t ns t'" "length ns * (m + 2) < 2 ^ 64"
  shows "distinct ns \<and> 0 \<notin> set ns \<and> connectionNumber t \<notin> set ns \<and>
    (m + 1 < 2 ^ 64 \<longrightarrow> getNum t' \<noteq> None)"
  by (rule draws_distinct[OF assms])

text \<open>Three numbers across the wrap of the counter, with one of them tracked in between.\<close>

definition near_wrap :: incomingConnectionTracker where
  "near_wrap = \<lparr>connections = [], connectionNumber = - 2\<rparr>"

theorem connection_numbers_distinct_witness:
  "draws 1 near_wrap [- 1, 1, 2] (check_append 0 [9] 1 near_wrap\<lparr>connectionNumber := 2\<rparr>) \<and>
   distinct [- 1, 1, 2 :: u64]"
proof -
  have "draws 1 near_wrap [] near_wrap" by (rule draws.start) (simp add: near_wrap_def)
  then have "draws 1 near_wrap ([] @ [- 1]) (near_wrap\<lparr>connectionNumber := - 1\<rparr>)"
    by (rule draws.drawn) (simp add: near_wrap_def getNum_def getNum_loop.simps in_use_def bump_def)
  then have "draws 1 near_wrap (([] @ [- 1]) @ [1]) (near_wrap\<lparr>connectionNumber := 1\<rparr>)"
    by (rule draws.drawn) (simp add: near_wrap_def getNum_def getNum_loop.simps in_use_def bump_def)
  then have "draws 1 near_wrap (([] @ [- 1]) @ [1]) (check_append 0 [9] 1 (near_wrap\<lparr>connectionNumber := 1\<rparr>))"
    by (rule draws.appended) (simp add: near_wrap_def)
  then have "draws 1 near_wrap ((([] @ [- 1]) @ [1]) @ [2]) (check_append 0 [9] 1 near_wrap\<lparr>connectionNumber := 2\<rparr>)"
    by (rule draws.drawn)
       (simp add: near_wrap_def getNum_def getNum_loop.simps in_use_def bump_def check_append_def)
  then have r: "draws 1 near_wrap [- 1, 1, 2] (check_append 0 [9] 1 near_wrap\<lparr>connectionNumber := 2\<rparr>)" by simp
  from connection_numbers_distinct[OF r] r show ?thesis by simp
qed

end
