(* ===== verification/ContainerChecker.thy ===== *)
theory ContainerChecker
  imports Containers
begin

text \<open>
  The second goroutine of \<open>Run\<close> of \<open>lib/containers/containers.go\<close>: check, then wait for the
  context, the signal channel or the timer, then check again. A round is the Docker client as it
  answers in that round, which may be with errors, what ends the wait, and what the rest of the
  world does to the host meanwhile (containers are started for connecting feeders, kicked, or
  die).

  The lemmas lift what one check does to a run of rounds; the property is that the containers of
  an old image are all gone after as many rounds in which Docker answers as there were, whatever
  ends the waits and whatever fails in other rounds.
\<close>

datatype wake = CtxDone | Signalled | TimedOut

type_synonym 'd check_round = "wake \<times> 'd docker \<times> ('d \<Rightarrow> 'd)"

text \<open>
  The loop, with the durations it slept in full; the flag says whether it has returned. The
  error of a check is only logged.
\<close>

fun checker ::
    "checkFeederContainersConfig \<Rightarrow> 'd check_round list \<Rightarrow> 'd \<Rightarrow> (bool \<times> duration list \<times> 'd) go" where
  "checker conf [] d = Ret (False, [], d)"
| "checker conf ((w, dk, world) # rnds) d =
     go_bind (checkFeederContainers dk conf d)
       (\<lambda>((sleepTime, err), d1).
          case w of
            CtxDone \<Rightarrow> Ret (True, [], world d1)
          | Signalled \<Rightarrow> checker conf rnds (world d1)
          | TimedOut \<Rightarrow>
              go_bind (checker conf rnds (world d1))
                (\<lambda>(ended, slept, d2). Ret (ended, sleepTime # slept, d2)))"

section \<open>Ending\<close>

lemma check_returns: "check_laws dk conf hosted \<Longrightarrow> \<exists>t err d'. checkFeederContainers dk conf d = Ret ((t, err), d')"
  by (drule check_removes_one_stale[where d = d]) (elim exE conjE, intro exI)

text \<open>
  A checker whose context is closed returns at the end of the wait it is in, without another
  check, if Docker keeps its laws.
\<close>
lemma checker_stops:
  assumes "\<forall>(w, dk, world) \<in> set rnds. w \<noteq> CtxDone \<and> check_laws dk conf hosted" "check_laws dk0 conf hosted"
  shows "\<exists>slept d'. checker conf (rnds @ (CtxDone, dk0, world) # rest) d = Ret (True, slept, d')"
  using assms(1)
proof (induction rnds arbitrary: d)
  case Nil
  obtain t err d' where "checkFeederContainers dk0 conf d = Ret ((t, err), d')"
    using check_returns[OF assms(2), of d] by (elim exE)
  then show ?case by simp
next
  case (Cons r rnds)
  obtain w dk world' where r: "r = (w, dk, world')" by (cases r)
  then have laws: "check_laws dk conf hosted" using Cons.prems by simp
  obtain t err d1 where c: "checkFeederContainers dk conf d = Ret ((t, err), d1)"
    using check_returns[OF laws, of d] by (elim exE)
  have "\<forall>(w, dk, world) \<in> set rnds. w \<noteq> CtxDone \<and> check_laws dk conf hosted" using Cons.prems by simp
  from Cons.IH[OF this, of "world' d1"] obtain slept d' where
    "checker conf (rnds @ (CtxDone, dk0, world) # rest) (world' d1) = Ret (True, slept, d')" by (elim exE)
  with c r Cons.prems show ?case by (cases w) simp_all
qed

section \<open>Converging\<close>

text \<open>
  What the surroundings may do between two checks: start any containers of the configured image,
  as \<open>startFeederContainers\<close> does, and remove containers of any image. They start none of
  another image, and identifiers stay distinct.
\<close>

definition fair_world :: "('d \<Rightarrow> dk_container list) \<Rightarrow> string \<Rightarrow> ('d \<Rightarrow> 'd) \<Rightarrow> bool" where
  "fair_world hosted img world \<longleftrightarrow>
     (\<forall>d. set (stale img (hosted (world d))) \<subseteq> set (stale img (hosted d)) \<and>
          (distinct (map ct_ID (hosted d)) \<longrightarrow> distinct (map ct_ID (hosted (world d)))))"

definition spares :: "('d \<Rightarrow> dk_container list) \<Rightarrow> dk_container \<Rightarrow> ('d \<Rightarrow> 'd) \<Rightarrow> bool" where
  "spares hosted c world \<longleftrightarrow> (\<forall>d. c \<in> set (hosted d) \<longrightarrow> c \<in> set (hosted (world d)))"

lemma fewer_stale:
  assumes "distinct (map ct_ID xs)" "set (stale img xs) \<subseteq> set (stale img ys)"
  shows "length (stale img xs) \<le> length (stale img ys)"
proof -
  have "distinct (stale img xs)" using assms(1) by (simp add: stale_def distinct_map)
  then have "length (stale img xs) = card (set (stale img xs))" by (simp add: distinct_card)
  also have "\<dots> \<le> card (set (stale img ys))" using assms(2) by (simp add: card_mono)
  also have "\<dots> \<le> length (stale img ys)" by (rule card_length)
  finally show ?thesis .
qed

lemma fair_worldD:
  assumes "fair_world hosted img world" "distinct (map ct_ID (hosted d))"
  shows "set (stale img (hosted (world d))) \<subseteq> set (stale img (hosted d))" "distinct (map ct_ID (hosted (world d)))"
    "length (stale img (hosted (world d))) \<le> length (stale img (hosted d))"
  using assms fewer_stale unfolding fair_world_def by metis+

text \<open>One check: what it leaves, and the sleep it asks for.\<close>

lemma check_sleep:
  assumes laws: "check_laws dk conf hosted" and dist: "distinct (map ct_ID (hosted d))"
    and img: "cc_feedInImageName conf = img"
  obtains t err d1 where "checkFeederContainers dk conf d = Ret ((t, err), d1)" "distinct (map ct_ID (hosted d1))"
    "filter (\<lambda>c. ct_Image c = img) (hosted d1) = filter (\<lambda>c. ct_Image c = img) (hosted d)"
    "set (stale img (hosted d1)) \<subseteq> set (stale img (hosted d))" "t \<in> {second, 30 * second, 300 * second}"
    "t = 30 * second \<longrightarrow> length (stale img (hosted d1)) < length (stale img (hosted d))"
    "able conf stuck dk \<longrightarrow> length (stale img (hosted d1)) < length (stale img (hosted d)) \<or>
       (\<forall>c \<in> set (stale img (hosted d1)). ct_ID c \<in> stuck)"
proof -
  let ?old = "stale img (hosted d)"
  obtain t err d1 G where c: "checkFeederContainers dk conf d = Ret ((t, err), d1)"
    and G: "G \<subseteq> ct_ID ` set ?old" "hosted d1 = filter (\<lambda>x. ct_ID x \<notin> G) (hosted d)"
    and cases: "(t = 30 * second \<and> err = None \<and> (\<exists>c \<in> set ?old. ct_ID c \<in> G \<and> (\<forall>i \<in> G - {ct_ID c}. fails dk i))) \<or>
      (t = 300 * second \<and> err = None \<and> (\<forall>c \<in> set ?old. fails dk (ct_ID c))) \<or>
      (t = second \<and> err \<noteq> None \<and> d1 = d \<and>
         (dk_client dk \<noteq> None \<or> snd (dk_list dk (check_filter conf) d) \<noteq> None))"
    using check_removes_one_stale[OF laws, of d] unfolding img by (elim exE conjE) (rule that)
  note gone = remove_stale[OF dist G]
  show thesis
  proof (rule that[OF c gone(1,2,3)])
    show "t \<in> {second, 30 * second, 300 * second}" using cases by blast
    show "t = 30 * second \<longrightarrow> length (stale img (hosted d1)) < length ?old"
      using cases gone(4) by (auto simp: second_def)
    show "able conf stuck dk \<longrightarrow> length (stale img (hosted d1)) < length ?old \<or>
       (\<forall>c \<in> set (stale img (hosted d1)). ct_ID c \<in> stuck)"
    proof
      assume able: "able conf stuck dk"
      then have stuck: "i \<in> stuck" if "fails dk i" for i
        using that unfolding able_def fails_def by metis
      from cases show "length (stale img (hosted d1)) < length ?old \<or> (\<forall>c \<in> set (stale img (hosted d1)). ct_ID c \<in> stuck)"
      proof (elim disjE)
        assume "t = second \<and> err \<noteq> None \<and> d1 = d \<and> (dk_client dk \<noteq> None \<or> snd (dk_list dk (check_filter conf) d) \<noteq> None)"
        then show ?thesis using able by (auto simp: able_def)
      qed (use gone(3,4) stuck in blast)+
    qed
  qed
qed

text \<open>
  C20. The checker replaces the out-of-date containers. In any rounds, as long as the context is
  open, whatever ends each wait (the timer, a signal, a rebuild request), and although the
  client, the search and the removals may fail in any of them: after as many rounds in which
  Docker answers and removes every container but those of \<open>stuck\<close> as there were containers of
  another image at first, only containers of \<open>stuck\<close> are left of these; so a container that
  cannot be removed does not hold up the others, and if there is none nothing out of date is
  left. It has slept one second, thirty seconds or five minutes each time, thirty seconds at
  most once for each of them, and a container of the configured image that nobody else
  removes is still there. What is asked of Docker is \<open>check_laws\<close> (a removal concerns one
  container, and one that fails may or may not have removed it), and of everybody else that
  they start no container of another image; they may start containers of the configured image
  and remove any.
\<close>
theorem checker_converges:
  assumes dist: "distinct (map ct_ID (hosted d))"
    and rnds: "\<forall>(w, dk, world) \<in> set rnds. w \<noteq> CtxDone \<and> check_laws dk conf hosted \<and>
      fair_world hosted (cc_feedInImageName conf) world"
    and enough: "length (stale (cc_feedInImageName conf) (hosted d)) \<le>
      length (filter (\<lambda>(w, dk, world). able conf stuck dk) rnds)"
  shows "\<exists>slept d'. checker conf rnds d = Ret (False, slept, d') \<and>
     (\<forall>c \<in> set (stale (cc_feedInImageName conf) (hosted d')). ct_ID c \<in> stuck) \<and>
     set slept \<subseteq> {second, 30 * second, 300 * second} \<and>
     length (filter (\<lambda>t. t = 30 * second) slept) \<le> length (stale (cc_feedInImageName conf) (hosted d)) \<and>
     (\<forall>c \<in> set (hosted d). ct_Image c = cc_feedInImageName conf \<longrightarrow>
        (\<forall>(w, dk, world) \<in> set rnds. spares hosted c world) \<longrightarrow> c \<in> set (hosted d'))"
proof -
  let ?img = "cc_feedInImageName conf"
  let ?left = "\<lambda>d. \<forall>c \<in> set (stale ?img (hosted d)). ct_ID c \<in> stuck"
  have "\<exists>slept d'. checker conf rnds d = Ret (False, slept, d') \<and> ?left d' \<and>
     set slept \<subseteq> {second, 30 * second, 300 * second} \<and>
     length (filter (\<lambda>t. t = 30 * second) slept) \<le> length (stale ?img (hosted d)) \<and>
     (\<forall>c \<in> set (hosted d). ct_Image c = ?img \<longrightarrow>
        (\<forall>(w, dk, world) \<in> set rnds. spares hosted c world) \<longrightarrow> c \<in> set (hosted d'))"
    if "distinct (map ct_ID (hosted d))"
      "length (stale ?img (hosted d)) \<le> length (filter (\<lambda>(w, dk, world). able conf stuck dk) rnds) \<or> ?left d" for d
    using that rnds
  proof (induction rnds arbitrary: d)
    case Nil
    then show ?case by auto
  next
    case (Cons r rnds)
    obtain w dk world where r: "r = (w, dk, world)" by (cases r)
    have w: "w \<noteq> CtxDone" and laws: "check_laws dk conf hosted" and fair: "fair_world hosted ?img world"
      using Cons.prems(3) by (auto simp: r)
    obtain t err d1 where c: "checkFeederContainers dk conf d = Ret ((t, err), d1)" "distinct (map ct_ID (hosted d1))"
      "filter (\<lambda>c. ct_Image c = ?img) (hosted d1) = filter (\<lambda>c. ct_Image c = ?img) (hosted d)"
      "set (stale ?img (hosted d1)) \<subseteq> set (stale ?img (hosted d))" "t \<in> {second, 30 * second, 300 * second}"
      "t = 30 * second \<longrightarrow> length (stale ?img (hosted d1)) < length (stale ?img (hosted d))"
      "able conf stuck dk \<longrightarrow> length (stale ?img (hosted d1)) < length (stale ?img (hosted d)) \<or> ?left d1"
      using check_sleep[OF laws Cons.prems(1) refl, of stuck] by blast
    note f = fair_worldD[OF fair c(2)]
    note shrunk = fewer_stale[OF c(2,4)]
    have left: "?left d \<Longrightarrow> ?left (world d1)" "?left d1 \<Longrightarrow> ?left (world d1)" using c(4) f(1) by blast+
    have "length (stale ?img (hosted (world d1))) \<le> length (filter (\<lambda>(w, dk, world). able conf stuck dk) rnds) \<or>
        ?left (world d1)"
    proof (cases "?left d \<or> ?left d1")
      case True
      then show ?thesis using left by blast
    next
      case False
      then have n: "length (stale ?img (hosted d)) \<le> length (filter (\<lambda>(w, dk, world). able conf stuck dk) (r # rnds))"
        using Cons.prems(2) by blast
      show ?thesis
      proof (cases "able conf stuck dk")
        case True
        then have "length (stale ?img (hosted d1)) < length (stale ?img (hosted d))" using c(7) False by blast
        with n f(3) True show ?thesis by (simp add: r)
      next
        case False
        with n f(3) shrunk show ?thesis by (simp add: r)
      qed
    qed
    then obtain slept d' where run: "checker conf rnds (world d1) = Ret (False, slept, d')"
      and clean: "?left d'" and times: "set slept \<subseteq> {second, 30 * second, 300 * second}"
      and short: "length (filter (\<lambda>t. t = 30 * second) slept) \<le> length (stale ?img (hosted (world d1)))"
      and kept: "\<forall>c \<in> set (hosted (world d1)). ct_Image c = ?img \<longrightarrow>
          (\<forall>(w, dk, world) \<in> set rnds. spares hosted c world) \<longrightarrow> c \<in> set (hosted d')"
      using Cons.IH[OF f(2)] Cons.prems(3) by force
    have current: "x \<in> set (hosted d1)" if "x \<in> set (hosted d)" "ct_Image x = ?img" for x
    proof -
      have "x \<in> set (filter (\<lambda>c. ct_Image c = ?img) (hosted d))" using that by simp
      then show ?thesis unfolding c(3)[symmetric] by simp
    qed
    have "\<forall>x \<in> set (hosted d). ct_Image x = ?img \<longrightarrow>
        (\<forall>(w, dk, world) \<in> set (r # rnds). spares hosted x world) \<longrightarrow> x \<in> set (hosted d')"
      using kept current r by (auto simp: spares_def)
    moreover have "length (filter (\<lambda>t. t = 30 * second) (t # slept)) \<le> length (stale ?img (hosted d))"
      "length (filter (\<lambda>t. t = 30 * second) slept) \<le> length (stale ?img (hosted d))"
      using short f(3) c(6) shrunk by auto
    moreover have "set (t # slept) \<subseteq> {second, 30 * second, 300 * second}" using times c(5) by simp
    moreover have "checker conf (r # rnds) d =
        Ret (False, (if w = TimedOut then t # slept else slept), d')"
      using run c(1) w r by (cases w) simp_all
    ultimately show ?case using clean times by (cases "w = TimedOut") simp_all
  qed
  with dist enough show ?thesis by blast
qed

text \<open>
  The search fails in the first round; a container of the configured image is started in the
  second wait; a signal ends the third. One container cannot be removed.
\<close>

definition new_container :: dk_container where
  "new_container = \<lparr>ct_ID = ''n'', ct_Image = ''feed-in:2'', ct_Names = [''/feed-in-n'']\<rparr>"

definition start_one :: "dk_container list \<Rightarrow> dk_container list" where
  "start_one d = (if list_ex (\<lambda>c. ct_ID c = ''n'') d then d else new_container # d)"

lemma start_one_fair: "fair_world named ''feed-in:2'' start_one"
proof -
  have "distinct (map ct_ID (named (start_one d)))" if "distinct (map ct_ID (named d))" for d
    using that by (auto simp: start_one_def new_container_def named_def list_ex_iff)
  moreover have "set (stale ''feed-in:2'' (named (start_one d))) \<subseteq> set (stale ''feed-in:2'' (named d))" for d
    by (auto simp: start_one_def new_container_def named_def stale_def)
  ultimately show ?thesis unfolding fair_world_def by blast
qed

definition down_docker :: "dk_container list docker" where
  "down_docker = list_docker\<lparr>dk_list := (\<lambda>f d. ([], Some (ErrExt ''timeout'')))\<rparr>"

definition sticky_docker :: "dk_container list docker" where
  "sticky_docker = list_docker\<lparr>dk_remove := (\<lambda>i d. if i = ''a'' then (Some (ErrExt ''busy''), d)
     else (None, filter (\<lambda>c. ct_ID c \<noteq> i) d))\<rparr>"

lemma sticky_laws: "check_laws down_docker conf named" "check_laws sticky_docker conf named" "able conf {''a''} sticky_docker"
proof -
  have "named (filter P d) = filter P (named d)" for P d
    unfolding named_def filter_filter by (rule filter_cong) auto
  then show "check_laws down_docker conf named" "check_laws sticky_docker conf named"
    by (simp_all add: check_laws_def down_docker_def sticky_docker_def list_docker_def) (simp_all add: named_def)
  show "able conf {''a''} sticky_docker" by (simp add: able_def sticky_docker_def list_docker_def)
qed

theorem checker_converges_witness:
  "\<exists>slept d'. checker check_conf [(TimedOut, down_docker, id), (TimedOut, sticky_docker, start_one),
        (Signalled, sticky_docker, id)] three_containers = Ret (False, slept, d') \<and>
     slept = [second, 30 * second] \<and> map ct_ID d' = [''n'', ''a'', ''b''] \<and>
     (\<forall>c \<in> set (stale ''feed-in:2'' (named d')). ct_ID c = ''a'')"
proof -
  let ?rnds = "[(TimedOut, down_docker, id), (TimedOut, sticky_docker, start_one), (Signalled, sticky_docker, id)]"
  have img: "cc_feedInImageName check_conf = ''feed-in:2''" by (simp add: check_conf_def)
  have idf: "fair_world named ''feed-in:2'' id" by (simp add: fair_world_def)
  have fair: "\<forall>(w, dk, world) \<in> set ?rnds. w \<noteq> CtxDone \<and> check_laws dk check_conf named \<and>
      fair_world named (cc_feedInImageName check_conf) world"
    unfolding img using start_one_fair idf sticky_laws by simp
  have d: "distinct (map ct_ID (named three_containers))" by (simp add: named_def three_containers_def)
  have n: "length (stale (cc_feedInImageName check_conf) (named three_containers)) \<le>
      length (filter (\<lambda>(w, dk, world). able check_conf {''a''} dk) ?rnds)"
    using sticky_laws(3) by (simp add: named_def three_containers_def stale_def img)
  obtain slept d' where r: "checker check_conf ?rnds three_containers = Ret (False, slept, d')"
    "\<forall>c \<in> set (stale ''feed-in:2'' (named d')). ct_ID c \<in> {''a''}"
    using checker_converges[OF d fair n] unfolding img by blast
  have "slept = [second, 30 * second] \<and> map ct_ID d' = [''n'', ''a'', ''b'']"
    using r(1) by (simp add: checkFeederContainers_def down_docker_def sticky_docker_def list_docker_def check_conf_def
        three_containers_def named_def start_one_def new_container_def) (elim conjE, hypsubst, simp)
  with r show ?thesis by (intro exI[of _ slept] exI[of _ d']) simp
qed

end
