(* ===== verification/Spec2Isabelle.thy ===== *)
theory Spec2Isabelle
  imports Server StatsHtml StatsLock StatsSeries ServedBytes Goroutines ConnNumbers ContainerChecker
begin

text \<open>
  A model of bordercontrol (\<open>src/bordercontrol\<close>), the gateway between ADS-B feeders on the internet
  and the containers that process their data, with the theorems that make it correct.

  \<^bold>\<open>The program.\<close> A feeder connects over TLS to one of two listeners, BEAST or MLAT; its API key is
  the SNI of the handshake. The proxy limits how often a source address may connect, reads
  the first data, authenticates the key against a cache of the feeders that the ATC service
  knows, limits the connections per feeder and protocol, starts a feed-in container (BEAST) or
  finds the feeder's multiplexer (MLAT), dials it, registers the connection with the
  statistics and copies bytes until one side ends, the feeder is removed or the program
  stops. The statistics are served over HTTP, NATS and Prometheus. A container manager starts
  containers on request, removes outdated ones, and rebuilds their image on demand. One
  function starts these subsystems in order and stops them in order.

  \<^bold>\<open>The theories.\<close>
  \<^item> \<open>Prelude\<close>: Go outcomes, errors, maps and time. \<open>GoText\<close>: the parts of \<open>strings\<close>,
    \<open>strconv\<close>, \<open>bufio\<close> and \<open>encoding/json\<close> the program uses on texts. \<open>GoNet\<close>: addresses. \<open>Lifecycle\<close>:
    the locales \<open>closable\<close> and \<open>subsystem\<close>, the contract of \<open>Init\<close> and \<open>Close\<close>.
  \<^item> \<open>Feedprotocol\<close>: \<open>lib/feedprotocol\<close>, the protocols with their names and JSON forms.
  \<^item> \<open>ConnTracker\<close>: the connection tracker of \<open>lib/feedproxy/feedproxy_connections.go\<close> (numbers,
    eviction, rate check), as single calls and with the two locked halves of \<open>check\<close> apart;
    the rate limit is proved of their interleaving, with up to N checks under way.
    \<open>ConnNumbers\<close>: the numbers drawn over a whole run, and how far each call moves the counter.
  \<^item> \<open>Atc\<close>: \<open>lib/atc\<close>, sign-in and the request loop. \<open>FeederDB\<close>: \<open>feedproxy_metadata.go\<close>, the cache
    of valid feeders; its interface is the locale \<open>feeder_directory\<close>.
  \<^item> \<open>Stats\<close>: the store of \<open>lib/stats/stats.go\<close>, one definition per operation. \<open>StatsInv\<close>: its
    well-formedness and the effect of each operation. \<open>StatsSpec\<close>: the abstract registry of
    connections the store refines, and the locale \<open>conn_registry\<close> that the proxy relies on.
    \<open>StatsRace\<close>: the locked halves of the operations interleaved, and where they panic.
    \<open>StatsConc\<close>: the same system with a log, which is linearizable; the shape of its stores; the entry
    without maps. \<open>StatsSeries\<close>: the Prometheus series of a connection. \<open>ServedBytes\<close>: the
    store and the copying loops together. \<open>StatsNats\<close>: \<open>stats_nats.go\<close>, each request ranging over
    the connections in an order of its own.
    \<open>StatsProm\<close>: \<open>stats_prom.go\<close>, \<open>Init\<close> and \<open>Close\<close>. \<open>StatsHttp\<close>: the routes of
    the web server and its API handlers. \<open>StatsPage\<close>: the rows of the statistics page
    and the text of its data units. \<open>StatsHtml\<close>: the text of the page (\<open>stats.tmpl\<close>) and a reader of it;
    \<open>GoTime\<close>: the calendar for the connection times on it. \<open>StatsLock\<close>: the lock of the
    store while pages and API replies are written to their clients.
  \<^item> \<open>NatsIO\<close>: \<open>lib/nats_io\<close>. \<open>Stunnel\<close>: \<open>lib/stunnel\<close>, the certificate and its reload.
  \<^item> \<open>ErrText\<close>: the texts of the errors. \<open>Containers\<close>: the operations of \<open>lib/containers\<close> on Docker. \<open>ContainerStart\<close>: the callers of
    \<open>Start\<close> and the worker, as a step relation. \<open>ContainerChecker\<close>: the goroutine that checks the
    containers, round by round, with an answer of Docker per round. \<open>ContainerManager\<close>: \<open>Run\<close> and
    \<open>Stop\<close>, which waits for the two goroutines.
  \<^item> \<open>ProxyAuth\<close>: authentication, dialling and the periodic check. \<open>ProxyLoop\<close>: the copying loop
    and the two directions, with reads that return data and an error and writes that fail half-way. \<open>ProxyStart\<close>: \<open>ProxyConnection.Start\<close> and \<open>Stop\<close>. \<open>ProxyLife\<close>:
    \<open>feedproxy_init.go\<close>.
  \<^item> \<open>Listener\<close>: \<open>lib/listener\<close> and \<open>listenWithContext\<close>, over the events of a listener: answers of
    the network, the closing of the context, the end of a connection that \<open>Run\<close> waits for. \<open>Cli\<close>: the flags of
    \<open>cmd/bordercontrol/main.go\<close> and the configurations made of them. \<open>Goroutines\<close>: \<open>logNumGoroutines\<close>, in time. \<open>Server\<close>: the rest of that file,
    the composition of all of these, with the exit code. The end of this theory joins the listeners and the tracker.

  \<^bold>\<open>How the model corresponds to the code.\<close> A Go struct is a record, a package's variables
  are a record that its operations take and return, an \<open>error\<close> result is an option of \<open>go_err\<close>,
  and a call that may panic returns \<open>'a go\<close>. \<open>uint\<close> and \<open>uint64\<close> are 64-bit words that wrap,
  \<open>uint8\<close> is an 8-bit word, \<open>int\<close> is an integer. A map is an association list with distinct
  keys in some order; a nil map is \<open>None\<close>. Time is in nanoseconds. Each reading of a clock is
  an argument of its own. What other programs and third-party packages answer (Docker, NATS,
  Prometheus, DNS, the network, the certificate files, the HTTP client) is an argument too, in
  the record of the operation's surroundings; where a theorem needs the documented
  behaviour of such a package it is a named hypothesis, and a concrete instance that keeps it is
  given beside: \<open>prom_laws\<close> (registering a Prometheus collector), \<open>io_contract\<close> (the counts that
  \<open>io.Reader\<close> and \<open>io.Writer\<close> return), \<open>check_laws\<close> and \<open>start_laws\<close> (what Docker's calls do when they
  succeed; all of them may fail), \<open>parser_laws\<close> (what the command-line parser hands to the program).

  \<^bold>\<open>Loops and bounds.\<close> \<open>getNum\<close> is a partial function, \<open>None\<close> if its loop does not end, with a theorem
  that says when that is. A call that waits for other goroutines (\<open>Stop\<close>, the end of \<open>Run\<close>, of
  \<open>runServer\<close> and of \<open>main\<close>, the reply to a rebuild request) is \<open>None\<close> or has a flag for waiting for ever. \<open>evict\<close> and the ATC request loop terminate by a measure. The loops
  that run as long as the program does (the copying loop, the accept loop, the refresh, the
  restart of a listener) are folds over a list of rounds, each with what it sees; a finite list
  is a prefix of the run, and what ends the loop is an outcome. No fuel is used.

  \<^bold>\<open>Concurrency.\<close> What a mutex makes atomic is one step. Where a function takes its lock more than
  once, the halves are separate definitions, and theories \<open>ConnTracker\<close>, \<open>StatsRace\<close>,
  \<open>StatsConc\<close>, \<open>ProxyStart\<close> and \<open>ContainerStart\<close> interleave them by step relations with invariants by
  rule induction. The log of \<open>StatsConc\<close> orders the operations of a run by their last locks; in that
  order the sequential registry gives the same answers, which is what the other readers of the store
  (page, API, NATS, the connection limit) rely on.

  \<^bold>\<open>What the theorems show.\<close> Data reaches a container only for an admitted client, and every
  outcome of a start of a running proxy gives back what it took; the proxy forwards, in order, what
  it reads without an error, and accounts for every byte of every complete write; the store refines a registry of connections, conserves bytes, and
  its gauges, replies and page agree with it, also when the operations interleave, and the bytes it
  shows of a served connection are the bytes the proxy wrote, up to a last write that failed half-way;
  the rate limit and the connection limit hold for calls
  that do not overlap, and exact bounds hold for those that do; no caller gets another's
  container; outdated containers that Docker can remove are gone after as many good checks as there
  were; a listener hands over
  every connection with its own configuration, and returns after shutdown exactly when they have all ended; a start that
  fails says why, a run whose goroutines end takes everything down and otherwise waits for them, and
  the exit code is known for every way to end; connection numbers do not repeat;
  a request for a feeder's statistics gets that feeder;
  the text of the statistics page reads back as the store, and the reply to a rebuild request is what the build log said, up
  to its first overlong line. Some theorems show where the code does less than it means to: the
  data of a read that also returns an error, which is lost; the client of a start before \<open>Init\<close>, which is
  not closed; the panic of a registration that meets a removal, the worker that blocks for ever after a late
  response, the cache that a failed refresh empties, the evictor that evicts nothing between
  whole operations, the entry without maps that shuts a feeder out, the Prometheus series that stay
  after a late registration, the page or reply that stalls the store, the rebuild that blocks when the
  checker is already woken, the build log
  that is read only up to its first long line, the reload subject that nothing subscribes.

  \<^bold>\<open>Not modelled.\<close> Log output and its context; the parsing of the command line, which is third-party, and its usage texts;
  the variables that only wrap a function for the unit tests; the text of times and of
  floating-point numbers in JSON replies and environment variables, where the value is kept instead of
  its text.
\<close>

section \<open>The listeners and the tracker\<close>

text \<open>
  The tracker between two accepts of a listener: the other listener, the proxied connections and
  the evictor run it on, drawing at most \<open>k\<close> numbers.
\<close>

definition tracker_runs :: "nat \<Rightarrow> nat \<Rightarrow> accept_result list \<Rightarrow> bool" where
  "tracker_runs m k rs \<longleftrightarrow>
     (\<forall>conn meantime t ns t'. Accepted conn meantime \<in> set rs \<longrightarrow> draws m t ns t' \<longrightarrow>
        (\<exists>ms. length ms \<le> k \<and> draws m t (ns @ ms) (meantime t')))"

lemma tracker_runs_Cons:
  "tracker_runs m k (r # rs) \<Longrightarrow> tracker_runs m k rs"
  by (auto simp: tracker_runs_def)

definition handed_numbers :: "listen_state \<Rightarrow> u64 list" where
  "handed_numbers s = map (px_ConnectionNumber \<circ> snd) (lt_started s)"

lemma accept_loop_draws:
  assumes "accept_loop running l rs s = Some (ended, s')" "tracker_runs m k rs"
    "draws m t ns (lt_tracker s)" "subseq (handed_numbers s) ns"
  shows "\<exists>ms. length ms \<le> length rs * Suc k \<and> draws m t (ns @ ms) (lt_tracker s') \<and>
     subseq (handed_numbers s') (ns @ ms)"
  using assms
proof (induction running l rs s arbitrary: ns rule: accept_loop.induct)
  case (1 running l s)
  then show ?case by (intro exI[of _ "[]"]) simp
next
  case (2 running l err rs s)
  show ?case
  proof (cases "err = ErrNetClosed")
    case True
    with 2 show ?thesis by (intro exI[of _ "[]"]) simp
  next
    case False
    with "2.prems"(1) have "accept_loop running l rs s = Some (ended, s')" by simp
    from "2.IH"[OF False this tracker_runs_Cons[OF "2.prems"(2)] "2.prems"(3,4)]
    obtain ms where "length ms \<le> length rs * Suc k" "draws m t (ns @ ms) (lt_tracker s')"
      "subseq (handed_numbers s') (ns @ ms)" by blast
    then show ?thesis by (intro exI[of _ ms]) simp
  qed
next
  case (3 running l conn mw rs s)
  note rest = tracker_runs_Cons[OF "3.prems"(2)]
  obtain ms where ms: "length ms \<le> k" "draws m t (ns @ ms) (mw (lt_tracker s))"
    using "3.prems"(2,3) unfolding tracker_runs_def by (meson list.set_intros(1))
  have sub: "subseq (handed_numbers s) (ns @ ms)" using "3.prems"(4) by (rule subseq_rev_drop_many)
  show ?case
  proof (cases running)
    case False
    then have g: "GetConnectionNumber running (mw (lt_tracker s)) =
        Some ((0, Some ErrFeedproxyNotInitialised), mw (lt_tracker s))"
      by (simp add: GetConnectionNumber_def)
    let ?s = "s\<lparr>lt_tracker := mw (lt_tracker s), lt_dropped := lt_dropped s @ [conn]\<rparr>"
    have "accept_loop running l rs ?s = Some (ended, s')" using "3.prems"(1) g by simp
    from "3.IH"(2)[OF g HOL.refl HOL.refl HOL.refl this rest, of "ns @ ms"] ms sub
    obtain ms' where "length ms' \<le> length rs * Suc k" "draws m t ((ns @ ms) @ ms') (lt_tracker s')"
      "subseq (handed_numbers s') ((ns @ ms) @ ms')" by (auto simp: handed_numbers_def)
    with ms(1) show ?thesis by (intro exI[of _ "ms @ ms'"]) simp
  next
    case True
    then obtain n u where n: "getNum (mw (lt_tracker s)) = Some (n, u)"
      using "3.prems"(1) by (auto simp: GetConnectionNumber_def split: option.splits)
    then have g: "GetConnectionNumber running (mw (lt_tracker s)) = Some ((n, None), u)"
      using True by (simp add: GetConnectionNumber_def)
    let ?s = "s\<lparr>lt_tracker := u, lt_started := lt_started s @ [(conn, proxy_config l n)]\<rparr>"
    have run: "accept_loop running l rs ?s = Some (ended, s')" using "3.prems"(1) g by simp
    have d: "draws m t ((ns @ ms) @ [n]) (lt_tracker ?s)" using draws.drawn[OF ms(2) n] by simp
    have "handed_numbers ?s = handed_numbers s @ [n]"
      by (simp add: handed_numbers_def proxy_config_def)
    then have "subseq (handed_numbers ?s) ((ns @ ms) @ [n])"
      using list_emb_append_mono[OF sub subseq_order.refl] by simp
    from "3.IH"(1)[OF g HOL.refl HOL.refl HOL.refl run rest d this]
    obtain ms' where "length ms' \<le> length rs * Suc k" "draws m t (((ns @ ms) @ [n]) @ ms') (lt_tracker s')"
      "subseq (handed_numbers s') (((ns @ ms) @ [n]) @ ms')" by blast
    with ms(1) show ?thesis by (intro exI[of _ "ms @ n # ms'"]) simp
  qed
qed

text \<open>
  C23. No two connections that a listener hands over to the proxy have the same number, and none has
  the number zero, whatever the other listener, the proxied connections and the evictor do to
  the tracker in between, as long as it holds at most \<open>m\<close> connections and the run stays within one
  round of the counter: \<open>k\<close> bounds the numbers drawn by others between two accepts. So the keys
  under which the statistics register the connections of a listener are distinct.
\<close>
theorem handed_over_numbers_distinct:
  assumes "accept_loop running l rs s = Some (ended, s')" "tracker_runs m k rs"
    "length (connections (lt_tracker s)) \<le> m" "lt_started s = []"
    "length rs * Suc k * (m + 2) < 2 ^ 64"
  shows "distinct (handed_numbers s') \<and> 0 \<notin> set (handed_numbers s')"
proof -
  have "draws m (lt_tracker s) [] (lt_tracker s)" by (rule draws.start[OF assms(3)])
  moreover have "subseq (handed_numbers s) []" by (simp add: handed_numbers_def assms(4))
  ultimately obtain ms where ms: "length ms \<le> length rs * Suc k" "draws m (lt_tracker s) ([] @ ms) (lt_tracker s')"
    "subseq (handed_numbers s') ([] @ ms)"
    using accept_loop_draws[OF assms(1,2)] by blast
  have "length ms * (m + 2) < 2 ^ 64"
    using mult_le_mono1[OF ms(1), of "m + 2"] assms(5) by linarith
  with draws_distinct ms(2) have "distinct ms" "0 \<notin> set ms" by simp_all
  moreover obtain N where "handed_numbers s' = nths ms N"
    using ms(3) by (auto simp: subseq_conv_nths)
  ultimately show ?thesis
    using set_nths_subset[of ms N] by (auto simp: distinct_nthsI)
qed

text \<open>Two connections, between which the other listener has drawn a number and the evictor has run.\<close>

definition meanwhile_drawn :: "incomingConnectionTracker \<Rightarrow> incomingConnectionTracker" where
  "meanwhile_drawn t = (case getNum (evict (\<lambda>_. 0) t) of None \<Rightarrow> evict (\<lambda>_. 0) t | Some (n, t') \<Rightarrow> t')"

lemma meanwhile_drawn_runs: "tracker_runs m 1 [Accepted a id, Accepted b meanwhile_drawn]"
proof -
  have "\<exists>ms. length ms \<le> 1 \<and> draws m t (ns @ ms) (meanwhile_drawn t')" if "draws m t ns t'" for t ns t'
  proof (cases "getNum (evict (\<lambda>_. 0) t')")
    case None
    with draws.evicted[OF that, of "\<lambda>_. 0"] show ?thesis
      by (intro exI[of _ "[]"]) (simp add: meanwhile_drawn_def)
  next
    case (Some nt)
    obtain n t'' where nt: "nt = (n, t'')" by (cases nt)
    from draws.drawn[OF draws.evicted[OF that, of "\<lambda>_. 0"]] Some nt show ?thesis
      by (intro exI[of _ "[n]"]) (simp add: meanwhile_drawn_def)
  qed
  moreover have "\<exists>ms. length ms \<le> 1 \<and> draws m t (ns @ ms) (id t')" if "draws m t ns t'" for t ns t'
    using that by (intro exI[of _ "[]"]) simp
  ultimately show ?thesis by (auto simp: tracker_runs_def)
qed

theorem handed_over_numbers_distinct_witness:
  "\<exists>s'. accept_loop True zero_listener [Accepted ''a:1'' id, Accepted ''b:2'' meanwhile_drawn] listen0 = Some (False, s') \<and>
     handed_numbers s' = [1, 3] \<and> distinct (handed_numbers s')"
proof -
  have g: "getNum \<lparr>connections = [], connectionNumber = n\<rparr> = Some (bump n, \<lparr>connections = [], connectionNumber = bump n\<rparr>)" for n
    by (simp add: getNum_def getNum_loop.simps in_use_def)
  obtain s' where run: "accept_loop True zero_listener [Accepted ''a:1'' id, Accepted ''b:2'' meanwhile_drawn] listen0 = Some (False, s')"
    and n: "handed_numbers s' = [1, 3]"
    by (simp add: GetConnectionNumber_def listen0_def new_tracker_def meanwhile_drawn_def evict_def evict_loop.simps g
        handed_numbers_def proxy_config_def bump_def)
  have "length (connections (lt_tracker listen0)) \<le> 0" "lt_started listen0 = []"
    by (simp_all add: listen0_def new_tracker_def)
  from handed_over_numbers_distinct[OF run meanwhile_drawn_runs this] run n show ?thesis by simp
qed

end
